(* ===== verification/VM_Prelude.thy ===== *)
theory VM_Prelude
  imports Main "HOL-Library.Word" "HOL-Library.Monad_Syntax"
begin

text \<open>
  Prelude of the lms2012 virtual machine development: the machine integer types of
  \<open>lms2012/lmstypes.h\<close>, the conversions between them that C performs implicitly, the
  development's theorem collections and the lemmas on options and words that every
  component shares.

  A C function that changes the state of the virtual machine is a HOL function from the
  state to an \<open>option\<close>: \<^theory_text>\<open>None\<close> is an access outside mapped memory,
  another operation the C standard leaves undefined, or a loop that does not return;
  nothing else is \<open>None\<close>. The \<open>do\<close> notation of \<open>HOL-Library.Monad_Syntax\<close> (on
  \<open>option\<close>) sequences such functions with the state passed explicitly.
\<close>

unbundle bit_operations_syntax

named_theorems vm_defs \<open>definitions unfolded to execute an operation symbolically\<close>
named_theorems vm_frame \<open>what an operation leaves unchanged\<close>
named_theorems vm_exec \<open>results of executing a helper operation\<close>

text \<open>The integer types of \<open>lmstypes.h\<close>. A word is read as unsigned by \<open>unat\<close> or
  \<open>uint\<close> and as two's complement by \<open>sint\<close>; signed C types are words whose operations
  are written with \<open>sint\<close> or the signed comparisons where the sign matters.\<close>

type_synonym UBYTE = "8 word"
type_synonym UWORD = "16 word"
type_synonym ULONG = "32 word"
type_synonym DATA8 = "8 word"
type_synonym DATA16 = "16 word"
type_synonym DATA32 = "32 word"
type_synonym DATAF = "32 word"
type_synonym HANDLER = "16 word"
type_synonym PRGID = "16 word"
type_synonym OBJID = "16 word"

subsection \<open>Options\<close>

lemma bind_SomeE:
  assumes "Option.bind m f = Some y"
  obtains x where "m = Some x" and "f x = Some y"
  using assms by (cases m) auto

lemmas bind_conv = Option.bind_eq_Some_conv Option.bind_eq_None_conv

lemma bind_cong_Some [cong]:
  "m = m' \<Longrightarrow> (\<And>x. m' = Some x \<Longrightarrow> f x = f' x) \<Longrightarrow> Option.bind m f = Option.bind m' f'"
  by (cases m') auto

subsection \<open>Signed reading of words\<close>

text \<open>C's \<open>/\<close> and \<open>%\<close> on \<open>int\<close> truncate towards zero.\<close>

definition cdiv :: "int \<Rightarrow> int \<Rightarrow> int" where
  "cdiv a b = sgn a * sgn b * (\<bar>a\<bar> div \<bar>b\<bar>)"

definition cmod :: "int \<Rightarrow> int \<Rightarrow> int" where
  "cmod a b = a - cdiv a b * b"

lemma cdiv_cmod: "cdiv a b * b + cmod a b = a"
  by (simp add: cmod_def)

lemma cmod_abs: "cmod a b = sgn a * (\<bar>a\<bar> mod \<bar>b\<bar>)"
proof -
  have "\<bar>a\<bar> = \<bar>b\<bar> * (\<bar>a\<bar> div \<bar>b\<bar>) + \<bar>a\<bar> mod \<bar>b\<bar>" by simp
  then have "sgn a * \<bar>a\<bar> = sgn a * (\<bar>b\<bar> * (\<bar>a\<bar> div \<bar>b\<bar>)) + sgn a * (\<bar>a\<bar> mod \<bar>b\<bar>)"
    by (metis distrib_left)
  moreover have "sgn a * \<bar>a\<bar> = a" by (simp add: sgn_mult_abs)
  moreover have "\<bar>b\<bar> = sgn b * b" by (simp add: abs_sgn mult.commute)
  ultimately show ?thesis
    by (simp add: cmod_def cdiv_def algebra_simps)
qed

lemma cmod_bound: "b \<noteq> 0 \<Longrightarrow> \<bar>cmod a b\<bar> < \<bar>b\<bar>"
  by (cases "a = 0") (auto simp: cmod_abs abs_mult)

lemma cmod_sign: "0 \<le> cmod a b \<or> a < 0"
proof (cases "a < 0 \<or> b = 0")
  case True
  then show ?thesis by (auto simp: cmod_abs sgn_if)
next
  case False
  then show ?thesis by (auto simp: cmod_abs sgn_if)
qed

lemma cdiv_bound: "\<bar>cdiv a b\<bar> \<le> \<bar>a\<bar>"
proof (cases "b = 0 \<or> a = 0")
  case True
  then show ?thesis by (auto simp: cdiv_def)
next
  case False
  then have "1 \<le> \<bar>b\<bar>" by linarith
  then have "\<bar>a\<bar> div \<bar>b\<bar> \<le> \<bar>a\<bar>"
    using zdiv_mono2 [of "\<bar>a\<bar>" 1 "\<bar>b\<bar>"] by simp
  moreover have "0 \<le> \<bar>a\<bar> div \<bar>b\<bar>" using False by (simp add: pos_imp_zdiv_nonneg_iff)
  ultimately show ?thesis using False by (simp add: cdiv_def abs_mult abs_sgn_eq)
qed

lemma sint8_range: "- 128 \<le> sint (x :: 8 word)" "sint (x :: 8 word) \<le> 127"
  using sint_range_size [of x] by (simp_all add: word_size)

lemma sint16_range: "- 32768 \<le> sint (x :: 16 word)" "sint (x :: 16 word) \<le> 32767"
  using sint_range_size [of x] by (simp_all add: word_size)

lemma sint32_range: "- 2147483648 \<le> sint (x :: 32 word)" "sint (x :: 32 word) \<le> 2147483647"
  using sint_range_size [of x] by (simp_all add: word_size)

lemma sint_of_int_range:
  assumes "- (2 ^ (LENGTH('a::len) - 1)) \<le> i" and "i < 2 ^ (LENGTH('a) - 1)"
  shows "sint (word_of_int i :: 'a word) = i"
  using assms by (simp add: signed_take_bit_int_eq_self sint_sbintrunc')

end
