(* ===== verification/VM_Bytecodes.thy ===== *)
theory VM_Bytecodes
  imports VM_Prelude
begin

text \<open>
  The constants of the byte code format: the parameter flags and the encoding macros of
  \<open>lms2012/bytecodes.h.in\<close>, the limits of \<open>lms2012/lms2012.h\<close>, and the constants that
  the build generates into \<open>bytecodes.h\<close> from a table that is not part of the
  repository, which are the fields of the record \<open>bytecodes\<close>.
\<close>

subsection \<open>Parameter flags\<close>

definition PRIMPAR_LONG :: UBYTE where "PRIMPAR_LONG = 0x80"
definition PRIMPAR_VARIABLE :: UBYTE where "PRIMPAR_VARIABLE = 0x40"
definition PRIMPAR_GLOBAL :: UBYTE where "PRIMPAR_GLOBAL = 0x20"
definition PRIMPAR_HANDLE :: UBYTE where "PRIMPAR_HANDLE = 0x10"
definition PRIMPAR_ADDR :: UBYTE where "PRIMPAR_ADDR = 0x08"
definition PRIMPAR_INDEX :: UBYTE where "PRIMPAR_INDEX = 0x1F"
definition PRIMPAR_CONST_SIGN :: UBYTE where "PRIMPAR_CONST_SIGN = 0x20"
definition PRIMPAR_VALUE :: UBYTE where "PRIMPAR_VALUE = 0x3F"
definition PRIMPAR_BYTES :: UBYTE where "PRIMPAR_BYTES = 0x07"
definition PRIMPAR_STRING_OLD :: UBYTE where "PRIMPAR_STRING_OLD = 0"
definition PRIMPAR_1_BYTE :: UBYTE where "PRIMPAR_1_BYTE = 1"
definition PRIMPAR_2_BYTES :: UBYTE where "PRIMPAR_2_BYTES = 2"
definition PRIMPAR_4_BYTES :: UBYTE where "PRIMPAR_4_BYTES = 3"
definition PRIMPAR_STRING :: UBYTE where "PRIMPAR_STRING = 4"
definition PRIMPAR_LABEL :: UBYTE where "PRIMPAR_LABEL = 0x20"

lemmas primpar_defs =
  PRIMPAR_LONG_def PRIMPAR_VARIABLE_def PRIMPAR_GLOBAL_def PRIMPAR_HANDLE_def
  PRIMPAR_ADDR_def PRIMPAR_INDEX_def PRIMPAR_CONST_SIGN_def PRIMPAR_VALUE_def
  PRIMPAR_BYTES_def PRIMPAR_STRING_OLD_def PRIMPAR_1_BYTE_def PRIMPAR_2_BYTES_def
  PRIMPAR_4_BYTES_def PRIMPAR_STRING_def PRIMPAR_LABEL_def

subsection \<open>Encoding macros\<close>

text \<open>The macros \<open>LC0\<close> to \<open>GV4\<close> write the bytes of one parameter; their argument is
  an \<open>int\<close> expression, a 32-bit word here. \<open>LCS\<close> is followed by the characters of a
  string and a zero.\<close>

definition byte_of :: "ULONG \<Rightarrow> nat \<Rightarrow> UBYTE" where
  "byte_of v k = ucast (drop_bit (8 * k) v)"

definition LCS :: UBYTE where "LCS = PRIMPAR_LONG OR PRIMPAR_STRING"

definition LAB1 :: "ULONG \<Rightarrow> UBYTE list" where
  "LAB1 v = [PRIMPAR_LONG OR PRIMPAR_LABEL, byte_of v 0]"

definition LC0 :: "ULONG \<Rightarrow> UBYTE list" where
  "LC0 v = [ucast v AND PRIMPAR_VALUE]"
definition LC1 :: "ULONG \<Rightarrow> UBYTE list" where
  "LC1 v = [PRIMPAR_LONG OR PRIMPAR_1_BYTE, byte_of v 0]"
definition LC2 :: "ULONG \<Rightarrow> UBYTE list" where
  "LC2 v = [PRIMPAR_LONG OR PRIMPAR_2_BYTES, byte_of v 0, byte_of v 1]"
definition LC4 :: "ULONG \<Rightarrow> UBYTE list" where
  "LC4 v = [PRIMPAR_LONG OR PRIMPAR_4_BYTES, byte_of v 0, byte_of v 1, byte_of v 2, byte_of v 3]"

definition LV0 :: "ULONG \<Rightarrow> UBYTE list" where
  "LV0 i = [(ucast i AND PRIMPAR_INDEX) OR PRIMPAR_VARIABLE]"
definition LV1 :: "ULONG \<Rightarrow> UBYTE list" where
  "LV1 i = [PRIMPAR_LONG OR PRIMPAR_VARIABLE OR PRIMPAR_1_BYTE, byte_of i 0]"
definition LV2 :: "ULONG \<Rightarrow> UBYTE list" where
  "LV2 i = [PRIMPAR_LONG OR PRIMPAR_VARIABLE OR PRIMPAR_2_BYTES, byte_of i 0, byte_of i 1]"
definition LV4 :: "ULONG \<Rightarrow> UBYTE list" where
  "LV4 i = [PRIMPAR_LONG OR PRIMPAR_VARIABLE OR PRIMPAR_4_BYTES,
            byte_of i 0, byte_of i 1, byte_of i 2, byte_of i 3]"

definition GV0 :: "ULONG \<Rightarrow> UBYTE list" where
  "GV0 i = [(ucast i AND PRIMPAR_INDEX) OR PRIMPAR_VARIABLE OR PRIMPAR_GLOBAL]"
definition GV1 :: "ULONG \<Rightarrow> UBYTE list" where
  "GV1 i = [PRIMPAR_LONG OR PRIMPAR_VARIABLE OR PRIMPAR_GLOBAL OR PRIMPAR_1_BYTE, byte_of i 0]"
definition GV2 :: "ULONG \<Rightarrow> UBYTE list" where
  "GV2 i = [PRIMPAR_LONG OR PRIMPAR_VARIABLE OR PRIMPAR_GLOBAL OR PRIMPAR_2_BYTES,
            byte_of i 0, byte_of i 1]"
definition GV4 :: "ULONG \<Rightarrow> UBYTE list" where
  "GV4 i = [PRIMPAR_LONG OR PRIMPAR_VARIABLE OR PRIMPAR_GLOBAL OR PRIMPAR_4_BYTES,
            byte_of i 0, byte_of i 1, byte_of i 2, byte_of i 3]"

lemmas enc_defs = LCS_def LAB1_def LC0_def LC1_def LC2_def LC4_def
  LV0_def LV1_def LV2_def LV4_def GV0_def GV1_def GV2_def GV4_def

subsection \<open>Call parameter types and data types\<close>

text \<open>The codes of the parameter types are those of the page "Parameter Encoding" of
  \<open>lms2012.c\<close>.\<close>

definition CALLPAR_IN :: UBYTE where "CALLPAR_IN = 0x80"
definition CALLPAR_OUT :: UBYTE where "CALLPAR_OUT = 0x40"
definition CALLPAR_TYPE :: UBYTE where "CALLPAR_TYPE = 0x07"

definition DATA_8 :: UBYTE where "DATA_8 = 0"
definition DATA_16 :: UBYTE where "DATA_16 = 1"
definition DATA_32 :: UBYTE where "DATA_32 = 2"
definition DATA_F :: UBYTE where "DATA_F = 3"
definition DATA_S :: UBYTE where "DATA_S = 4"

lemmas callpar_defs = CALLPAR_IN_def CALLPAR_OUT_def CALLPAR_TYPE_def
lemmas data_type_defs = DATA_8_def DATA_16_def DATA_32_def DATA_F_def DATA_S_def

subsection \<open>NaN codes\<close>

definition DATA8_NAN :: DATA8 where "DATA8_NAN = 0x80"
definition DATA16_NAN :: DATA16 where "DATA16_NAN = 0x8000"
definition DATA32_NAN :: DATA32 where "DATA32_NAN = 0x80000000"
definition DATAF_NAN :: DATAF where "DATAF_NAN = 0x7FC00000"

subsection \<open>Limits of lms2012.h\<close>

definition MAX_BREAKPOINTS :: nat where "MAX_BREAKPOINTS = 4"
definition MAX_LABELS :: ULONG where "MAX_LABELS = 32"
definition MAX_HANDLES :: nat where "MAX_HANDLES = 500"
definition MAX_ARRAY_SIZE :: nat where "MAX_ARRAY_SIZE = 1000000000"
definition UI_PRIORITY :: ULONG where "UI_PRIORITY = 20"
definition C_PRIORITY :: ULONG where "C_PRIORITY = 200"
definition PRG_PRIORITY :: ULONG where "PRG_PRIORITY = 200"
definition ERROR_BUFFER_SIZE :: nat where "ERROR_BUFFER_SIZE = 8"
definition MIN_ARRAY_ELEMENTS :: int where "MIN_ARRAY_ELEMENTS = 0"
definition UPDATE_TIME1 :: ULONG where "UPDATE_TIME1 = 2"
definition UPDATE_TIME2 :: ULONG where "UPDATE_TIME2 = 10"

subsection \<open>Status values\<close>

datatype DSPSTAT = NOBREAK | STOPBREAK | SLEEPBREAK | INSTRBREAK | BUSYBREAK
  | PRGBREAK | USERBREAK | FAILBREAK

datatype OBJSTAT = STATUS0 | RUNNING | WAITING | STOPPED | HALTED

datatype RESULT = OK | BUSY | FAIL | STOP

text \<open>\<open>STATUS0\<close> is the value 0, which the code stores into \<open>StatusChange\<close> for "no
  change"; the other constructors are the members of the generated enumeration
  \<open>OBJSTAT\<close>, \<open>RESULT\<close> likewise.\<close>

subsection \<open>Sub codes and byte codes\<close>

text \<open>The numbers of the byte codes and of their sub codes are generated. The byte codes
  that exist in one version per type, or per relation and type, are one constructor with these as its arguments;
  \<open>opOther\<close> stands for the byte codes of the modules that this development does not
  model.\<close>

datatype MATH_SUBCODE = scEXP | scPOW | scMOD8 | scMOD16 | scMOD32 | scMOD | scFLOOR | scCEIL
  | scROUND | scABS | scNEGATE | scTRUNC | scSQRT | scLOG | scLN | scSIN | scCOS | scTAN
  | scASIN | scACOS | scATAN

datatype PROGRAM_INFO_SUBCODE = scOBJ_STOP | scOBJ_START | scGET_STATUS | scGET_PRGRESULT
  | scGET_SPEED | scSET_INSTR | scGET_PRGNAME

datatype INFO_SUBCODE = scSET_ERROR | scGET_ERROR | scERRORTEXT | scGET_VOLUME | scSET_VOLUME
  | scGET_MINUTES | scSET_MINUTES

datatype ARRAY_SUBCODE = scCREATE8 | scCREATE16 | scCREATE32 | scCREATEF | scSET_SIZE | scRESIZE
  | scDESTROY | scFILL | scCOPY | scINIT8 | scINIT16 | scINIT32 | scINITF | scREAD_CONTENT
  | scWRITE_CONTENT | scREAD_SIZE

datatype STRINGS_SUBCODE = scGET_SIZE | scADD | scCOMPARE | scDUPLICATE | scVALUE_TO_STRING
  | scNUMBER_TO_STRING | scSTRING_TO_VALUE | scSTRIP | scSUB | scVALUE_FORMATTED | scNUMBER_FORMATTED

datatype dtype = T8 | T16 | T32 | TF

datatype relation = LT | GT | EQ | NEQ | LTEQ | GTEQ

datatype OPCODE = opERROR | opNOP | opPROGRAM_STOP | opPROGRAM_START | opOBJECT_STOP
  | opOBJECT_START | opOBJECT_TRIG | opOBJECT_WAIT | opRETURN | opCALL | opOBJECT_END | opSLEEP
  | opPROGRAM_INFO | opLABEL | opDO | opADD dtype | opSUB dtype | opMUL dtype | opDIV dtype
  | opOR dtype | opAND dtype | opXOR dtype | opRL dtype | opINIT_BYTES | opMOVE dtype dtype
  | opJR | opJR_FALSE | opJR_TRUE | opJR_NAN | opCP relation dtype | opSELECT dtype | opJR_CP relation dtype
  | opINFO | opTIMER_WAIT | opTIMER_READY | opTIMER_READ | opBP0 | opBP1 | opBP2 | opBP3
  | opBP_SET | opMATH | opRANDOM | opTIMER_READ_US | opARRAY | opARRAY_WRITE | opARRAY_READ
  | opARRAY_APPEND | opREAD dtype | opWRITE dtype | opSTRINGS | opMEMORY_WRITE | opMEMORY_READ
  | opPORT_CNV_OUTPUT | opPORT_CNV_INPUT | opNOTE_TO_FREQ | opOther

subsection \<open>Error numbers\<close>

text \<open>The members of \<open>ERR\<close> (\<open>lms2012.h\<close>) that the modelled code logs, and their number.\<close>

definition VM_INTERNAL :: ULONG where "VM_INTERNAL = 15"
definition VM_PROGRAM_VALIDATION :: ULONG where "VM_PROGRAM_VALIDATION = 16"
definition VM_PROGRAM_NOT_STARTED :: ULONG where "VM_PROGRAM_NOT_STARTED = 17"
definition VM_PROGRAM_INSTRUCTION_BREAK :: ULONG where "VM_PROGRAM_INSTRUCTION_BREAK = 19"
definition ERRORS :: nat where "ERRORS = 29"

lemmas err_defs = VM_INTERNAL_def VM_PROGRAM_VALIDATION_def VM_PROGRAM_NOT_STARTED_def
  VM_PROGRAM_INSTRUCTION_BREAK_def ERRORS_def

subsection \<open>Generated constants\<close>

text \<open>What the generated \<open>bytecodes.h\<close> defines and the code uses: the limits of the
  integer types, the number of program slots and their ids, and the numeric codes of the
  enumerations.\<close>

record bytecodes =
  vmDATA8_MIN :: int
  vmDATA8_MAX :: int
  vmDATA16_MIN :: int
  vmDATA16_MAX :: int
  vmDATA32_MIN :: int
  vmDATA32_MAX :: int
  SLOTS :: PRGID
  GUI_SLOT :: PRGID
  USER_SLOT :: PRGID
  CMD_SLOT :: PRGID
  TERM_SLOT :: PRGID
  DEBUG_SLOT :: PRGID
  CURRENT_SLOT :: PRGID
  OBJSTAT_code :: "OBJSTAT \<Rightarrow> UBYTE"
  RESULT_code :: "RESULT \<Rightarrow> UBYTE"
  MATH_subcode :: "DATA8 \<Rightarrow> MATH_SUBCODE option"
  PROGRAM_INFO_subcode :: "DATA8 \<Rightarrow> PROGRAM_INFO_SUBCODE option"
  INFO_subcode :: "DATA8 \<Rightarrow> INFO_SUBCODE option"
  STRINGS_subcode :: "DATA8 \<Rightarrow> STRINGS_SUBCODE option"
  ARRAY_subcode :: "DATA8 \<Rightarrow> ARRAY_SUBCODE option"
  opcode :: "UBYTE \<Rightarrow> OPCODE"
  opBP0_code :: UBYTE
  vmFILENAMESIZE :: nat
  vmEXT_BYTECODE :: "UBYTE list"

text \<open>The documented facts about the limits: each lies in its type, above the NaN code,
  around zero.\<close>

definition limits_ok :: "bytecodes \<Rightarrow> bool" where
  "limits_ok B \<longleftrightarrow>
     - 128 < vmDATA8_MIN B \<and> vmDATA8_MIN B \<le> 0 \<and> 0 < vmDATA8_MAX B \<and> vmDATA8_MAX B \<le> 127 \<and>
     - 32768 < vmDATA16_MIN B \<and> vmDATA16_MIN B < - 128 \<and> 127 < vmDATA16_MAX B \<and> vmDATA16_MAX B \<le> 32767 \<and>
     - 2147483648 < vmDATA32_MIN B \<and> vmDATA32_MIN B < - 32768 \<and> 32767 < vmDATA32_MAX B \<and> vmDATA32_MAX B \<le> 2147483647"

text \<open>The functions of the C mathematics library whose results the C standard leaves to the
  implementation, as functions of the argument's bits that give the \<open>float\<close> the code
  stores.\<close>

record libm =
  lib_expf :: "DATAF \<Rightarrow> DATAF"
  lib_powf :: "DATAF \<Rightarrow> DATAF \<Rightarrow> DATAF"
  lib_sqrt :: "DATAF \<Rightarrow> DATAF"
  lib_log10 :: "DATAF \<Rightarrow> DATAF"
  lib_log :: "DATAF \<Rightarrow> DATAF"
  lib_sinf :: "DATAF \<Rightarrow> DATAF"
  lib_cosf :: "DATAF \<Rightarrow> DATAF"
  lib_tanf :: "DATAF \<Rightarrow> DATAF"
  lib_asinf :: "DATAF \<Rightarrow> DATAF"
  lib_acosf :: "DATAF \<Rightarrow> DATAF"
  lib_atanf :: "DATAF \<Rightarrow> DATAF"

end
