(* ===== verification/VM_State.thy ===== *)
theory VM_State
  imports VM_Bytecodes
begin

text \<open>
  The state of the virtual machine: the structs \<open>GLOBALS\<close>, \<open>PRG\<close>, \<open>OBJ\<close> and
  \<open>BRKP\<close> of \<open>lms2012.h\<close>, \<open>POOL\<close> and \<open>MEMORY_GLOBALS\<close> of \<open>c_memory.h\<close>, the byte
  addressed memory their pointers point into, and the environment the C library gives
  (the clock, the random numbers, the addresses \<open>realloc\<close> hands out).

  Memory is a map from 32-bit addresses to bytes; an address that is not mapped is an
  access violation. The register \<open>VMInstance.Value\<close>, which a parameter pointer may also
  point to, is an object of its own with four bytes. The objects \<open>OBJ\<close> that a program's
  pointer list refers to are kept in a heap of records, \<open>ObjHeap\<close>; their \<open>Local\<close> bytes,
  the images, the global variables, the pointer lists and the memory pools are bytes of
  memory.
\<close>

subsection \<open>Structs\<close>

record OBJ =
  Ip :: ULONG
  pLocal :: ULONG
  ObjStatus :: OBJSTAT
  Blocked :: UBYTE
  u :: UWORD  \<comment> \<open>the union of \<open>CallerId\<close> and \<open>TriggerCount\<close>\<close>

record BRKP =
  BrkpAddr :: ULONG
  BrkpOpCode :: UBYTE

record PRG =
  prg_InstrCnt :: ULONG
  prg_InstrTime :: ULONG
  prg_StartTime :: ULONG
  prg_RunTime :: ULONG
  prg_pImage :: ULONG
  prg_pData :: ULONG
  prg_pGlobal :: ULONG
  prg_pObjHead :: ULONG
  prg_pObjList :: ULONG
  prg_ObjectIp :: ULONG
  prg_ObjectLocal :: ULONG
  prg_Objects :: OBJID
  prg_ObjectId :: OBJID
  prg_Status :: OBJSTAT
  prg_StatusChange :: OBJSTAT
  prg_Result :: RESULT
  prg_Brkp :: "nat \<Rightarrow> BRKP"
  prg_Label :: "nat \<Rightarrow> ULONG"
  prg_Debug :: UWORD
  prg_Name :: "UBYTE list"  \<comment> \<open>the characters of \<open>Name\<close>\<close>

record POOL =
  pPool :: ULONG
  Size :: ULONG
  PoolType :: UBYTE

definition POOL_TYPE_MEMORY :: UBYTE where "POOL_TYPE_MEMORY = 0"
definition POOL_TYPE_FILE :: UBYTE where "POOL_TYPE_FILE = 1"

text \<open>Offsets in the struct \<open>DESCR\<close> of \<open>c_memory.h\<close>, the head of a pool that holds an
  array, and its size; \<open>sizeof\<close> of the other structs that live in bytes.\<close>

definition DESCR_Elements :: ULONG where "DESCR_Elements = 0"
definition DESCR_UsedElements :: ULONG where "DESCR_UsedElements = 4"
definition DESCR_ElementSize :: ULONG where "DESCR_ElementSize = 8"
definition DESCR_Type :: ULONG where "DESCR_Type = 9"
definition DESCR_pArray :: ULONG where "DESCR_pArray = 12"
definition sizeof_DESCR :: ULONG where "sizeof_DESCR = 12"
definition FDESCR_hFile :: ULONG where "FDESCR_hFile = 0"
definition FDESCR_Access :: ULONG where "FDESCR_Access = 4"
definition sizeof_IMGHEAD :: ULONG where "sizeof_IMGHEAD = 16"
definition sizeof_OBJHEAD :: ULONG where "sizeof_OBJHEAD = 12"
definition sizeof_OBJ :: ULONG where "sizeof_OBJ = 12"

lemmas layout_defs = DESCR_Elements_def DESCR_UsedElements_def DESCR_ElementSize_def
  DESCR_Type_def DESCR_pArray_def sizeof_DESCR_def FDESCR_hFile_def FDESCR_Access_def
  sizeof_IMGHEAD_def sizeof_OBJHEAD_def sizeof_OBJ_def

text \<open>\<open>struct timeval\<close>, as \<open>gettimeofday\<close> fills it.\<close>

record timeval =
  tv_sec :: ULONG
  tv_usec :: ULONG

text \<open>Calls into the modules that are not modelled, in the order in which they happen. The
  modules keep their own state; the calls return nothing or, the opening functions,
  always \<open>OK\<close>. What the updates do to the machine is the parameter \<open>devices\<close> of \<open>VM_Dispatch\<close>.\<close>

datatype event =
    CallUiOpen | CallOutputOpen | CallInputOpen | CallComOpen | CallSoundOpen
  | CallSoundClose | CallInputClose | CallOutputClose | CallUiClose | CallDynLoadVMClose
  | CallUiAlive | CallUiTestpin UBYTE
  | CallComUpdate | CallSoundUpdate | CallDynloadUpdateVM | CallInputUpdate UWORD
  | CallUiUpdate UWORD | SetWarningDspStat

text \<open>What the validator answers for an image: its result and the labels it found, given the
  image's bytes, its address and the previous labels.\<close>

type_synonym validator =
  "(ULONG \<rightharpoonup> UBYTE) \<Rightarrow> ULONG \<Rightarrow> (nat \<Rightarrow> ULONG) \<Rightarrow> (RESULT \<times> (nat \<Rightarrow> ULONG) \<times> (ULONG \<rightharpoonup> UBYTE)) option"

record vm =
  Consts :: bytecodes
  Libm :: libm
  mem :: "ULONG \<rightharpoonup> UBYTE"
  ObjHeap :: "ULONG \<rightharpoonup> OBJ"
  \<comment> \<open>\<open>GLOBALS\<close>\<close>
  VolumePercent :: DATA8
  SleepMinutes :: DATA8
  ProgramId :: PRGID
  Program :: "PRGID \<rightharpoonup> PRG"
  InstrCnt :: ULONG
  pImage :: ULONG
  pGlobal :: ULONG
  pObjHead :: ULONG
  pObjList :: ULONG
  ObjectIp :: ULONG
  ObjectLocal :: ULONG
  Objects :: OBJID
  ObjectId :: OBJID
  Debug :: UWORD
  RefCount :: UWORD
  TimeuS :: ULONG
  DispatchStatus :: DSPSTAT
  Priority :: ULONG
  Value :: ULONG
  Handle :: HANDLER
  Errors :: "nat \<Rightarrow> ULONG"
  ErrorIn :: UBYTE
  ErrorOut :: UBYTE
  NewTime :: ULONG
  OldTime1 :: ULONG
  OldTime2 :: ULONG
  Test :: UWORD
  SavedPriority :: ULONG  \<comment> \<open>the static variable of \<open>Monitor\<close>\<close>
  ObjIpSave :: ULONG
  ObjGlobalSave :: ULONG
  ObjLocalSave :: ULONG
  DispatchStatusSave :: DSPSTAT
  PrioritySave :: ULONG
  \<comment> \<open>\<open>MEMORY_GLOBALS\<close>\<close>
  pPoolList :: "PRGID \<Rightarrow> HANDLER \<Rightarrow> POOL"
  PathList :: "PRGID \<Rightarrow> UBYTE list"  \<comment> \<open>the characters of \<open>PathList[PrgId]\<close>\<close>
  \<comment> \<open>the C library\<close>
  Blocks :: "ULONG \<rightharpoonup> nat"  \<comment> \<open>blocks \<open>realloc\<close> has handed out and their sizes\<close>
  AllocAddr :: "nat \<Rightarrow> ULONG"  \<comment> \<open>the address the n-th allocation proposes, 0 for none\<close>
  AllocJunk :: "ULONG \<Rightarrow> UBYTE"  \<comment> \<open>the contents of fresh memory\<close>
  AllocNo :: nat
  Clock :: "nat \<Rightarrow> timeval"  \<comment> \<open>what the n-th \<open>gettimeofday\<close> reads\<close>
  ClockNo :: nat
  Rand :: "nat \<Rightarrow> ULONG"  \<comment> \<open>what the n-th \<open>rand\<close> returns\<close>
  RandNo :: nat
  Keys :: "nat \<Rightarrow> UBYTE"  \<comment> \<open>what the n-th \<open>cUiEscape\<close> returns\<close>
  KeyNo :: nat
  LongPress :: "nat \<Rightarrow> bool"  \<comment> \<open>whether the back button is found pressed long at the n-th look\<close>
  PressNo :: nat
  TestDevices :: bool  \<comment> \<open>whether the device files of the test mode can be opened\<close>
  ClosedFiles :: "ULONG list"  \<comment> \<open>the file descriptors given to \<open>close\<close>, last first\<close>
  \<comment> \<open>other modules\<close>
  Validate :: validator
  Trace :: "event list"  \<comment> \<open>last call first\<close>

subsection \<open>Pointers, loads and stores\<close>

text \<open>A pointer is an address of memory, or points into \<open>VMInstance.Value\<close>.\<close>

datatype ptr = PtrMem ULONG | PtrValue ULONG

definition NULL :: ptr where "NULL = PtrMem 0"

fun ptr_add :: "ptr \<Rightarrow> ULONG \<Rightarrow> ptr" where
  "ptr_add (PtrMem a) d = PtrMem (a + d)"
| "ptr_add (PtrValue k) d = PtrValue (k + d)"

fun load8 :: "vm \<Rightarrow> ptr \<Rightarrow> UBYTE option" where
  "load8 s (PtrMem a) = mem s a"
| "load8 s (PtrValue k) = (if k < 4 then Some (byte_of (Value s) (unat k)) else None)"

definition set_byte :: "ULONG \<Rightarrow> nat \<Rightarrow> UBYTE \<Rightarrow> ULONG" where
  "set_byte v k b = (v AND NOT (push_bit (8 * k) 0xFF)) OR push_bit (8 * k) (ucast b)"

fun store8 :: "vm \<Rightarrow> ptr \<Rightarrow> UBYTE \<Rightarrow> vm option" where
  "store8 s (PtrMem a) b = (if mem s a = None then None else Some (s\<lparr>mem := (mem s)(a \<mapsto> b)\<rparr>))"
| "store8 s (PtrValue k) b =
     (if k < 4 then Some (s\<lparr>Value := set_byte (Value s) (unat k) b\<rparr>) else None)"

text \<open>Values of more than one byte are little endian.\<close>

definition load16 :: "vm \<Rightarrow> ptr \<Rightarrow> UWORD option" where
  "load16 s p = do {
     b0 \<leftarrow> load8 s p;
     b1 \<leftarrow> load8 s (ptr_add p 1);
     Some (ucast b0 OR push_bit 8 (ucast b1))
   }"

definition load32 :: "vm \<Rightarrow> ptr \<Rightarrow> ULONG option" where
  "load32 s p = do {
     b0 \<leftarrow> load8 s p;
     b1 \<leftarrow> load8 s (ptr_add p 1);
     b2 \<leftarrow> load8 s (ptr_add p 2);
     b3 \<leftarrow> load8 s (ptr_add p 3);
     Some (ucast b0 OR push_bit 8 (ucast b1) OR push_bit 16 (ucast b2) OR push_bit 24 (ucast b3))
   }"

definition store16 :: "vm \<Rightarrow> ptr \<Rightarrow> UWORD \<Rightarrow> vm option" where
  "store16 s p v = do {
     s \<leftarrow> store8 s p (ucast v);
     store8 s (ptr_add p 1) (ucast (drop_bit 8 v))
   }"

definition store32 :: "vm \<Rightarrow> ptr \<Rightarrow> ULONG \<Rightarrow> vm option" where
  "store32 s p v = do {
     s \<leftarrow> store8 s p (byte_of v 0);
     s \<leftarrow> store8 s (ptr_add p 1) (byte_of v 1);
     s \<leftarrow> store8 s (ptr_add p 2) (byte_of v 2);
     store8 s (ptr_add p 3) (byte_of v 3)
   }"

subsection \<open>Bytes and words\<close>

lemma byte_of_nth: "bit (byte_of v k) i \<longleftrightarrow> i < 8 \<and> bit v (8 * k + i)"
  by (auto simp: byte_of_def bit_ucast_iff bit_drop_bit_eq)

lemma word16_bytes: "ucast (ucast v :: UBYTE) OR push_bit 8 (ucast (ucast (drop_bit 8 v) :: UBYTE)) = (v :: UWORD)"
  by (rule bit_word_eqI)
    (auto simp: bit_or_iff bit_ucast_iff bit_push_bit_iff bit_drop_bit_eq)

lemma word32_bytes:
  "ucast (byte_of v 0) OR push_bit 8 (ucast (byte_of v (Suc 0))) OR push_bit 16 (ucast (byte_of v 2))
     OR push_bit 24 (ucast (byte_of v 3)) = v"
proof (rule bit_word_eqI)
  fix n assume n: "n < LENGTH(32)"
  then consider "n < 8" | "8 \<le> n" "n < 16" | "16 \<le> n" "n < 24" | "24 \<le> n" "n < 32"
    by fastforce
  then show "bit (ucast (byte_of v 0) OR push_bit 8 (ucast (byte_of v (Suc 0)))
     OR push_bit 16 (ucast (byte_of v 2)) OR push_bit 24 (ucast (byte_of v 3)) :: ULONG) n = bit v n"
    by cases (auto simp: bit_or_iff bit_ucast_iff bit_push_bit_iff byte_of_nth)
qed

lemma value_low16:
  "ucast (byte_of v 0) OR push_bit 8 (ucast (byte_of v (Suc 0))) = (ucast v :: UWORD)"
proof (rule bit_word_eqI)
  fix n assume n: "n < LENGTH(16)"
  then consider "n < 8" | "8 \<le> n" "n < 16"
    by fastforce
  then show "bit (ucast (byte_of v 0) OR push_bit 8 (ucast (byte_of v (Suc 0))) :: UWORD) n
     = bit (ucast v :: UWORD) n"
    by cases (auto simp: bit_or_iff bit_ucast_iff bit_push_bit_iff byte_of_nth)
qed

lemma byte_of_0: "byte_of v 0 = ucast v"
  by (simp add: byte_of_def)

lemma byte_of_set_byte:
  assumes "k < 4" and "j < 4"
  shows "byte_of (set_byte v k b) j = (if j = k then b else byte_of v j)"
proof (rule bit_word_eqI)
  fix i assume i: "i < LENGTH(8)"
  have range: "8 * j + i < 32" using assms(2) i by simp
  have ff: "bit (0xFF :: int) m \<longleftrightarrow> m < 8" for m
  proof -
    have "(0xFF :: int) = mask 8" by (simp add: mask_eq_exp_minus_1)
    then have "bit (0xFF :: int) m \<longleftrightarrow> bit (mask 8 :: int) m" by (simp only:)
    also have "\<dots> \<longleftrightarrow> m < 8" by (simp only: bit_mask_iff) simp
    finally show ?thesis .
  qed
  have hit: "8 * k \<le> 8 * j + i \<and> 8 * j + i - 8 * k < 8 \<longleftrightarrow> j = k"
    using i by auto
  show "bit (byte_of (set_byte v k b) j) i = bit (if j = k then b else byte_of v j) i"
    using i range hit assms
    by (auto simp: byte_of_nth set_byte_def bit_or_iff bit_and_iff bit_not_iff bit_push_bit_iff
        ff bit_ucast_iff dest: bit_imp_le_length)
qed

subsection \<open>Memory spans\<close>

definition span :: "ULONG \<Rightarrow> nat \<Rightarrow> ULONG set" where
  "span a n = (\<lambda>i. a + of_nat i) ` {..<n}"

lemma span_0 [simp]: "span a 0 = {}"
  by (simp add: span_def)

lemma span_Suc: "span a (Suc n) = insert (a + of_nat n) (span a n)"
  by (auto simp: span_def less_Suc_eq)

lemma span_1: "span a (Suc 0) = {a}"
  by (simp add: span_Suc)

lemma span_2: "span a 2 = {a, a + 1}"
  by (auto simp: numeral_2_eq_2 span_Suc)

lemma span_4: "span a 4 = {a, a + 1, a + 2, a + 3}"
proof -
  have "span a 4 = span a (Suc (Suc (Suc (Suc 0))))" by (simp add: eval_nat_numeral)
  then show ?thesis by (auto simp: span_Suc)
qed

text \<open>Loads see only memory and the register \<open>Value\<close>.\<close>

lemma load8_cong: "mem s = mem t \<Longrightarrow> Value s = Value t \<Longrightarrow> load8 s p = load8 t p"
  by (cases p) auto

lemma load16_cong: "mem s = mem t \<Longrightarrow> Value s = Value t \<Longrightarrow> load16 s p = load16 t p"
  by (simp add: load16_def load8_cong [of s t])

lemma load32_cong: "mem s = mem t \<Longrightarrow> Value s = Value t \<Longrightarrow> load32 s p = load32 t p"
  by (simp add: load32_def load8_cong [of s t])

lemma load8_mem_cong: "mem s = mem t \<Longrightarrow> load8 s (PtrMem a) = load8 t (PtrMem a)"
  by simp

lemma load16_mem_cong: "mem s = mem t \<Longrightarrow> load16 s (PtrMem a) = load16 t (PtrMem a)"
  by (simp add: load16_def)

lemma load32_mem_cong: "mem s = mem t \<Longrightarrow> load32 s (PtrMem a) = load32 t (PtrMem a)"
  by (simp add: load32_def)

subsection \<open>Cells: what every width of access promises\<close>

text \<open>The contract of a load and a store of one width, which the byte codes of the three
  widths rely on: a store succeeds exactly where a load does, is read back, and changes
  only the bytes it covers.\<close>

locale cell =
  fixes ld :: "vm \<Rightarrow> ptr \<Rightarrow> 'a::len word option"
    and st :: "vm \<Rightarrow> ptr \<Rightarrow> 'a word \<Rightarrow> vm option"
    and size :: nat
  assumes ld_cong: "mem s = mem t \<Longrightarrow> Value s = Value t \<Longrightarrow> ld s p = ld t p"
    and ld_mem_cong: "mem s = mem t \<Longrightarrow> ld s (PtrMem a) = ld t (PtrMem a)"
    and ld_value: "ld s (PtrValue 0) = Some (ucast (Value s))"
    and ld_dom: "ld s (PtrMem a) = Some x \<Longrightarrow> span a size \<subseteq> dom (mem s)"
    and st_ok: "ld s p = Some x \<Longrightarrow> \<exists>t. st s p v = Some t"
    and st_ld: "st s p v = Some t \<Longrightarrow> ld t p = Some v"
    and st_mem: "st s (PtrMem a) v = Some t \<Longrightarrow>
      \<exists>m. t = s\<lparr>mem := m\<rparr> \<and> (\<forall>b. b \<notin> span a size \<longrightarrow> m b = mem s b) \<and> dom m = dom (mem s)"
    and st_value: "st s (PtrValue k) v = Some t \<Longrightarrow> \<exists>w. t = s\<lparr>Value := w\<rparr>"

lemma store16_ok: "load16 s p = Some x \<Longrightarrow> \<exists>t. store16 s p v = Some t"
  by (cases p) (auto simp: load16_def store16_def bind_conv split: if_splits)

lemma store32_ok: "load32 s p = Some x \<Longrightarrow> \<exists>t. store32 s p v = Some t"
  by (cases p) (auto simp: load32_def store32_def bind_conv split: if_splits)

lemma store16_value: "store16 s (PtrValue k) v = Some t \<Longrightarrow> \<exists>w. t = s\<lparr>Value := w\<rparr>"
  by (auto simp: store16_def bind_conv split: if_splits)

lemma store32_value: "store32 s (PtrValue k) v = Some t \<Longrightarrow> \<exists>w. t = s\<lparr>Value := w\<rparr>"
  by (auto simp: store32_def bind_conv split: if_splits)

lemma store16_mem:
  "store16 s (PtrMem a) v = Some t \<longleftrightarrow> mem s a \<noteq> None \<and> mem s (a + 1) \<noteq> None \<and>
     t = s\<lparr>mem := (mem s)(a \<mapsto> ucast v, a + 1 \<mapsto> ucast (drop_bit 8 v))\<rparr>"
  by (auto simp: store16_def bind_conv)

lemma store32_mem:
  "store32 s (PtrMem a) v = Some t \<longleftrightarrow>
     mem s a \<noteq> None \<and> mem s (a + 1) \<noteq> None \<and> mem s (a + 2) \<noteq> None \<and> mem s (a + 3) \<noteq> None \<and>
     t = s\<lparr>mem := (mem s)(a \<mapsto> byte_of v 0, a + 1 \<mapsto> byte_of v 1,
                           a + 2 \<mapsto> byte_of v 2, a + 3 \<mapsto> byte_of v 3)\<rparr>"
  by (auto simp: store32_def bind_conv)

lemma store16_load: "store16 s p v = Some t \<Longrightarrow> load16 t p = Some v"
proof (cases p)
  case (PtrMem a)
  assume "store16 s p v = Some t"
  then show ?thesis
    by (auto simp: PtrMem store16_mem load16_def word16_bytes)
next
  case (PtrValue k)
  assume a: "store16 s p v = Some t"
  then have k: "k < 4" "k + 1 < 4"
    by (auto simp: PtrValue store16_def bind_conv split: if_splits)
  then have u: "unat k < 4" "unat (k + 1) < 4" by (auto simp: word_less_nat_alt)
  have ne: "unat k \<noteq> unat (k + 1)" using k by (auto simp: unat_word_ariths word_less_nat_alt)
  from a k u ne show ?thesis
    by (auto simp: PtrValue store16_def load16_def bind_conv byte_of_set_byte word16_bytes)
qed

lemma word32_eqI:
  assumes "byte_of v 0 = byte_of w 0" and "byte_of v 1 = byte_of w 1"
    and "byte_of v 2 = byte_of w 2" and "byte_of v 3 = byte_of w 3"
  shows "v = w"
  by (subst word32_bytes [symmetric], subst (2) word32_bytes [symmetric])
    (simp only: assms One_nat_def [symmetric])

lemma set_bytes_all: "set_byte (set_byte (set_byte (set_byte w 0 (byte_of v 0)) 1 (byte_of v 1))
    2 (byte_of v 2)) 3 (byte_of v 3) = v"
  by (rule word32_eqI) (simp_all add: byte_of_set_byte)

lemma store32_value0: "store32 s (PtrValue 0) v = Some (s\<lparr>Value := v\<rparr>)"
  using set_bytes_all [of "Value s" v] by (simp add: store32_def)

lemma store32_value_zero:
  assumes "store32 s (PtrValue k) v = Some t"
  shows "k = 0"
proof -
  from assms have "k < 4" "k + 3 < 4"
    by (auto simp: store32_def bind_conv split: if_splits)
  then have "unat k = 0"
    by (simp add: word_less_nat_alt unat_word_ariths)
  then show ?thesis by (simp add: unat_eq_0)
qed

lemma store32_load: "store32 s p v = Some t \<Longrightarrow> load32 t p = Some v"
proof (cases p)
  case (PtrMem a)
  assume "store32 s p v = Some t"
  then show ?thesis
    by (auto simp: PtrMem store32_mem load32_def word32_bytes)
next
  case (PtrValue k)
  assume a: "store32 s p v = Some t"
  then have "k = 0" using store32_value_zero PtrValue by blast
  with a PtrValue show ?thesis
    by (auto simp: store32_value0 load32_def word32_bytes)
qed

lemma load16_dom: "load16 s (PtrMem a) = Some x \<Longrightarrow> span a 2 \<subseteq> dom (mem s)"
  by (auto simp: load16_def bind_conv span_2)

lemma load32_dom: "load32 s (PtrMem a) = Some x \<Longrightarrow> span a 4 \<subseteq> dom (mem s)"
  by (auto simp: load32_def bind_conv span_4)

interpretation c8: cell load8 store8 1
proof unfold_locales
  fix s t p a x v k
  show "mem s = mem t \<Longrightarrow> Value s = Value t \<Longrightarrow> load8 s p = load8 t p" by (rule load8_cong)
  show "mem s = mem t \<Longrightarrow> load8 s (PtrMem a) = load8 t (PtrMem a)" by simp
  show "load8 s (PtrValue 0) = Some (ucast (Value s))" by (simp add: byte_of_0)
  show "load8 s (PtrMem a) = Some x \<Longrightarrow> span a 1 \<subseteq> dom (mem s)" by (auto simp: span_1)
  show "load8 s p = Some x \<Longrightarrow> \<exists>t. store8 s p v = Some t"
    by (cases p) (auto split: if_splits)
  show "store8 s p v = Some t \<Longrightarrow> load8 t p = Some v"
    by (cases p) (auto split: if_splits simp: byte_of_set_byte word_less_nat_alt)
  show "store8 s (PtrMem a) v = Some t \<Longrightarrow>
      \<exists>m. t = s\<lparr>mem := m\<rparr> \<and> (\<forall>b. b \<notin> span a 1 \<longrightarrow> m b = mem s b) \<and> dom m = dom (mem s)"
    by (auto simp: span_1 split: if_splits)
  show "store8 s (PtrValue k) v = Some t \<Longrightarrow> \<exists>w. t = s\<lparr>Value := w\<rparr>"
    by (auto split: if_splits)
qed

interpretation c16: cell load16 store16 2
proof unfold_locales
  fix s t p a x v k
  show "mem s = mem t \<Longrightarrow> Value s = Value t \<Longrightarrow> load16 s p = load16 t p" by (rule load16_cong)
  show "mem s = mem t \<Longrightarrow> load16 s (PtrMem a) = load16 t (PtrMem a)" by (rule load16_mem_cong)
  show "load16 s (PtrValue 0) = Some (ucast (Value s))" by (simp add: load16_def value_low16)
  show "load16 s (PtrMem a) = Some x \<Longrightarrow> span a 2 \<subseteq> dom (mem s)" by (rule load16_dom)
  show "load16 s p = Some x \<Longrightarrow> \<exists>t. store16 s p v = Some t" by (rule store16_ok)
  show "store16 s p v = Some t \<Longrightarrow> load16 t p = Some v" by (rule store16_load)
  show "store16 s (PtrMem a) v = Some t \<Longrightarrow>
      \<exists>m. t = s\<lparr>mem := m\<rparr> \<and> (\<forall>b. b \<notin> span a 2 \<longrightarrow> m b = mem s b) \<and> dom m = dom (mem s)"
    unfolding store16_mem span_2
    by (intro exI [of _ "(mem s)(a \<mapsto> ucast v, a + 1 \<mapsto> ucast (drop_bit 8 v))"]) auto
  show "store16 s (PtrValue k) v = Some t \<Longrightarrow> \<exists>w. t = s\<lparr>Value := w\<rparr>" by (rule store16_value)
qed

interpretation c32: cell load32 store32 4
proof unfold_locales
  fix s t p a x v k
  show "mem s = mem t \<Longrightarrow> Value s = Value t \<Longrightarrow> load32 s p = load32 t p" by (rule load32_cong)
  show "mem s = mem t \<Longrightarrow> load32 s (PtrMem a) = load32 t (PtrMem a)" by (rule load32_mem_cong)
  show "load32 s (PtrValue 0) = Some (ucast (Value s))" by (simp add: load32_def word32_bytes)
  show "load32 s (PtrMem a) = Some x \<Longrightarrow> span a 4 \<subseteq> dom (mem s)" by (rule load32_dom)
  show "load32 s p = Some x \<Longrightarrow> \<exists>t. store32 s p v = Some t" by (rule store32_ok)
  show "store32 s p v = Some t \<Longrightarrow> load32 t p = Some v" by (rule store32_load)
  show "store32 s (PtrMem a) v = Some t \<Longrightarrow>
      \<exists>m. t = s\<lparr>mem := m\<rparr> \<and> (\<forall>b. b \<notin> span a 4 \<longrightarrow> m b = mem s b) \<and> dom m = dom (mem s)"
    unfolding store32_mem span_4
    by (intro exI [of _ "(mem s)(a \<mapsto> byte_of v 0, a + 1 \<mapsto> byte_of v 1,
        a + 2 \<mapsto> byte_of v 2, a + 3 \<mapsto> byte_of v 3)"]) auto
  show "store32 s (PtrValue k) v = Some t \<Longrightarrow> \<exists>w. t = s\<lparr>Value := w\<rparr>" by (rule store32_value)
qed

end
