(* ===== verification/VM_ErrorLog.thy ===== *)
theory VM_ErrorLog
  imports VM_State
begin

text \<open>
  The error log of \<open>lms2012.c\<close> (\<open>LogErrorNumber\<close>, \<open>LogErrorNumberExists\<close>,
  \<open>LogErrorGet\<close>, \<open>CleanLogErrors\<close>): a ring buffer in \<open>VMInstance.Errors\<close> with the
  indices \<open>ErrorIn\<close> and \<open>ErrorOut\<close>. Its abstract specification is a first-in first-out
  queue that holds at most seven numbers and silently drops what does not fit.
\<close>

subsection \<open>The code\<close>

text \<open>The message that a full buffer prints on the debug terminal is not modelled.\<close>

definition next_index :: "UBYTE \<Rightarrow> UBYTE" where
  "next_index t = (if unat (t + 1) \<ge> ERROR_BUFFER_SIZE then 0 else t + 1)"

definition LogErrorNumber :: "ULONG \<Rightarrow> vm \<Rightarrow> vm" where
  "LogErrorNumber err s =
     (if err > 0 then
        (let Tmp = next_index (ErrorIn s) in
         if Tmp \<noteq> ErrorOut s
         then s\<lparr>Errors := (Errors s)(unat (ErrorIn s) := err), ErrorIn := Tmp\<rparr>
         else s)
      else s)"

partial_function (option) find_error :: "ULONG \<Rightarrow> UBYTE \<Rightarrow> vm \<Rightarrow> DATA8 option" where
  "find_error err Tmp s =
     (if Tmp \<noteq> ErrorIn s then
        (if Errors s (unat Tmp) = err then Some 1 else find_error err (next_index Tmp) s)
      else Some 0)"

definition LogErrorNumberExists :: "ULONG \<Rightarrow> vm \<Rightarrow> DATA8 option" where
  "LogErrorNumberExists err s = find_error err (ErrorOut s) s"

definition LogErrorGet :: "vm \<Rightarrow> ULONG \<times> vm" where
  "LogErrorGet s =
     (if ErrorIn s \<noteq> ErrorOut s
      then (Errors s (unat (ErrorOut s)), s\<lparr>ErrorOut := next_index (ErrorOut s)\<rparr>)
      else (0, s))"

definition CleanLogErrors :: "vm \<Rightarrow> vm" where
  "CleanLogErrors s = s\<lparr>ErrorIn := 0, ErrorOut := 0\<rparr>"

subsection \<open>The contract of a bounded log\<close>

locale bounded_log =
  fixes put :: "ULONG \<Rightarrow> 'q \<Rightarrow> 'q"
    and get :: "'q \<Rightarrow> ULONG \<times> 'q"
    and clean :: "'q \<Rightarrow> 'q"
    and entries :: "'q \<Rightarrow> ULONG list"
    and invar :: "'q \<Rightarrow> bool"
    and capacity :: nat
  assumes entries_put: "invar q \<Longrightarrow> entries (put e q) =
      (if e = 0 \<or> length (entries q) \<ge> capacity then entries q else entries q @ [e])"
    and entries_get: "invar q \<Longrightarrow> entries (snd (get q)) = tl (entries q)"
    and get_hd: "invar q \<Longrightarrow> fst (get q) = (case entries q of [] \<Rightarrow> 0 | e # _ \<Rightarrow> e)"
    and entries_clean: "invar q \<Longrightarrow> entries (clean q) = []"
    and invar_put: "invar q \<Longrightarrow> invar (put e q)"
    and invar_get: "invar q \<Longrightarrow> invar (snd (get q))"
    and invar_clean: "invar q \<Longrightarrow> invar (clean q)"
    and entries_bound: "invar q \<Longrightarrow> length (entries q) \<le> capacity"
begin

lemma invar_puts: "invar q \<Longrightarrow> invar (fold put es q)"
  by (induction es arbitrary: q) (auto intro: invar_put)

lemma entries_puts:
  "invar q \<Longrightarrow> entries (fold put es q) =
     take capacity (entries q @ filter (\<lambda>e. e \<noteq> 0) es)"
proof (induction es arbitrary: q)
  case Nil
  then show ?case using entries_bound by simp
next
  case (Cons e es)
  have "entries (fold put (e # es) q) =
      take capacity (entries (put e q) @ filter (\<lambda>e. e \<noteq> 0) es)"
    using Cons.IH [OF invar_put [OF Cons.prems]] by simp
  then show ?case
    using entries_put [OF Cons.prems, of e] entries_bound [OF Cons.prems]
    by (auto simp: not_le take_Cons' Suc_diff_Suc le_less)
qed

lemma get_entries:
  assumes "invar q" and "entries q = e # es"
  shows "fst (get q) = e" and "entries (snd (get q)) = es"
  using assms get_hd entries_get by simp_all

end

text \<open>Reading the log \<open>n\<close> times.\<close>

fun drain :: "nat \<Rightarrow> vm \<Rightarrow> ULONG list \<times> vm" where
  "drain 0 s = ([], s)"
| "drain (Suc n) s =
     (let (e, s1) = LogErrorGet s; (es, s2) = drain n s1 in (e # es, s2))"

subsection \<open>The ring buffer implements it\<close>

definition log_ok :: "vm \<Rightarrow> bool" where
  "log_ok s \<longleftrightarrow> ErrorIn s < 8 \<and> ErrorOut s < 8"

definition log_entries :: "vm \<Rightarrow> ULONG list" where
  "log_entries s = map (\<lambda>i. Errors s ((unat (ErrorOut s) + i) mod 8))
     [0..<(unat (ErrorIn s) + 8 - unat (ErrorOut s)) mod 8]"

lemma unat_next_index: "t < 8 \<Longrightarrow> unat (next_index t) = Suc (unat t) mod 8"
proof -
  assume "t < 8"
  then have t: "unat t < 8" by (simp add: word_less_nat_alt)
  then have "unat (t + 1) = Suc (unat t)" by (simp add: unat_word_ariths)
  with t show ?thesis
    by (cases "unat t = 7") (auto simp: next_index_def ERROR_BUFFER_SIZE_def)
qed

lemma next_index_less: "t < 8 \<Longrightarrow> next_index t < 8"
  using unat_next_index [of t] by (simp add: word_less_nat_alt)

lemma ring_dist_next:
  assumes "i < (8::nat)" "j < 8" "Suc i mod 8 \<noteq> j"
  shows "(Suc i mod 8 + 8 - j) mod 8 = Suc ((i + 8 - j) mod 8)"
  using assms by (cases "i = 7"; cases "j \<le> i") (auto simp: mod_if)

lemma ring_dist_full:
  assumes "i < (8::nat)" "j < 8" "Suc i mod 8 = j"
  shows "(i + 8 - j) mod 8 = 7"
  using assms by (cases "i = 7") (auto simp: mod_if)

lemma mod8_Suc: "(x::nat) mod 8 = Suc n \<Longrightarrow> n < 7"
  using mod_less_divisor [of 8 x] by simp

lemma ring_pos_inj:
  assumes "k < n" and "n < (8::nat)"
  shows "(j + k) mod 8 \<noteq> (j + n) mod 8"
proof
  assume "(j + k) mod 8 = (j + n) mod 8"
  then have "8 dvd (j + n) - (j + k)"
    using mod_eq_dvd_iff_nat [of "j + k" "j + n" 8] assms(1) by simp
  then show False
    using assms by (simp add: nat_dvd_not_less)
qed

lemma ring_pos: "i < (8::nat) \<Longrightarrow> j < 8 \<Longrightarrow> (j + (i + 8 - j) mod 8) mod 8 = i"
  by (cases "j \<le> i") (auto simp: mod_if)

lemma log_unat: "log_ok s \<Longrightarrow> unat (ErrorIn s) < 8 \<and> unat (ErrorOut s) < 8"
  by (simp add: log_ok_def word_less_nat_alt)

lemma log_empty_iff: "log_ok s \<Longrightarrow> log_entries s = [] \<longleftrightarrow> ErrorIn s = ErrorOut s"
proof -
  assume "log_ok s"
  then have b: "unat (ErrorIn s) < 8" "unat (ErrorOut s) < 8" by (simp_all add: log_unat)
  have "log_entries s = [] \<longleftrightarrow> (unat (ErrorIn s) + 8 - unat (ErrorOut s)) mod 8 = 0"
    by (auto simp: log_entries_def)
  also have "\<dots> \<longleftrightarrow> unat (ErrorIn s) = unat (ErrorOut s)"
    using b by (cases "unat (ErrorOut s) \<le> unat (ErrorIn s)") (auto simp: mod_if)
  finally show ?thesis by (simp add: word_unat_eq_iff)
qed

lemma log_entries_put:
  assumes ok: "log_ok s"
  shows "log_entries (LogErrorNumber e s) =
    (if e = 0 \<or> length (log_entries s) \<ge> 7 then log_entries s else log_entries s @ [e])"
proof -
  let ?i = "unat (ErrorIn s)" and ?j = "unat (ErrorOut s)"
  let ?n = "(?i + 8 - ?j) mod 8"
  have b: "?i < 8" "?j < 8" using log_unat [OF ok] by simp_all
  have nx: "unat (next_index (ErrorIn s)) = Suc ?i mod 8"
    using ok by (simp add: log_ok_def unat_next_index)
  have eq: "next_index (ErrorIn s) = ErrorOut s \<longleftrightarrow> Suc ?i mod 8 = ?j"
    by (simp add: word_unat_eq_iff nx)
  have len: "length (log_entries s) = ?n" by (simp add: log_entries_def)
  show ?thesis
  proof (cases "e = 0 \<or> Suc ?i mod 8 = ?j")
    case True
    have "length (log_entries s) = 7" if "Suc ?i mod 8 = ?j"
      using ring_dist_full [OF b that] len by simp
    with True show ?thesis
      by (auto simp: LogErrorNumber_def eq Let_def word_gt_0)
  next
    case False
    then have ne: "Suc ?i mod 8 \<noteq> ?j" and e: "e \<noteq> 0" by simp_all
    have dist: "(Suc ?i mod 8 + 8 - ?j) mod 8 = Suc ?n" by (rule ring_dist_next [OF b ne])
    then have small: "?n < 7" by (rule mod8_Suc)
    have get: "LogErrorNumber e s =
        s\<lparr>Errors := (Errors s)(?i := e), ErrorIn := next_index (ErrorIn s)\<rparr>"
      using e ne by (simp add: LogErrorNumber_def eq Let_def word_gt_0)
    have others: "(?j + k) mod 8 \<noteq> ?i" if "k < ?n" for k
    proof
      assume "(?j + k) mod 8 = ?i"
      then have "(?j + k) mod 8 = (?j + ?n) mod 8" using ring_pos [OF b] by simp
      with ring_pos_inj [OF that] small show False by simp
    qed
    have "log_entries (LogErrorNumber e s) =
        map (\<lambda>k. ((Errors s)(?i := e)) ((?j + k) mod 8)) [0..<Suc ?n]"
      by (simp add: get log_entries_def nx dist del: upt_Suc)
    also have "\<dots> = map (\<lambda>k. Errors s ((?j + k) mod 8)) [0..<?n] @ [e]"
      using others ring_pos [OF b] by simp
    finally show ?thesis using e small len by (simp add: log_entries_def)
  qed
qed

lemma log_entries_get:
  assumes ok: "log_ok s" and ne: "ErrorIn s \<noteq> ErrorOut s"
  shows "log_entries s = Errors s (unat (ErrorOut s)) #
    log_entries (s\<lparr>ErrorOut := next_index (ErrorOut s)\<rparr>)"
proof -
  let ?i = "unat (ErrorIn s)" and ?j = "unat (ErrorOut s)"
  let ?n = "(?i + 8 - ?j) mod 8"
  have b: "?i < 8" "?j < 8" using log_unat [OF ok] by simp_all
  have nx: "unat (next_index (ErrorOut s)) = Suc ?j mod 8"
    using ok by (simp add: log_ok_def unat_next_index)
  have "?i \<noteq> ?j" using ne by (simp add: word_unat_eq_iff)
  then obtain m where m: "?n = Suc m"
    using log_empty_iff [OF ok] ne by (cases ?n) (auto simp: log_entries_def)
  have m2: "(?i + 8 - Suc ?j mod 8) mod 8 = m"
    using m b by (cases "?j = 7"; cases "?j \<le> ?i") (auto simp: mod_if split: if_splits)
  have "log_entries s = map (\<lambda>k. Errors s ((?j + k) mod 8)) (0 # map Suc [0..<m])"
    by (simp add: log_entries_def m upt_conv_Cons map_Suc_upt del: upt_Suc)
  also have "\<dots> = Errors s ?j # map (\<lambda>k. Errors s ((Suc ?j mod 8 + k) mod 8)) [0..<m]"
    using b by (simp add: mod_add_left_eq)
  finally show ?thesis by (simp add: log_entries_def nx m2)
qed

interpretation elog: bounded_log LogErrorNumber LogErrorGet CleanLogErrors log_entries log_ok 7
proof unfold_locales
  fix s e
  assume ok: "log_ok s"
  show "log_entries (LogErrorNumber e s) =
      (if e = 0 \<or> 7 \<le> length (log_entries s) then log_entries s else log_entries s @ [e])"
    by (rule log_entries_put [OF ok])
  show "log_entries (snd (LogErrorGet s)) = tl (log_entries s)"
    using log_entries_get [OF ok] log_empty_iff [OF ok]
    by (cases "ErrorIn s = ErrorOut s") (simp_all add: LogErrorGet_def)
  show "fst (LogErrorGet s) = (case log_entries s of [] \<Rightarrow> 0 | e # _ \<Rightarrow> e)"
    using log_entries_get [OF ok] log_empty_iff [OF ok]
    by (cases "ErrorIn s = ErrorOut s") (simp_all add: LogErrorGet_def)
  show "log_entries (CleanLogErrors s) = []"
    by (simp add: CleanLogErrors_def log_entries_def)
  show "log_ok (LogErrorNumber e s)"
    using ok by (auto simp: log_ok_def LogErrorNumber_def Let_def next_index_less)
  show "log_ok (snd (LogErrorGet s))"
    using ok by (auto simp: log_ok_def LogErrorGet_def next_index_less)
  show "log_ok (CleanLogErrors s)" by (simp add: log_ok_def CleanLogErrors_def)
  show "length (log_entries s) \<le> 7"
    by (simp add: log_entries_def)
qed

subsection \<open>Properties\<close>

lemma drain_entries:
  "log_ok s \<Longrightarrow> fst (drain n s) = take n (log_entries s @ replicate n 0)"
proof (induction n arbitrary: s)
  case (Suc n)
  obtain e t where g: "LogErrorGet s = (e, t)" by fastforce
  have t: "log_ok t" "log_entries t = tl (log_entries s)" "e = (case log_entries s of [] \<Rightarrow> 0 | e # _ \<Rightarrow> e)"
    using elog.invar_get [OF Suc.prems] elog.entries_get [OF Suc.prems] elog.get_hd [OF Suc.prems]
    by (simp_all add: g)
  have "fst (drain (Suc n) s) = e # take n (log_entries t @ replicate n 0)"
    using Suc.IH [OF t(1)] by (simp add: g split_def)
  then show ?case
    using t(2,3) by (cases "log_entries s") (simp_all add: replicate_append_same [symmetric] min_def)
qed simp

text \<open>C23: the error log is first-in first-out: after the numbers \<open>es\<close> have been logged,
  \<open>n\<close> reads give what was in the log, then the new numbers other than 0, seven in all, the
  rest having been dropped, and then zeros.\<close>

theorem error_log_fifo:
  assumes "log_ok s"
  shows "fst (drain n (fold LogErrorNumber es s)) =
    take n (take 7 (log_entries s @ filter (\<lambda>e. e \<noteq> 0) es) @ replicate n 0)"
  using drain_entries [OF elog.invar_puts [OF assms]] elog.entries_puts [OF assms] by simp

theorem error_log_fifo_witness:
  "\<forall>s. fst (drain 3 (fold LogErrorNumber [5, 0, 9] (CleanLogErrors s))) = [5, 9, 0]"
proof
  fix s
  have ok: "log_ok (CleanLogErrors s)" by (simp add: CleanLogErrors_def log_ok_def)
  have three: "replicate 3 (0 :: ULONG) = [0, 0, 0]" by (simp add: numeral_3_eq_3)
  have "log_entries (CleanLogErrors s) = []" by (simp add: CleanLogErrors_def log_entries_def)
  then show "fst (drain 3 (fold LogErrorNumber [5, 0, 9] (CleanLogErrors s))) = [5, 9, 0]"
    using three by (simp only: error_log_fifo [OF ok, of 3 "[5, 0, 9]"]) simp
qed

lemma find_error_entries:
  "log_ok (s\<lparr>ErrorOut := t\<rparr>) \<Longrightarrow>
    find_error e t s = Some (if e \<in> set (log_entries (s\<lparr>ErrorOut := t\<rparr>)) then 1 else 0)"
proof (induction "length (log_entries (s\<lparr>ErrorOut := t\<rparr>))" arbitrary: t)
  case 0
  then have "log_entries (s\<lparr>ErrorOut := t\<rparr>) = []" by simp
  then show ?case
    using log_empty_iff [OF 0(2)] by (subst find_error.simps) simp
next
  case (Suc n)
  let ?s = "s\<lparr>ErrorOut := t\<rparr>"
  have ne: "ErrorIn ?s \<noteq> ErrorOut ?s" using log_empty_iff [OF Suc(3)] Suc(2) by auto
  have ents: "log_entries ?s = Errors s (unat t) # log_entries (s\<lparr>ErrorOut := next_index t\<rparr>)"
    using log_entries_get [OF Suc(3) ne] by simp
  have "log_ok (s\<lparr>ErrorOut := next_index t\<rparr>)"
    using Suc(3) next_index_less [of t] by (simp add: log_ok_def)
  then have "find_error e (next_index t) s =
      Some (if e \<in> set (log_entries (s\<lparr>ErrorOut := next_index t\<rparr>)) then 1 else 0)"
    using Suc(1) [of "next_index t"] Suc(2) ents by simp
  then show ?case using ne ents by (subst find_error.simps) auto
qed

text \<open>\<open>LogErrorNumberExists\<close> returns, and answers whether the number is in the log.\<close>

theorem error_log_exists:
  assumes "log_ok s"
  shows "LogErrorNumberExists e s = Some (if e \<in> set (log_entries s) then 1 else 0)"
  using find_error_entries [where s = s and t = "ErrorOut s" and e = e] assms by (simp add: LogErrorNumberExists_def)

theorem error_log_exists_witness:
  "\<forall>s. LogErrorNumberExists 5 (LogErrorNumber 5 (CleanLogErrors s)) = Some 1"
proof
  fix s
  have ok: "log_ok (CleanLogErrors s)" by (simp add: CleanLogErrors_def log_ok_def)
  have "log_entries (LogErrorNumber 5 (CleanLogErrors s)) = [5]"
    using elog.entries_put [OF ok, of 5] elog.entries_clean [of "CleanLogErrors s"] ok
    by (simp add: CleanLogErrors_def log_entries_def)
  then show "LogErrorNumberExists 5 (LogErrorNumber 5 (CleanLogErrors s)) = Some 1"
    using error_log_exists [OF elog.invar_put [OF ok], of 5 5] by simp
qed

end
