(* ===== verification/VM_Memory.thy ===== *)
theory VM_Memory
  imports VM_ErrorLog
begin

text \<open>
  The memory pools of \<open>c_memory/c_memory.c\<close>: every program slot has \<open>MAX_HANDLES\<close>
  handles, each of which may own one block of the C heap (\<open>cMemoryAlloc\<close> to
  \<open>cMemoryResize\<close>). The C heap itself (\<open>realloc\<close>, \<open>free\<close>) is modelled from its
  contract: the address of a new block is an oracle, a proposal that overlaps mapped
  memory, is misaligned or wraps counts as a failed allocation, fresh bytes are
  arbitrary, and giving \<open>realloc\<close> or \<open>free\<close> a pointer that is not a live block is
  undefined.
\<close>

subsection \<open>The C heap\<close>

definition fits :: "vm \<Rightarrow> ULONG \<Rightarrow> nat \<Rightarrow> bool" where
  "fits s a n \<longleftrightarrow> a \<noteq> 0 \<and> a AND 3 = 0 \<and> unat a + n \<le> 2 ^ 32 \<and>
     (\<forall>i<n. mem s (a + of_nat i) = None)"

definition unmap_block :: "ULONG \<Rightarrow> nat \<Rightarrow> vm \<Rightarrow> vm" where
  "unmap_block a n s = s\<lparr>mem := (\<lambda>x. if unat (x - a) < n then None else mem s x),
     Blocks := (Blocks s)(a := None)\<rparr>"

definition map_block :: "ULONG \<Rightarrow> nat \<Rightarrow> (ULONG \<Rightarrow> UBYTE) \<Rightarrow> vm \<Rightarrow> vm" where
  "map_block a n f s = s\<lparr>mem := (\<lambda>x. if unat (x - a) < n then Some (f (x - a)) else mem s x),
     Blocks := (Blocks s)(a \<mapsto> n)\<rparr>"

definition free :: "ULONG \<Rightarrow> vm \<Rightarrow> vm option" where
  "free a s = (if a = 0 then Some s else
     (case Blocks s a of None \<Rightarrow> None | Some n \<Rightarrow> Some (unmap_block a n s)))"

definition realloc :: "ULONG \<Rightarrow> nat \<Rightarrow> vm \<Rightarrow> (ULONG \<times> vm) option" where
  "realloc old n s = do {
     freed \<leftarrow> free old s;
     let a = AllocAddr s (AllocNo s);
     let k = (if old = 0 then 0 else the (Blocks s old));
     let contents = (\<lambda>i. if unat i < k then (case mem s (old + i) of Some b \<Rightarrow> b | None \<Rightarrow> AllocJunk s (a + i))
                        else AllocJunk s (a + i));
     if fits freed a n
     then Some (a, (map_block a n contents freed)\<lparr>AllocNo := Suc (AllocNo s)\<rparr>)
     else Some (0, s\<lparr>AllocNo := Suc (AllocNo s)\<rparr>)
   }"

subsection \<open>Blocks and handles\<close>

text \<open>\<open>cMemoryRealloc\<close> returns \<open>OK\<close> with the new pointer, or \<open>FAIL\<close> with \<open>NULL\<close>.\<close>

definition cMemoryRealloc :: "ULONG \<Rightarrow> DATA32 \<Rightarrow> vm \<Rightarrow> (RESULT \<times> ULONG \<times> vm) option" where
  "cMemoryRealloc pOldMemory n s = do {
     (p, s) \<leftarrow> realloc pOldMemory (unat n) s;
     Some (if p \<noteq> 0 then OK else FAIL, p, s)
   }"

definition cMemoryFree :: "ULONG \<Rightarrow> vm \<Rightarrow> vm option" where
  "cMemoryFree pMemory s = free pMemory s"

definition MAX_PROGRAMS :: "vm \<Rightarrow> PRGID" where
  "MAX_PROGRAMS s = SLOTS (Consts s)"

definition handle_ok :: "HANDLER \<Rightarrow> bool" where
  "handle_ok h \<longleftrightarrow> 0 \<le> sint h \<and> sint h < int MAX_HANDLES"

definition pool :: "vm \<Rightarrow> PRGID \<Rightarrow> HANDLER \<Rightarrow> ULONG" where
  "pool s p h = pPool (pPoolList s p h)"

definition set_pool :: "PRGID \<Rightarrow> HANDLER \<Rightarrow> (POOL \<Rightarrow> POOL) \<Rightarrow> vm \<Rightarrow> vm" where
  "set_pool p h f s = s\<lparr>pPoolList := (pPoolList s)(p := (pPoolList s p)(h := f (pPoolList s p h)))\<rparr>"

text \<open>The searches for a handle run from 0 up to \<open>MAX_HANDLES\<close>.\<close>

function find_handle :: "(HANDLER \<Rightarrow> bool) \<Rightarrow> nat \<Rightarrow> nat" where
  "find_handle P h = (if h < MAX_HANDLES \<and> \<not> P (of_nat h) then find_handle P (Suc h) else h)"
  by pat_completeness auto
termination by (relation "measure (\<lambda>(P, h). MAX_HANDLES - h)") auto

declare find_handle.simps [simp del]

text \<open>\<open>cMemoryAlloc\<close> stores \<open>*ppMemory\<close> only when it returns \<open>OK\<close>; the model returns
  \<open>Some p\<close> for \<open>OK\<close> with \<open>*ppMemory = p\<close> and \<open>None\<close> for \<open>FAIL\<close>, next to
  \<open>*pHandle\<close>.\<close>

definition cMemoryAlloc ::
    "PRGID \<Rightarrow> UBYTE \<Rightarrow> ULONG \<Rightarrow> vm \<Rightarrow> (ULONG option \<times> HANDLER \<times> vm) option" where
  "cMemoryAlloc PrgId ty n s =
     (if PrgId < MAX_PROGRAMS s \<and> n > 0 \<and> unat n \<le> MAX_ARRAY_SIZE then
        (let h = find_handle (\<lambda>h. pool s PrgId h = 0) 0 in
         if h < MAX_HANDLES then do {
           (r, p, s) \<leftarrow> cMemoryRealloc 0 n s;
           let s = set_pool PrgId (of_nat h) (\<lambda>e. e\<lparr>pPool := p\<rparr>) s;
           if r = OK
           then Some (Some p, of_nat h,
                  set_pool PrgId (of_nat h) (\<lambda>e. e\<lparr>PoolType := ty, Size := n\<rparr>) s)
           else Some (None, - 1, s)
         }
         else Some (None, - 1, s))
      else Some (None, - 1, s))"

definition cMemoryReallocate :: "PRGID \<Rightarrow> HANDLER \<Rightarrow> ULONG \<Rightarrow> vm \<Rightarrow> (ULONG \<times> vm) option" where
  "cMemoryReallocate PrgId h n s =
     (if PrgId < MAX_PROGRAMS s \<and> handle_ok h then do {
        (pTmp, s) \<leftarrow>
          (if n > 0 \<and> unat n \<le> MAX_ARRAY_SIZE then do {
             (r, p, s) \<leftarrow> cMemoryRealloc (pool s PrgId h) n s;
             Some (p, if r = OK then set_pool PrgId h (\<lambda>e. e\<lparr>Size := n\<rparr>) s else s)
           }
           else Some (0, s));
        Some (pTmp, set_pool PrgId h (\<lambda>e. e\<lparr>pPool := pTmp\<rparr>) s)
      }
      else Some (0, s))"

text \<open>\<open>Some p\<close> is \<open>OK\<close> with \<open>*pMemory = p\<close>, \<open>None\<close> is \<open>FAIL\<close> with \<open>*pMemory\<close> set to
  \<open>NULL\<close> (\<open>cMemoryGetPointer\<close>) or left alone (\<open>cMemoryArraryPointer\<close>).\<close>

definition cMemoryGetPointer :: "PRGID \<Rightarrow> HANDLER \<Rightarrow> vm \<Rightarrow> ULONG option" where
  "cMemoryGetPointer PrgId h s =
     (if PrgId < MAX_PROGRAMS s \<and> handle_ok h \<and> pool s PrgId h \<noteq> 0
      then Some (pool s PrgId h) else None)"

definition cMemoryArraryPointer :: "PRGID \<Rightarrow> HANDLER \<Rightarrow> vm \<Rightarrow> ULONG option" where
  "cMemoryArraryPointer PrgId h s =
     map_option (\<lambda>p. p + DESCR_pArray) (cMemoryGetPointer PrgId h s)"

definition cMemoryFreeHandle :: "PRGID \<Rightarrow> HANDLER \<Rightarrow> vm \<Rightarrow> (DSPSTAT \<times> vm) option" where
  "cMemoryFreeHandle PrgId h s =
     (if PrgId < MAX_PROGRAMS s \<and> handle_ok h \<and> pool s PrgId h \<noteq> 0 then do {
        (r, s) \<leftarrow>
          (if PoolType (pPoolList s PrgId h) = POOL_TYPE_FILE then do {
             let p = pool s PrgId h;
             access \<leftarrow> load8 s (PtrMem (p + FDESCR_Access));
             if access \<noteq> 0 then do {
               s \<leftarrow> store8 s (PtrMem (p + FDESCR_Access)) 0;
               fd \<leftarrow> load32 s (PtrMem (p + FDESCR_hFile));
               Some (NOBREAK, s\<lparr>ClosedFiles := fd # ClosedFiles s\<rparr>)
             }
             else Some (FAILBREAK, s)
           }
           else Some (NOBREAK, s));
        s \<leftarrow> cMemoryFree (pool s PrgId h) s;
        Some (r, set_pool PrgId h (\<lambda>e. e\<lparr>pPool := 0, Size := 0\<rparr>) s)
      }
      else Some (FAILBREAK, s))"

definition cMemoryFreePool :: "PRGID \<Rightarrow> ULONG \<Rightarrow> vm \<Rightarrow> vm option" where
  "cMemoryFreePool PrgId pMemory s =
     (let h = find_handle (\<lambda>h. pool s PrgId h = pMemory) 0 in
      if h < MAX_HANDLES then map_option snd (cMemoryFreeHandle PrgId (of_nat h) s) else Some s)"

fun free_handles :: "PRGID \<Rightarrow> HANDLER list \<Rightarrow> vm \<Rightarrow> vm option" where
  "free_handles PrgId [] s = Some s"
| "free_handles PrgId (h # hs) s = do {
     (_, s) \<leftarrow> cMemoryFreeHandle PrgId h s;
     free_handles PrgId hs s
   }"

definition all_handles :: "HANDLER list" where
  "all_handles = map of_nat [0..<MAX_HANDLES]"

definition cMemoryFreeProgram :: "PRGID \<Rightarrow> vm \<Rightarrow> vm option" where
  "cMemoryFreeProgram PrgId s = do {
     s \<leftarrow> free_handles PrgId all_handles s;
     Some (s\<lparr>PathList := (PathList s)(PrgId := [])\<rparr>)
   }"

fun free_programs :: "PRGID list \<Rightarrow> vm \<Rightarrow> vm option" where
  "free_programs [] s = Some s"
| "free_programs (p # ps) s = do { s \<leftarrow> cMemoryFreeProgram p s; free_programs ps s }"

definition cMemoryFreeAll :: "vm \<Rightarrow> vm option" where
  "cMemoryFreeAll s = free_programs (map of_nat [0..<unat (MAX_PROGRAMS s)]) s"

definition cMemoryOpen :: "PRGID \<Rightarrow> ULONG \<Rightarrow> vm \<Rightarrow> (ULONG option \<times> vm) option" where
  "cMemoryOpen PrgId n s = do {
     (r, _, s) \<leftarrow> cMemoryAlloc PrgId POOL_TYPE_MEMORY n s;
     Some (r, s)
   }"

definition cMemoryClose :: "PRGID \<Rightarrow> vm \<Rightarrow> vm option" where
  "cMemoryClose PrgId s = cMemoryFreeProgram PrgId s"

definition cMemoryResize :: "PRGID \<Rightarrow> HANDLER \<Rightarrow> DATA32 \<Rightarrow> vm \<Rightarrow> (ULONG \<times> vm) option" where
  "cMemoryResize PrgId TmpHandle Elements s =
     (case cMemoryGetPointer PrgId TmpHandle s of
        None \<Rightarrow> Some (0, s)
      | Some p \<Rightarrow> do {
          es \<leftarrow> load8 s (PtrMem (p + DESCR_ElementSize));
          (q, s) \<leftarrow> cMemoryReallocate PrgId TmpHandle (Elements * scast es + sizeof_DESCR) s;
          if q \<noteq> 0 then do {
            s \<leftarrow> store32 s (PtrMem (q + DESCR_Elements)) Elements;
            Some (q + DESCR_pArray, s)
          }
          else Some (0, s)
        })"

subsection \<open>The search for a handle\<close>

lemma find_handle_le: "h \<le> MAX_HANDLES \<Longrightarrow> find_handle P h \<le> MAX_HANDLES"
  by (induction P h rule: find_handle.induct) (subst find_handle.simps, auto)

lemma find_handle_ge: "h \<le> find_handle P h"
proof (induction P h rule: find_handle.induct)
  case (1 P h)
  show ?case
    by (subst find_handle.simps) (use "1" in \<open>auto dest: Suc_leD\<close>)
qed

lemma find_handle_found: "find_handle P h < MAX_HANDLES \<Longrightarrow> P (of_nat (find_handle P h))"
proof (induction P h rule: find_handle.induct)
  case (1 P h)
  show ?case
    using "1" by (cases "h < MAX_HANDLES \<and> \<not> P (of_nat h)") (auto simp: find_handle.simps [of P h])
qed

lemma find_handle_first: "h \<le> k \<Longrightarrow> k < find_handle P h \<Longrightarrow> \<not> P (of_nat k)"
proof (induction P h rule: find_handle.induct)
  case (1 P h)
  show ?case
  proof (cases "h < MAX_HANDLES \<and> \<not> P (of_nat h)")
    case True
    with "1" show ?thesis
      by (cases "h = k") (auto simp: find_handle.simps [of P h])
  next
    case False
    with "1.prems" show ?thesis by (auto simp: find_handle.simps [of P h])
  qed
qed

lemma handle_of_nat: "h < MAX_HANDLES \<Longrightarrow> handle_ok (of_nat h) \<and> unat (of_nat h :: HANDLER) = h"
proof -
  assume h: "h < MAX_HANDLES"
  then have "unat (of_nat h :: HANDLER) = h"
    by (simp add: MAX_HANDLES_def unat_of_nat)
  moreover have "sint (of_nat h :: HANDLER) = int h"
    using h sint_of_int_range [where 'a = 16 and i = "int h"] by (simp add: MAX_HANDLES_def)
  ultimately show ?thesis using h by (simp add: handle_ok_def)
qed

lemma handle_ok_nat: "handle_ok h \<longleftrightarrow> unat h < MAX_HANDLES"
proof
  assume "handle_ok h"
  then have "0 \<le> sint h" "sint h < 500" by (auto simp: handle_ok_def MAX_HANDLES_def)
  then have "take_bit 16 (sint h) = sint h"
    by (simp add: take_bit_int_eq_self)
  then have "sint h = uint h" using uint_sint [of h] by simp
  with \<open>sint h < 500\<close> have "h < 500" by (simp add: word_less_def)
  then show "unat h < MAX_HANDLES" by (simp add: MAX_HANDLES_def word_less_nat_alt)
next
  assume "unat h < MAX_HANDLES"
  then show "handle_ok h" using handle_of_nat [of "unat h"] by simp
qed

subsection \<open>The pool table\<close>

lemma pool_set_pool [simp]:
  "pool (set_pool p h f s) p' h' = (if p' = p \<and> h' = h then pPool (f (pPoolList s p h)) else pool s p' h')"
  by (simp add: pool_def set_pool_def)

lemma pPoolList_set_pool [simp]:
  "pPoolList (set_pool p h f s) p' h' =
     (if p' = p \<and> h' = h then f (pPoolList s p h) else pPoolList s p' h')"
  by (simp add: set_pool_def)

lemma set_pool_frame [simp]:
  "mem (set_pool p h f s) = mem s" "Blocks (set_pool p h f s) = Blocks s"
  "Consts (set_pool p h f s) = Consts s" "MAX_PROGRAMS (set_pool p h f s) = MAX_PROGRAMS s"
  "Value (set_pool p h f s) = Value s"
  by (simp_all add: set_pool_def MAX_PROGRAMS_def)

definition heap_ok :: "vm \<Rightarrow> bool" where
  "heap_ok s \<longleftrightarrow>
     (\<forall>a n. Blocks s a = Some n \<longrightarrow> a \<noteq> 0 \<and> 0 < n \<and> unat a + n \<le> 2 ^ 32 \<and> span a n \<subseteq> dom (mem s)) \<and>
     (\<forall>a b n m. Blocks s a = Some n \<longrightarrow> Blocks s b = Some m \<longrightarrow> a \<noteq> b \<longrightarrow> span a n \<inter> span b m = {})"

definition pool_ok :: "vm \<Rightarrow> bool" where
  "pool_ok s \<longleftrightarrow> heap_ok s \<and>
     (\<forall>p h. pool s p h \<noteq> 0 \<longrightarrow> p < MAX_PROGRAMS s \<and> handle_ok h \<and>
        Blocks s (pool s p h) = Some (unat (Size (pPoolList s p h)))) \<and>
     (\<forall>p h p' h'. pool s p h \<noteq> 0 \<longrightarrow> pool s p h = pool s p' h' \<longrightarrow> p = p' \<and> h = h')"

lemma pool_ok_heap: "pool_ok s \<Longrightarrow> heap_ok s"
  by (simp add: pool_ok_def)

lemma pool_okD:
  assumes "pool_ok s" and "pool s p h \<noteq> 0"
  shows "p < MAX_PROGRAMS s" and "handle_ok h"
    and "Blocks s (pool s p h) = Some (unat (Size (pPoolList s p h)))"
  using assms unfolding pool_ok_def by blast+

lemma pool_ok_inj:
  "pool_ok s \<Longrightarrow> pool s p h \<noteq> 0 \<Longrightarrow> pool s p h = pool s p' h' \<Longrightarrow> p = p' \<and> h = h'"
  unfolding pool_ok_def by blast

lemma span_in_iff: "n \<le> 2 ^ 32 \<Longrightarrow> x \<in> span a n \<longleftrightarrow> unat (x - a) < n"
proof
  assume n: "n \<le> 2 ^ 32" and "x \<in> span a n"
  then obtain i where i: "i < n" "x = a + of_nat i" by (auto simp: span_def)
  then show "unat (x - a) < n"
    using n by (auto simp: unat_of_nat intro: le_less_trans [OF mod_less_eq_dividend])
next
  assume "unat (x - a) < n"
  then show "x \<in> span a n"
    unfolding span_def by (intro image_eqI [of _ _ "unat (x - a)"]) simp_all
qed

lemma heap_okD:
  assumes "heap_ok s" and "Blocks s a = Some n"
  shows "a \<noteq> 0" "0 < n" "n \<le> 2 ^ 32" "span a n \<subseteq> dom (mem s)"
  using assms unfolding heap_ok_def by fastforce+

lemma heap_ok_disj:
  "heap_ok s \<Longrightarrow> Blocks s a = Some n \<Longrightarrow> Blocks s b = Some m \<Longrightarrow> a \<noteq> b \<Longrightarrow> span a n \<inter> span b m = {}"
  unfolding heap_ok_def by blast

subsection \<open>Heap operations keep the heap well formed\<close>

lemma heap_ok_cong:
  "mem s = mem t \<Longrightarrow> Blocks s = Blocks t \<Longrightarrow> heap_ok s \<longleftrightarrow> heap_ok t"
  by (simp add: heap_ok_def)

lemma heap_ok_unmap:
  assumes ok: "heap_ok s" and b: "Blocks s a = Some n"
  shows "heap_ok (unmap_block a n s)"
proof -
  have n: "n \<le> 2 ^ 32" by (rule heap_okD [OF ok b])
  have "span c m \<subseteq> dom (mem (unmap_block a n s))" if c: "Blocks s c = Some m" "c \<noteq> a" for c m
  proof
    fix x assume x: "x \<in> span c m"
    then have "x \<notin> span a n" using heap_ok_disj [OF ok b c(1)] c(2) by blast
    moreover have "x \<in> dom (mem s)" using heap_okD(4) [OF ok c(1)] x by blast
    ultimately show "x \<in> dom (mem (unmap_block a n s))"
      using n by (auto simp: unmap_block_def span_in_iff)
  qed
  with ok show ?thesis
    unfolding heap_ok_def by (auto simp: unmap_block_def)
qed

lemma fits_span:
  assumes "fits s a n" and "n \<le> 2 ^ 32"
  shows "span a n \<inter> dom (mem s) = {}"
  using assms by (auto simp: fits_def span_def)

lemma heap_ok_map:
  assumes ok: "heap_ok s" and f: "fits s a n" and n: "0 < n"
  shows "heap_ok (map_block a n g s)"
proof -
  have le: "n \<le> 2 ^ 32" and a0: "a \<noteq> 0" and nw: "unat a + n \<le> 2 ^ 32"
    using f by (auto simp: fits_def)
  have free: "span a n \<inter> dom (mem s) = {}" by (rule fits_span [OF f le])
  have dom: "dom (mem (map_block a n g s)) = dom (mem s) \<union> span a n"
    using le by (auto simp: map_block_def span_in_iff split: if_splits)
  have old: "span c m \<subseteq> dom (mem s)" if "Blocks s c = Some m" for c m
    by (rule heap_okD(4) [OF ok that])
  have bl: "Blocks (map_block a n g s) = (Blocks s)(a \<mapsto> n)" by (simp add: map_block_def)
  show ?thesis
    unfolding heap_ok_def bl dom
  proof (intro conjI allI impI)
    fix c m assume "((Blocks s)(a \<mapsto> n)) c = Some m"
    then show "c \<noteq> 0" "0 < m" "unat c + m \<le> 2 ^ 32" "span c m \<subseteq> dom (mem s) \<union> span a n"
      using ok a0 n nw unfolding heap_ok_def by (auto split: if_splits)
  next
    fix c d m k
    assume "((Blocks s)(a \<mapsto> n)) c = Some m" "((Blocks s)(a \<mapsto> n)) d = Some k" "c \<noteq> d"
    then show "span c m \<inter> span d k = {}"
      using heap_ok_disj [OF ok] free old by (fastforce split: if_splits)
  qed
qed

text \<open>What \<open>free\<close> and \<open>realloc\<close> promise.\<close>

lemma free_Some:
  assumes "heap_ok s" and "a = 0 \<or> Blocks s a \<noteq> None"
  shows "\<exists>t. free a s = Some t \<and> heap_ok t \<and> Blocks t = (if a = 0 then Blocks s else (Blocks s)(a := None))
     \<and> (\<forall>x. a = 0 \<or> x \<notin> span a (the (Blocks s a)) \<longrightarrow> mem t x = mem s x)
     \<and> (\<exists>M B. t = s\<lparr>mem := M, Blocks := B\<rparr>)"
proof (cases "a = 0")
  case True
  have "\<exists>M B. s = s\<lparr>mem := M, Blocks := B\<rparr>"
    by (intro exI [of _ "mem s"] exI [of _ "Blocks s"]) simp
  with True assms show ?thesis by (simp add: free_def)
next
  case False
  then obtain n where n: "Blocks s a = Some n" using assms(2) by auto
  have "n \<le> 2 ^ 32" by (rule heap_okD [OF assms(1) n])
  then show ?thesis
    using False n heap_ok_unmap [OF assms(1) n]
    by (auto simp: free_def unmap_block_def span_in_iff)
qed

text \<open>A block that does not move or is unrelated keeps its bytes; a successful \<open>realloc\<close>
  keeps the first bytes of the old block, a failed one changes nothing but the oracle's
  position.\<close>

lemma realloc_cases:
  assumes ok: "heap_ok s" and old: "old = 0 \<or> Blocks s old \<noteq> None" and n: "0 < n"
  obtains (moved) a t where "realloc old n s = Some (a, t)" "a \<noteq> 0" "heap_ok t"
      "Blocks t = (if old = 0 then Blocks s else (Blocks s)(old := None))(a \<mapsto> n)"
      "(if old = 0 then Blocks s else (Blocks s)(old := None)) a = None"
      "a AND 3 = 0" "t = s\<lparr>mem := mem t, Blocks := Blocks t, AllocNo := Suc (AllocNo s)\<rparr>"
      "\<And>x m c. Blocks s c = Some m \<Longrightarrow> c \<noteq> old \<Longrightarrow> x \<in> span c m \<Longrightarrow> mem t x = mem s x"
      "\<And>i k. old \<noteq> 0 \<Longrightarrow> Blocks s old = Some k \<Longrightarrow> i < k \<Longrightarrow> i < n \<Longrightarrow>
         mem t (a + of_nat i) = mem s (old + of_nat i)"
  | (failed) "realloc old n s = Some (0, s\<lparr>AllocNo := Suc (AllocNo s)\<rparr>)"
proof -
  from free_Some [OF ok old] obtain t where t: "free old s = Some t" "heap_ok t"
      "Blocks t = (if old = 0 then Blocks s else (Blocks s)(old := None))"
      "\<And>x. old = 0 \<or> x \<notin> span old (the (Blocks s old)) \<Longrightarrow> mem t x = mem s x"
      "\<exists>M B. t = s\<lparr>mem := M, Blocks := B\<rparr>"
    by blast
  from t(5) obtain M B where tM: "t = s\<lparr>mem := M, Blocks := B\<rparr>" by blast
  let ?a = "AllocAddr s (AllocNo s)"
  let ?k = "if old = 0 then 0 else the (Blocks s old)"
  let ?f = "\<lambda>i. if unat i < ?k then (case mem s (old + i) of Some b \<Rightarrow> b | None \<Rightarrow> AllocJunk s (?a + i))
                else AllocJunk s (?a + i)"
  have r: "realloc old n s = (if fits t ?a n
      then Some (?a, (map_block ?a n ?f t)\<lparr>AllocNo := Suc (AllocNo s)\<rparr>)
      else Some (0, s\<lparr>AllocNo := Suc (AllocNo s)\<rparr>))"
    by (simp add: realloc_def t(1) Let_def)
  show thesis
  proof (cases "fits t ?a n")
    case False
    with r show ?thesis by (auto intro: failed)
  next
    case True
    let ?t = "(map_block ?a n ?f t)\<lparr>AllocNo := Suc (AllocNo s)\<rparr>"
    have le: "n \<le> 2 ^ 32" using True by (auto simp: fits_def)
    have free: "span ?a n \<inter> dom (mem t) = {}" by (rule fits_span [OF True le])
    have hok: "heap_ok ?t"
      using heap_ok_map [OF t(2) True n, of ?f] heap_ok_cong [of ?t "map_block ?a n ?f t"] by simp
    have fresh: "Blocks t ?a = None"
    proof (rule ccontr)
      assume "Blocks t ?a \<noteq> None"
      then obtain m where m: "Blocks t ?a = Some m" by auto
      have "?a \<in> span ?a m" "?a \<in> span ?a n"
        using heap_okD(2) [OF t(2) m] n by (auto simp: span_def image_iff intro: bexI [of _ 0])
      then show False using heap_okD(4) [OF t(2) m] free by blast
    qed
    have keep: "mem ?t x = mem s x"
      if "Blocks s c = Some m" "c \<noteq> old" "x \<in> span c m" for x m c
    proof -
      have "old = 0 \<or> x \<notin> span old (the (Blocks s old))"
        using heap_ok_disj [OF ok that(1)] that(2,3) old by fastforce
      then have "mem t x = mem s x" by (rule t(4))
      moreover have "x \<in> dom (mem s)" using heap_okD(4) [OF ok that(1)] that(3) by blast
      ultimately have "x \<notin> span ?a n" using free by auto
      with \<open>mem t x = mem s x\<close> show ?thesis using le by (simp add: map_block_def span_in_iff)
    qed
    have copy: "mem ?t (?a + of_nat i) = mem s (old + of_nat i)"
      if "old \<noteq> 0" "Blocks s old = Some k" "i < k" "i < n" for i k
    proof -
      have "unat (of_nat i :: ULONG) = i" using that(4) le by (simp add: unat_of_nat)
      moreover have "old + of_nat i \<in> dom (mem s)"
        using heap_okD(4) [OF ok that(2)] that(3) by (auto simp: span_def)
      ultimately show ?thesis using that by (auto simp: map_block_def)
    qed
    have frame: "?t = s\<lparr>mem := mem ?t, Blocks := Blocks ?t, AllocNo := Suc (AllocNo s)\<rparr>"
      by (simp add: tM map_block_def)
    show ?thesis
      using r True hok fresh keep copy frame
      by (intro moved [of ?a ?t]) (auto simp: fits_def map_block_def t(3))
  qed
qed

subsection \<open>Pool operations\<close>

text \<open>\<open>others_kept\<close>: the bytes of every block other than \<open>a\<close> are unchanged.\<close>

definition others_kept :: "ULONG \<Rightarrow> vm \<Rightarrow> vm \<Rightarrow> bool" where
  "others_kept a s t \<longleftrightarrow>
     (\<forall>c m x. Blocks s c = Some m \<longrightarrow> c \<noteq> a \<longrightarrow> x \<in> span c m \<longrightarrow> mem t x = mem s x)"

lemma cMemoryRealloc_cases:
  assumes ok: "heap_ok s" and old: "old = 0 \<or> Blocks s old \<noteq> None" and n: "0 < n"
  obtains (moved) a t where "cMemoryRealloc old n s = Some (OK, a, t)" "a \<noteq> 0" "heap_ok t"
      "Blocks t = (if old = 0 then Blocks s else (Blocks s)(old := None))(a \<mapsto> unat n)"
      "(if old = 0 then Blocks s else (Blocks s)(old := None)) a = None"
      "t = s\<lparr>mem := mem t, Blocks := Blocks t, AllocNo := Suc (AllocNo s)\<rparr>"
      "others_kept old s t"
      "\<And>i k. old \<noteq> 0 \<Longrightarrow> Blocks s old = Some k \<Longrightarrow> i < k \<Longrightarrow> i < unat n \<Longrightarrow>
         mem t (a + of_nat i) = mem s (old + of_nat i)"
  | (failed) "cMemoryRealloc old n s = Some (FAIL, 0, s\<lparr>AllocNo := Suc (AllocNo s)\<rparr>)"
proof -
  have pos: "0 < unat n" using n by (simp add: word_less_nat_alt)
  from ok old pos show thesis
  proof (cases rule: realloc_cases)
    case (moved a t)
    then show ?thesis
      by (intro that(1) [of a t]) (auto simp: cMemoryRealloc_def others_kept_def)
  next
    case failed
    then show ?thesis by (intro that(2)) (simp add: cMemoryRealloc_def)
  qed
qed

lemma pool_frame:
  "pPoolList t = pPoolList s \<Longrightarrow> pool t p h = pool s p h"
  by (simp add: pool_def)

text \<open>Replacing the block of one handle keeps the table well formed.\<close>

lemma pool_ok_replace:
  assumes ok: "pool_ok s" and hok: "heap_ok t"
    and lists: "pPoolList t = (pPoolList s)(p := (pPoolList s p)(h := e))"
    and same_consts: "Consts t = Consts s"
    and p: "p < MAX_PROGRAMS s" and h: "handle_ok h"
    and kept: "\<And>c m. Blocks s c = Some m \<Longrightarrow> c \<noteq> pool s p h \<Longrightarrow> Blocks t c = Some m"
    and new: "pPool e = 0 \<or> (Blocks t (pPool e) = Some (unat (Size e)) \<and>
        (pPool e = pool s p h \<or> Blocks s (pPool e) = None))"
  shows "pool_ok t"
proof -
  have pool: "pool t p' h' = (if p' = p \<and> h' = h then pPool e else pool s p' h')" for p' h'
    by (simp add: pool_def lists)
  have size: "pPoolList t p' h' = (if p' = p \<and> h' = h then e else pPoolList s p' h')" for p' h'
    by (simp add: lists)
  have mp: "MAX_PROGRAMS t = MAX_PROGRAMS s" by (simp add: MAX_PROGRAMS_def same_consts)
  have apart: "pool s p' h' \<noteq> pool s p h" if "pool s p' h' \<noteq> 0" "\<not> (p' = p \<and> h' = h)" for p' h'
    using pool_ok_inj [OF ok that(1)] that(2) by blast
  have unused: "pool s p' h' \<noteq> pPool e" if "pool s p' h' \<noteq> 0" "\<not> (p' = p \<and> h' = h)" for p' h'
    using new apart [OF that] pool_okD(3) [OF ok that(1)] that(1) by auto
  show ?thesis
    unfolding pool_ok_def
  proof (intro conjI allI impI)
    show "heap_ok t" by (rule hok)
  next
    fix p' h' assume nz: "pool t p' h' \<noteq> 0"
    show "p' < MAX_PROGRAMS t"
      using nz p pool_okD(1) [OF ok] by (auto simp: pool mp split: if_splits)
    show "handle_ok h'"
      using nz h pool_okD(2) [OF ok] by (auto simp: pool split: if_splits)
    show "Blocks t (pool t p' h') = Some (unat (Size (pPoolList t p' h')))"
    proof (cases "p' = p \<and> h' = h")
      case True
      with nz new show ?thesis by (simp add: pool size)
    next
      case False
      with nz have "pool s p' h' \<noteq> 0" by (simp add: pool split: if_splits)
      with False show ?thesis
        using kept [OF pool_okD(3) [OF ok] apart] by (auto simp: pool size)
    qed
  next
    fix p' h' p2 h2
    assume "pool t p' h' \<noteq> 0" "pool t p' h' = pool t p2 h2"
    then show "p' = p2" "h' = h2"
      using unused pool_ok_inj [OF ok] by (auto simp: pool split: if_splits) metis+
  qed
qed

text \<open>The contract of a table of handles, which the programs and the array byte codes use.
  The owner of a handle sees its block until it frees it, whatever happens to the other
  handles.\<close>

locale handle_table =
  fixes alloc :: "'p \<Rightarrow> 't \<Rightarrow> 'n \<Rightarrow> 's \<Rightarrow> ('b option \<times> 'h \<times> 's) option"
    and release :: "'p \<Rightarrow> 'h \<Rightarrow> 's \<Rightarrow> ('r \<times> 's) option"
    and get :: "'p \<Rightarrow> 'h \<Rightarrow> 's \<Rightarrow> 'b option"
    and invar :: "'s \<Rightarrow> bool"
  assumes alloc_total: "invar s \<Longrightarrow> \<exists>r h t. alloc p ty n s = Some (r, h, t) \<and> invar t"
    and alloc_get: "invar s \<Longrightarrow> alloc p ty n s = Some (Some a, h, t) \<Longrightarrow>
      get p h s = None \<and> get p h t = Some a"
    and alloc_other: "invar s \<Longrightarrow> alloc p ty n s = Some (r, h, t) \<Longrightarrow>
      p' \<noteq> p \<or> h' \<noteq> h \<or> r = None \<Longrightarrow> get p' h' t = get p' h' s"
    and get_fresh: "invar s \<Longrightarrow> alloc p ty n s = Some (Some a, h, t) \<Longrightarrow> get p' h' s \<noteq> Some a"
    and release_get: "invar s \<Longrightarrow> release p h s = Some (res, t) \<Longrightarrow> invar t \<and>
      get p h t = None \<and> (\<forall>p' h'. p' \<noteq> p \<or> h' \<noteq> h \<longrightarrow> get p' h' t = get p' h' s)"
begin

lemma alloc_release:
  assumes "invar s" and "alloc p ty n s = Some (Some a, h, t)" and "release p h t = Some (res, v)"
  shows "get p' h' v = get p' h' s"
proof -
  have t: "invar t" using alloc_total [OF assms(1)] assms(2) by (metis Pair_inject option.inject)
  show ?thesis
  proof (cases "p' = p \<and> h' = h")
    case True
    then show ?thesis
      using release_get [OF t assms(3)] alloc_get [OF assms(1,2)] by simp
  next
    case False
    then show ?thesis
      using release_get [OF t assms(3)] alloc_other [OF assms(1,2)] by metis
  qed
qed

lemma alloc_twice_distinct:
  assumes "invar s" and "alloc p ty n s = Some (Some a, h, t)" and "alloc p' ty' m t = Some (Some b, k, v)"
  shows "(p, h) \<noteq> (p', k)" and "get p h v = Some a" and "a \<noteq> b"
proof -
  have t: "invar t" using alloc_total [OF assms(1)] assms(2) by (metis Pair_inject option.inject)
  have a: "get p h t = Some a" using alloc_get [OF assms(1,2)] by simp
  have b: "get p' k t = None" using alloc_get [OF t assms(3)] by simp
  from a b show ne: "(p, h) \<noteq> (p', k)" by auto
  then show "get p h v = Some a" using alloc_other [OF t assms(3), of p h] a by auto
  show "a \<noteq> b" using get_fresh [OF t assms(3), of p h] a by auto
qed

end

subsection \<open>The pools implement it\<close>

lemma pool_ok_frame:
  assumes "pool_ok s" and "mem t = mem s" "Blocks t = Blocks s" "pPoolList t = pPoolList s"
    and "Consts t = Consts s"
  shows "pool_ok t"
  using assms by (simp add: pool_ok_def heap_ok_def pool_def MAX_PROGRAMS_def)

lemma find_free:
  assumes "find_handle (\<lambda>h. pool s p h = 0) 0 < MAX_HANDLES"
  defines "h \<equiv> of_nat (find_handle (\<lambda>h. pool s p h = 0) 0)"
  shows "handle_ok h" and "pool s p h = 0"
  using handle_of_nat [OF assms(1)] find_handle_found [OF assms(1)] by (simp_all add: h_def)

text \<open>The outcomes of \<open>cMemoryAlloc\<close>: a new block under a handle that was free, or
  failure, which leaves every handle as it was.\<close>

lemma alloc_cases:
  assumes ok: "pool_ok s"
  obtains (allocated) a h t where "cMemoryAlloc p ty n s = Some (Some a, h, t)" "a \<noteq> 0"
      "p < MAX_PROGRAMS s" "handle_ok h" "pool s p h = 0" "Blocks s a = None" "pool_ok t"
      "pPoolList t = (pPoolList s)(p := (pPoolList s p)(h :=
         \<lparr>pPool = a, Size = n, PoolType = ty, \<dots> = POOL.more (pPoolList s p h)\<rparr>))"
      "Blocks t = (Blocks s)(a \<mapsto> unat n)" "others_kept 0 s t"
      "Consts t = Consts s"
      "t = s\<lparr>mem := mem t, Blocks := Blocks t, AllocNo := Suc (AllocNo s), pPoolList := pPoolList t\<rparr>"
  | (refused) t where "cMemoryAlloc p ty n s = Some (None, - 1, t)" "pool_ok t"
      "pPoolList t = pPoolList s" "Blocks t = Blocks s" "mem t = mem s"
      "Consts t = Consts s" "t = s\<lparr>AllocNo := AllocNo t\<rparr>"
proof -
  let ?h = "find_handle (\<lambda>h. pool s p h = 0) 0"
  show thesis
  proof (cases "p < MAX_PROGRAMS s \<and> n > 0 \<and> unat n \<le> MAX_ARRAY_SIZE \<and> ?h < MAX_HANDLES")
    case False
    then have "cMemoryAlloc p ty n s = Some (None, - 1, s)"
      by (auto simp: cMemoryAlloc_def Let_def)
    then show ?thesis using ok by (intro refused [of s]) simp_all
  next
    case True
    note h = find_free [of s p, OF conjunct2 [OF conjunct2 [OF conjunct2 [OF True]]]]
    have n: "0 < n" using True by simp
    have old: "(0::ULONG) = 0 \<or> Blocks s 0 \<noteq> None" by simp
    from pool_ok_heap [OF ok] old n show ?thesis
    proof (cases rule: cMemoryRealloc_cases)
      case (moved a t)
      let ?t = "set_pool p (of_nat ?h) (\<lambda>e. e\<lparr>PoolType := ty, Size := n\<rparr>)
                 (set_pool p (of_nat ?h) (\<lambda>e. e\<lparr>pPool := a\<rparr>) t)"
      have run: "cMemoryAlloc p ty n s = Some (Some a, of_nat ?h, ?t)"
        using True moved(1) by (simp add: cMemoryAlloc_def Let_def)
      have same: "pPoolList t = pPoolList s" "Consts t = Consts s"
        by (subst moved(6), simp)+
      have lists: "pPoolList ?t = (pPoolList s)(p := (pPoolList s p)(of_nat ?h :=
         \<lparr>pPool = a, Size = n, PoolType = ty, \<dots> = POOL.more (pPoolList s p (of_nat ?h))\<rparr>))"
        by (simp add: set_pool_def same fun_eq_iff)
      have kept: "Blocks ?t c = Some m" if "Blocks s c = Some m" "c \<noteq> pool s p (of_nat ?h)" for c m
        using moved(4,5) that by auto
      have "pool_ok ?t"
      proof (rule pool_ok_replace [OF ok _ lists _ _ h(1) kept])
        show "heap_ok ?t" using moved(3) heap_ok_cong [of t ?t] by simp
        show "Consts ?t = Consts s" by (simp add: same)
        show "p < MAX_PROGRAMS s" using True by simp
      qed (use moved(4,5) in simp_all)
      moreover have "?t = s\<lparr>mem := mem ?t, Blocks := Blocks ?t, AllocNo := Suc (AllocNo s),
          pPoolList := pPoolList ?t\<rparr>"
        by (subst (1 2) set_pool_def, subst moved(6)) (simp add: set_pool_def)
      ultimately show ?thesis
        using True h moved(2,4,5,7) run lists same
        by (intro allocated [of a "of_nat ?h" ?t]) (simp_all add: others_kept_def)
    next
      case failed
      let ?t = "set_pool p (of_nat ?h) (\<lambda>e. e\<lparr>pPool := 0\<rparr>) (s\<lparr>AllocNo := Suc (AllocNo s)\<rparr>)"
      have run: "cMemoryAlloc p ty n s = Some (None, - 1, ?t)"
        using True failed by (simp add: cMemoryAlloc_def Let_def)
      have "pPoolList s p (of_nat ?h)\<lparr>pPool := 0\<rparr> = pPoolList s p (of_nat ?h)"
        using h(2) by (simp add: pool_def)
      then have eq: "?t = s\<lparr>AllocNo := Suc (AllocNo s)\<rparr>"
        by (simp add: set_pool_def)
      show ?thesis
        unfolding eq by (rule refused [OF run [unfolded eq]])
          (use pool_ok_frame [OF ok] in \<open>simp_all\<close>)
    qed
  qed
qed

lemma blocks_others_distinct:
  assumes "heap_ok s" and "a \<noteq> 0" and "Blocks s a \<noteq> None"
  obtains t where "free a s = Some t" "heap_ok t" "Blocks t = (Blocks s)(a := None)"
    "others_kept a s t" "t = s\<lparr>mem := mem t, Blocks := Blocks t\<rparr>"
proof -
  from free_Some [OF assms(1), of a] assms(3) obtain t where
    t: "free a s = Some t" "heap_ok t" "Blocks t = (if a = 0 then Blocks s else (Blocks s)(a := None))"
      "\<And>x. a = 0 \<or> x \<notin> span a (the (Blocks s a)) \<Longrightarrow> mem t x = mem s x"
      "\<exists>M B. t = s\<lparr>mem := M, Blocks := B\<rparr>"
    by blast
  have "others_kept a s t"
    unfolding others_kept_def
  proof (intro allI impI)
    fix c m x
    assume c: "Blocks s c = Some m" "c \<noteq> a" "x \<in> span c m"
    obtain n where n: "Blocks s a = Some n" using assms(3) by auto
    have "x \<notin> span a n" using heap_ok_disj [OF assms(1) c(1) n c(2)] c(3) by blast
    then show "mem t x = mem s x" using t(4) n by simp
  qed
  with t assms(2) that show thesis by auto
qed

lemma others_kept_trans:
  assumes "others_kept a s t" and "others_kept a t v"
    and "\<And>c. c \<noteq> a \<Longrightarrow> Blocks t c = Blocks s c"
  shows "others_kept a s v"
  using assms unfolding others_kept_def by metis

text \<open>Closing the file of a handle touches only the bytes of the handle's block.\<close>

definition release_file :: "ULONG \<Rightarrow> vm \<Rightarrow> (DSPSTAT \<times> vm) option" where
  "release_file p s = do {
     access \<leftarrow> load8 s (PtrMem (p + FDESCR_Access));
     if access \<noteq> 0 then do {
       s \<leftarrow> store8 s (PtrMem (p + FDESCR_Access)) 0;
       fd \<leftarrow> load32 s (PtrMem (p + FDESCR_hFile));
       Some (NOBREAK, s\<lparr>ClosedFiles := fd # ClosedFiles s\<rparr>)
     }
     else Some (FAILBREAK, s)
   }"

lemma release_file_frame:
  assumes "release_file p s = Some (r, t)"
  shows "Blocks t = Blocks s" "pPoolList t = pPoolList s" "Consts t = Consts s"
    "dom (mem t) = dom (mem s)" "\<And>x. x \<noteq> p + FDESCR_Access \<Longrightarrow> mem t x = mem s x"
  using assms
  by (auto simp: release_file_def bind_conv split: if_splits)

lemma FreeHandle_eq:
  "cMemoryFreeHandle p h s =
     (if p < MAX_PROGRAMS s \<and> handle_ok h \<and> pool s p h \<noteq> 0 then do {
        (r, s) \<leftarrow> (if PoolType (pPoolList s p h) = POOL_TYPE_FILE
                  then release_file (pool s p h) s else Some (NOBREAK, s));
        s \<leftarrow> cMemoryFree (pool s p h) s;
        Some (r, set_pool p h (\<lambda>e. e\<lparr>pPool := 0, Size := 0\<rparr>) s)
      }
      else Some (FAILBREAK, s))"
  by (simp add: cMemoryFreeHandle_def release_file_def Let_def)

lemma heap_ok_dom:
  "dom (mem s) = dom (mem t) \<Longrightarrow> Blocks s = Blocks t \<Longrightarrow> heap_ok s \<longleftrightarrow> heap_ok t"
  by (simp add: heap_ok_def)

lemma free_handle_ok:
  assumes ok: "pool_ok s" and run: "cMemoryFreeHandle p h s = Some (r, t)"
  shows "pool_ok t"
    and "pPoolList t = (if p < MAX_PROGRAMS s \<and> handle_ok h \<and> pool s p h \<noteq> 0
       then (pPoolList s)(p := (pPoolList s p)(h := (pPoolList s p h)\<lparr>pPool := 0, Size := 0\<rparr>))
       else pPoolList s)"
    and "Blocks t = (if p < MAX_PROGRAMS s \<and> handle_ok h \<and> pool s p h \<noteq> 0
       then (Blocks s)(pool s p h := None) else Blocks s)"
    and "Consts t = Consts s"
proof -
  have "pool_ok t \<and> pPoolList t = (if p < MAX_PROGRAMS s \<and> handle_ok h \<and> pool s p h \<noteq> 0
       then (pPoolList s)(p := (pPoolList s p)(h := (pPoolList s p h)\<lparr>pPool := 0, Size := 0\<rparr>))
       else pPoolList s) \<and> Blocks t = (if p < MAX_PROGRAMS s \<and> handle_ok h \<and> pool s p h \<noteq> 0
       then (Blocks s)(pool s p h := None) else Blocks s) \<and> Consts t = Consts s"
  proof (cases "p < MAX_PROGRAMS s \<and> handle_ok h \<and> pool s p h \<noteq> 0")
    case False
    with run ok show ?thesis by (auto simp: FreeHandle_eq)
  next
    case True
    then obtain u where u: "(if PoolType (pPoolList s p h) = POOL_TYPE_FILE
                  then release_file (pool s p h) s else Some (NOBREAK, s)) = Some (r, u)"
        and f: "map_option (set_pool p h (\<lambda>e. e\<lparr>pPool := 0, Size := 0\<rparr>)) (free (pool u p h) u) = Some t"
      using run by (auto simp: FreeHandle_eq cMemoryFree_def bind_conv)
    have frame: "Blocks u = Blocks s" "pPoolList u = pPoolList s" "Consts u = Consts s"
        "dom (mem u) = dom (mem s)"
      using u release_file_frame by (auto split: if_splits)
    have pl: "pool u p h = pool s p h" using frame(2) by (simp add: pool_def)
    have live: "Blocks u (pool s p h) \<noteq> None"
      using pool_okD(3) [OF ok] True frame(1) by simp
    have hu: "heap_ok u" using heap_ok_dom [OF frame(4,1)] pool_ok_heap [OF ok] by simp
    obtain v where v: "free (pool s p h) u = Some v" "heap_ok v"
        "Blocks v = (Blocks u)(pool s p h := None)" "v = u\<lparr>mem := mem v, Blocks := Blocks v\<rparr>"
      using blocks_others_distinct [OF hu _ live] True by auto
    have t: "t = set_pool p h (\<lambda>e. e\<lparr>pPool := 0, Size := 0\<rparr>) v" using f v(1) pl by simp
    have same: "pPoolList v = pPoolList s" "Consts v = Consts s"
      by (subst v(4), simp add: frame)+
    have lists: "pPoolList t = (pPoolList s)(p := (pPoolList s p)(h :=
        (pPoolList s p h)\<lparr>pPool := 0, Size := 0\<rparr>))"
      by (simp add: t set_pool_def same)
    have "pool_ok t"
      by (rule pool_ok_replace [OF ok _ lists])
        (use True v(2,3) same frame(1) heap_ok_cong [of t v] in \<open>auto simp: t\<close>)
    then show ?thesis using True lists v(3) frame(1) same by (simp add: t)
  qed
  then show "pool_ok t"
    and "pPoolList t = (if p < MAX_PROGRAMS s \<and> handle_ok h \<and> pool s p h \<noteq> 0
       then (pPoolList s)(p := (pPoolList s p)(h := (pPoolList s p h)\<lparr>pPool := 0, Size := 0\<rparr>))
       else pPoolList s)"
    and "Blocks t = (if p < MAX_PROGRAMS s \<and> handle_ok h \<and> pool s p h \<noteq> 0
       then (Blocks s)(pool s p h := None) else Blocks s)"
    and "Consts t = Consts s"
    by blast+
qed

lemma GetPointer_iff:
  "cMemoryGetPointer p h s = (if pool s p h \<noteq> 0 \<and> p < MAX_PROGRAMS s \<and> handle_ok h
     then Some (pool s p h) else None)"
  by (auto simp: cMemoryGetPointer_def)

lemma MAX_PROGRAMS_cong: "Consts t = Consts s \<Longrightarrow> MAX_PROGRAMS t = MAX_PROGRAMS s"
  by (simp add: MAX_PROGRAMS_def)

interpretation pools: handle_table cMemoryAlloc cMemoryFreeHandle cMemoryGetPointer pool_ok
proof unfold_locales
  fix s p ty n
  assume ok: "pool_ok s"
  show "\<exists>r h t. cMemoryAlloc p ty n s = Some (r, h, t) \<and> pool_ok t"
    by (cases rule: alloc_cases [OF ok, of p ty n]) auto
next
  fix s p ty n a h t
  assume ok: "pool_ok s" and run: "cMemoryAlloc p ty n s = Some (Some a, h, t)"
  from ok show "cMemoryGetPointer p h s = None \<and> cMemoryGetPointer p h t = Some a"
  proof (cases rule: alloc_cases [of s p ty n])
    case (allocated b k v)
    with run show ?thesis
      by (auto simp: GetPointer_iff pool_def MAX_PROGRAMS_def)
  qed (use run in simp)
next
  fix s p ty n r h t p' h'
  assume ok: "pool_ok s" and run: "cMemoryAlloc p ty n s = Some (r, h, t)"
    and other: "p' \<noteq> p \<or> h' \<noteq> h \<or> r = None"
  from ok show "cMemoryGetPointer p' h' t = cMemoryGetPointer p' h' s"
  proof (cases rule: alloc_cases [of s p ty n])
    case (allocated b k v)
    with run other show ?thesis
      by (auto simp: GetPointer_iff pool_def MAX_PROGRAMS_def)
  next
    case (refused v)
    with run show ?thesis by (auto simp: GetPointer_iff pool_def MAX_PROGRAMS_def)
  qed
next
  fix s p ty n a h t p' h'
  assume ok: "pool_ok s" and run: "cMemoryAlloc p ty n s = Some (Some a, h, t)"
  from ok show "cMemoryGetPointer p' h' s \<noteq> Some a"
  proof (cases rule: alloc_cases [of s p ty n])
    case (allocated b k v)
    then show ?thesis using run pool_okD(3) [OF ok, of p' h'] by (auto simp: GetPointer_iff)
  qed (use run in simp)
next
  fix s p h r t
  assume ok: "pool_ok s" and run: "cMemoryFreeHandle p h s = Some (r, t)"
  have "MAX_PROGRAMS t = MAX_PROGRAMS s"
    by (rule MAX_PROGRAMS_cong [OF free_handle_ok(4) [OF ok run]])
  then show "pool_ok t \<and> cMemoryGetPointer p h t = None \<and>
      (\<forall>p' h'. p' \<noteq> p \<or> h' \<noteq> h \<longrightarrow> cMemoryGetPointer p' h' t = cMemoryGetPointer p' h' s)"
    using free_handle_ok(1,2) [OF ok run]
    by (auto simp: GetPointer_iff pool_def split: if_splits)
qed

subsection \<open>Freeing the pools of a program\<close>

text \<open>A pool of type \<open>POOL_TYPE_FILE\<close> starts with an \<open>FDESCR\<close>, of which
  \<open>cMemoryFreeHandle\<close> reads the file descriptor and the access byte.\<close>

definition files_ok :: "vm \<Rightarrow> bool" where
  "files_ok s \<longleftrightarrow> (\<forall>p h. pool s p h \<noteq> 0 \<longrightarrow> PoolType (pPoolList s p h) = POOL_TYPE_FILE \<longrightarrow>
     5 \<le> unat (Size (pPoolList s p h)))"

lemma span_mem:
  assumes "heap_ok s" and "Blocks s a = Some n" and "k < n"
  shows "mem s (a + of_nat k) \<noteq> None"
  using heap_okD(4) [OF assms(1,2)] assms(3) by (auto simp: span_def)

lemma free_handle_total:
  assumes ok: "pool_ok s" and f: "files_ok s"
  shows "\<exists>r t. cMemoryFreeHandle p h s = Some (r, t)"
proof (cases "p < MAX_PROGRAMS s \<and> handle_ok h \<and> pool s p h \<noteq> 0")
  case False
  then show ?thesis by (auto simp: FreeHandle_eq)
next
  case True
  let ?a = "pool s p h"
  have b: "Blocks s ?a = Some (unat (Size (pPoolList s p h)))" using pool_okD(3) [OF ok] True by simp
  have rel: "\<exists>r u. (if PoolType (pPoolList s p h) = POOL_TYPE_FILE
                  then release_file ?a s else Some (NOBREAK, s)) = Some (r, u)"
  proof (cases "PoolType (pPoolList s p h) = POOL_TYPE_FILE")
    case is_file: True
    then have size: "5 \<le> unat (Size (pPoolList s p h))" using f True by (simp add: files_ok_def)
    have m: "mem s (?a + of_nat k) \<noteq> None" if "k < 5" for k
      using span_mem [OF pool_ok_heap [OF ok] b] size that by simp
    have "release_file ?a s \<noteq> None"
      using m [of 0] m [of 1] m [of 2] m [of 3] m [of 4]
      by (auto simp: release_file_def layout_defs load32_def bind_conv)
    with is_file show ?thesis by auto
  qed simp
  then obtain r u where u: "(if PoolType (pPoolList s p h) = POOL_TYPE_FILE
                  then release_file ?a s else Some (NOBREAK, s)) = Some (r, u)" by blast
  have "Blocks u = Blocks s" "pool u p h = ?a"
    using u release_file_frame(1,2) by (auto simp: pool_def split: if_splits)
  then show ?thesis
    using True b u by (simp add: FreeHandle_eq cMemoryFree_def free_def)
qed

lemma free_handle_files:
  assumes ok: "pool_ok s" and f: "files_ok s" and run: "cMemoryFreeHandle p h s = Some (r, t)"
  shows "files_ok t"
  using f free_handle_ok(2) [OF ok run] by (auto simp: files_ok_def pool_def split: if_splits)

lemma free_handles_ok:
  assumes "pool_ok s" and "files_ok s"
  shows "\<exists>t. free_handles p hs s = Some t \<and> pool_ok t \<and> files_ok t \<and> Consts t = Consts s \<and>
     PathList t = PathList s \<and>
     (\<forall>p' h'. pool t p' h' = (if p' = p \<and> h' \<in> set hs then 0 else pool s p' h'))"
  using assms
proof (induction hs arbitrary: s)
  case (Cons h hs)
  from free_handle_total [OF Cons.prems] obtain r u
    where u: "cMemoryFreeHandle p h s = Some (r, u)" by blast
  have path: "PathList u = PathList s"
    using u by (auto simp: FreeHandle_eq release_file_def set_pool_def cMemoryFree_def free_def
        unmap_block_def bind_conv split: if_splits option.splits)
  have pu: "pool u p' h' = (if p' = p \<and> h' = h then 0 else pool s p' h')" for p' h'
    using free_handle_ok(2) [OF Cons.prems(1) u] pool_okD(1,2) [OF Cons.prems(1), of p h]
    by (auto simp: pool_def split: if_splits)
  from Cons.IH [OF free_handle_ok(1) [OF Cons.prems(1) u] free_handle_files [OF Cons.prems u]]
  show ?case using u pu path free_handle_ok(4) [OF Cons.prems(1) u] by auto
qed simp

lemma all_handles_iff: "h \<in> set all_handles \<longleftrightarrow> handle_ok h"
proof
  assume "h \<in> set all_handles"
  then show "handle_ok h" using handle_of_nat by (auto simp: all_handles_def)
next
  assume "handle_ok h"
  then have "unat h < MAX_HANDLES" by (simp add: handle_ok_nat)
  then show "h \<in> set all_handles"
    unfolding all_handles_def set_map by (intro image_eqI [of _ _ "unat h"]) simp_all
qed

lemma free_program_ok:
  assumes ok: "pool_ok s" and f: "files_ok s"
  shows "\<exists>t. cMemoryFreeProgram p s = Some t \<and> pool_ok t \<and> files_ok t \<and> Consts t = Consts s \<and>
     PathList t p = [] \<and> (\<forall>p' h'. pool t p' h' = (if p' = p then 0 else pool s p' h'))"
proof -
  obtain u where u: "free_handles p all_handles s = Some u" "pool_ok u" "files_ok u"
      "Consts u = Consts s"
      "\<And>p' h'. pool u p' h' = (if p' = p \<and> h' \<in> set all_handles then 0 else pool s p' h')"
    using free_handles_ok [OF ok f, of p all_handles] by blast
  let ?t = "u\<lparr>PathList := (PathList u)(p := [])\<rparr>"
  have "pool_ok ?t" by (rule pool_ok_frame [OF u(2)]) simp_all
  moreover have "files_ok ?t" using u(3) by (simp add: files_ok_def pool_def)
  moreover have "pool ?t p' h' = (if p' = p then 0 else pool s p' h')" for p' h'
    using u(5) [of p' h'] pool_okD(2) [OF ok, of p' h']
    by (auto simp: pool_def all_handles_iff split: if_splits)
  ultimately show ?thesis using u(1,4) by (simp add: cMemoryFreeProgram_def)
qed

subsection \<open>Reallocation\<close>

text \<open>A successful reallocation keeps the first bytes of the block and every other block;
  a failed one returns \<open>NULL\<close> and loses the handle's block.\<close>

lemma reallocate_cases:
  assumes ok: "pool_ok s" and p: "p < MAX_PROGRAMS s" and h: "handle_ok h"
  obtains (moved) a t where "cMemoryReallocate p h n s = Some (a, t)" "a \<noteq> 0" "pool_ok t"
      "0 < n" "unat n \<le> MAX_ARRAY_SIZE"
      "pPoolList t = (pPoolList s)(p := (pPoolList s p)(h :=
         (pPoolList s p h)\<lparr>Size := n, pPool := a\<rparr>))"
      "Consts t = Consts s" "others_kept (pool s p h) s t"
      "\<And>i. pool s p h \<noteq> 0 \<Longrightarrow> i < unat (Size (pPoolList s p h)) \<Longrightarrow> i < unat n \<Longrightarrow>
         mem t (a + of_nat i) = mem s (pool s p h + of_nat i)"
      "Blocks t = (if pool s p h = 0 then Blocks s else (Blocks s)(pool s p h := None))(a \<mapsto> unat n)"
      "(if pool s p h = 0 then Blocks s else (Blocks s)(pool s p h := None)) a = None"
  | (lost) t where "cMemoryReallocate p h n s = Some (0, t)" "pool_ok t" "mem t = mem s"
      "pPoolList t = (pPoolList s)(p := (pPoolList s p)(h := (pPoolList s p h)\<lparr>pPool := 0\<rparr>))"
      "Blocks t = Blocks s" "Consts t = Consts s"
proof (cases "n > 0 \<and> unat n \<le> MAX_ARRAY_SIZE")
  case False
  let ?t = "set_pool p h (\<lambda>e. e\<lparr>pPool := 0\<rparr>) s"
  have lists: "pPoolList ?t = (pPoolList s)(p := (pPoolList s p)(h := (pPoolList s p h)\<lparr>pPool := 0\<rparr>))"
    by (simp add: set_pool_def)
  have "pool_ok ?t"
    by (rule pool_ok_replace [OF ok _ lists _ p h])
      (use pool_ok_heap [OF ok] heap_ok_cong [of s ?t] in simp_all)
  then show thesis
    using False p h by (intro lost [of ?t]) (auto simp: cMemoryReallocate_def lists)
next
  case True
  let ?a = "pool s p h"
  have live: "?a = 0 \<or> Blocks s ?a \<noteq> None" using pool_okD(3) [OF ok, of p h] by auto
  from pool_ok_heap [OF ok] live conjunct1 [OF True] show thesis
  proof (cases rule: cMemoryRealloc_cases)
    case (moved a u)
    have same: "pPoolList u = pPoolList s" "Consts u = Consts s"
      by (subst moved(6), simp)+
    let ?t = "set_pool p h (\<lambda>e. e\<lparr>pPool := a\<rparr>) (set_pool p h (\<lambda>e. e\<lparr>Size := n\<rparr>) u)"
    have run: "cMemoryReallocate p h n s = Some (a, ?t)"
      using True p h moved(1) by (simp add: cMemoryReallocate_def)
    have lists: "pPoolList ?t = (pPoolList s)(p := (pPoolList s p)(h :=
        (pPoolList s p h)\<lparr>Size := n, pPool := a\<rparr>))"
      by (simp add: set_pool_def same)
    have kept: "Blocks ?t c = Some m" if "Blocks s c = Some m" "c \<noteq> ?a" for c m
      using moved(4,5) that by (cases "?a = 0") auto
    have "pool_ok ?t"
      by (rule pool_ok_replace [OF ok _ lists _ p h kept])
        (use moved(3,4,5) same heap_ok_cong [of u ?t] in \<open>auto split: if_splits\<close>)
    then show thesis
      using True run lists moved(2,4,5,7,8) same pool_okD(3) [OF ok, of p h]
      by (intro that(1) [of a ?t]) (auto simp: others_kept_def)
  next
    case failed
    let ?t = "set_pool p h (\<lambda>e. e\<lparr>pPool := 0\<rparr>) (s\<lparr>AllocNo := Suc (AllocNo s)\<rparr>)"
    have lists: "pPoolList ?t = (pPoolList s)(p := (pPoolList s p)(h := (pPoolList s p h)\<lparr>pPool := 0\<rparr>))"
      by (simp add: set_pool_def)
    have "pool_ok ?t"
      by (rule pool_ok_replace [OF ok _ lists _ p h])
        (use pool_ok_heap [OF ok] heap_ok_cong [of s ?t] in simp_all)
    then show thesis
      using True p h failed by (intro that(2) [of ?t]) (auto simp: cMemoryReallocate_def lists)
  qed
qed

subsection \<open>Properties\<close>

lemma alloc_files:
  assumes "pool_ok s" and "files_ok s" and "cMemoryAlloc p ty n s = Some (r, h, t)"
    and "ty \<noteq> POOL_TYPE_FILE \<or> 5 \<le> unat n"
  shows "files_ok t"
  using assms(1)
proof (cases rule: alloc_cases [of s p ty n])
  case (allocated a k v)
  then show ?thesis using assms by (auto simp: files_ok_def pool_def)
next
  case (refused v)
  then show ?thesis using assms by (auto simp: files_ok_def pool_def)
qed

text \<open>C15: a successful \<open>cMemoryAlloc\<close> hands out a handle that was free, for a
  block that no handle had, and leaves the other handles alone; freeing that handle
  succeeds, and leaves the table of handles and the blocks of the heap as they were before.\<close>

theorem alloc_then_free:
  assumes ok: "pool_ok s" and f: "files_ok s" and run: "cMemoryAlloc p ty n s = Some (Some a, h, t)"
    and size: "ty \<noteq> POOL_TYPE_FILE \<or> 5 \<le> unat n"
  shows "cMemoryGetPointer p h s = None \<and> cMemoryGetPointer p h t = Some a \<and>
    Blocks s a = None \<and> Blocks t a = Some (unat n) \<and>
    (\<forall>p' h'. (p', h') \<noteq> (p, h) \<longrightarrow> cMemoryGetPointer p' h' t = cMemoryGetPointer p' h' s) \<and>
    (\<exists>r v. cMemoryFreeHandle p h t = Some (r, v) \<and> pool_ok v \<and> Blocks v = Blocks s \<and>
       (\<forall>p' h'. cMemoryGetPointer p' h' v = cMemoryGetPointer p' h' s))"
proof -
  have t: "pool_ok t" using pools.alloc_total [OF ok, of p ty n] run by auto
  have a: "cMemoryGetPointer p h s = None" "cMemoryGetPointer p h t = Some a"
    using pools.alloc_get [OF ok run] by simp_all
  have blocks: "Blocks s a = None" "Blocks t = (Blocks s)(a \<mapsto> unat n)"
    using run by (auto intro: alloc_cases [OF ok, of p ty n])
  obtain r v where v: "cMemoryFreeHandle p h t = Some (r, v)"
    using free_handle_total [OF t alloc_files [OF ok f run size]] by blast
  have "Blocks v = Blocks s"
    using free_handle_ok(3) [OF t v] a(2) blocks by (auto simp: GetPointer_iff split: if_splits)
  moreover have "\<forall>p' h'. cMemoryGetPointer p' h' v = cMemoryGetPointer p' h' s"
    using pools.alloc_release [OF ok run v] by blast
  ultimately show ?thesis
    using a blocks v free_handle_ok(1) [OF t v] pools.alloc_other [OF ok run] by auto
qed

text \<open>C16: two allocations in a row give different handles and different blocks, and the first
  handle still has its block.\<close>

theorem alloc_distinct:
  assumes "pool_ok s" and "cMemoryAlloc p ty n s = Some (Some a, h, t)"
    and "cMemoryAlloc p' ty' m t = Some (Some b, k, v)"
  shows "(p, h) \<noteq> (p', k) \<and> a \<noteq> b \<and> cMemoryGetPointer p h v = Some a \<and> cMemoryGetPointer p' k v = Some b"
proof -
  have "pool_ok t" using pools.alloc_total [OF assms(1)] assms(2) by (metis Pair_inject option.inject)
  then show ?thesis
    using pools.alloc_twice_distinct [OF assms] pools.alloc_get [OF _ assms(3)] by simp
qed

text \<open>C17: \<open>cMemoryReallocate\<close> of a handle always returns; if it succeeds, the block has
  the new size and keeps the bytes that fit; if it fails, it returns \<open>NULL\<close> and the handle
  is free, although the old block is still allocated: no handle has it any more.\<close>

theorem reallocate:
  assumes ok: "pool_ok s" and p: "p < MAX_PROGRAMS s" and h: "handle_ok h"
  shows "\<exists>a t. cMemoryReallocate p h n s = Some (a, t) \<and> pool_ok t \<and> pool t p h = a \<and>
    (\<forall>p' h'. (p', h') \<noteq> (p, h) \<longrightarrow> pool t p' h' = pool s p' h') \<and>
    (if a \<noteq> 0 then 0 < n \<and> unat n \<le> MAX_ARRAY_SIZE \<and> Blocks t a = Some (unat n) \<and>
       (\<forall>i. pool s p h \<noteq> 0 \<and> i < unat (Size (pPoolList s p h)) \<and> i < unat n \<longrightarrow>
          mem t (a + of_nat i) = mem s (pool s p h + of_nat i))
     else Blocks t = Blocks s \<and> (pool s p h \<noteq> 0 \<longrightarrow> (\<forall>p' h'. pool t p' h' \<noteq> pool s p h)))"
  using assms
proof (cases rule: reallocate_cases [of s p h n])
  case (moved a t)
  have "pool t p' h' = (if p' = p \<and> h' = h then a else pool s p' h')" for p' h'
    by (simp add: pool_def moved(6))
  moreover have "Blocks t a = Some (unat n)"
    using pool_okD(3) [OF moved(3), of p h] moved(2,6) by (simp add: pool_def)
  ultimately show ?thesis using moved by (intro exI [of _ a] exI [of _ t]) auto
next
  case (lost t)
  have same: "pool t p' h' = (if p' = p \<and> h' = h then 0 else pool s p' h')" for p' h'
    by (simp add: pool_def lost(4))
  have "pool t p' h' \<noteq> pool s p h" if "pool s p h \<noteq> 0" for p' h'
    using pool_ok_inj [OF ok that, of p' h'] that by (auto simp: same)
  then show ?thesis using lost same by (intro exI [of _ 0] exI [of _ t]) auto
qed

text \<open>\<open>cMemoryFreeProgram\<close> returns, and frees exactly the handles of the program.\<close>

theorem free_program:
  assumes "pool_ok s" and "files_ok s"
  shows "\<exists>t. cMemoryFreeProgram p s = Some t \<and> pool_ok t \<and> PathList t p = [] \<and>
    (\<forall>p' h. cMemoryGetPointer p' h t = (if p' = p then None else cMemoryGetPointer p' h s))"
proof -
  obtain t where t: "cMemoryFreeProgram p s = Some t" "pool_ok t" "Consts t = Consts s" "PathList t p = []"
      "\<forall>p' h'. pool t p' h' = (if p' = p then 0 else pool s p' h')"
    using free_program_ok [OF assms, of p] by blast
  then show ?thesis by (simp add: GetPointer_iff MAX_PROGRAMS_def)
qed

end
