(* ===== verification/VM_Params.thy ===== *)
theory VM_Params
  imports VM_Memory
begin

text \<open>
  Byte code parameters: \<open>PrimParPointer\<close> and \<open>PrimParAdvance\<close> of \<open>lms2012.c\<close>, which
  decode the next parameter of the byte code stream, the small functions of the same file
  that move the instruction pointer, and an abstract syntax of parameters (\<open>operand\<close>) with
  the encoding the macros of \<open>bytecodes.h\<close> give it. The decoder is proved to invert the
  encoding; byte codes that read their parameters and write one result are executed once,
  in the locale \<open>cell\<close>.
\<close>

subsection \<open>The code\<close>

text \<open>\<open>*((IMGDATA*)VMInstance.ObjectIp++)\<close>\<close>

definition fetch :: "vm \<Rightarrow> (UBYTE \<times> vm) option" where
  "fetch s = do { b \<leftarrow> mem s (ObjectIp s); Some (b, s\<lparr>ObjectIp := ObjectIp s + 1\<rparr>) }"

definition fetch_or :: "nat \<Rightarrow> vm \<Rightarrow> vm option" where
  "fetch_or k s = do {
     (b, s) \<leftarrow> fetch s;
     Some (s\<lparr>Value := Value s OR push_bit k (ucast b)\<rparr>)
   }"

definition fetch_1 :: "vm \<Rightarrow> vm option" where
  "fetch_1 s = do { (b, s) \<leftarrow> fetch s; Some (s\<lparr>Value := ucast b\<rparr>) }"

definition fetch_2 :: "vm \<Rightarrow> vm option" where
  "fetch_2 s = do { s \<leftarrow> fetch_1 s; fetch_or 8 s }"

definition fetch_4 :: "vm \<Rightarrow> vm option" where
  "fetch_4 s = do { s \<leftarrow> fetch_1 s; s \<leftarrow> fetch_or 8 s; s \<leftarrow> fetch_or 16 s; fetch_or 24 s }"

partial_function (option) skip_string :: "(ULONG \<rightharpoonup> UBYTE) \<Rightarrow> ULONG \<Rightarrow> ULONG option" where
  "skip_string m ip = (case m ip of
     None \<Rightarrow> None
   | Some b \<Rightarrow> if b \<noteq> 0 then skip_string m (ip + 1) else Some (ip + 1))"

definition flag :: "UBYTE \<Rightarrow> UBYTE \<Rightarrow> bool" where
  "flag Data f \<longleftrightarrow> Data AND f \<noteq> 0"

definition variable_ptr :: "UBYTE \<Rightarrow> vm \<Rightarrow> ptr" where
  "variable_ptr Data s =
     (if flag Data PRIMPAR_GLOBAL then PtrMem (pGlobal s + Value s)
      else PtrMem (ObjectLocal s + Value s))"

text \<open>The branches of \<open>PrimParPointer\<close>: a long variable, a label, a long constant and the
  indirection through a handle or an address that ends the long format.\<close>

definition long_variable :: "UBYTE \<Rightarrow> vm \<Rightarrow> (ptr \<times> vm) option" where
  "long_variable Data s = do {
     s \<leftarrow> (if Data AND PRIMPAR_BYTES = PRIMPAR_1_BYTE then fetch_1 s
          else if Data AND PRIMPAR_BYTES = PRIMPAR_2_BYTES then fetch_2 s
          else if Data AND PRIMPAR_BYTES = PRIMPAR_4_BYTES then fetch_4 s
          else Some s);
     Some (variable_ptr Data s, s)
   }"

definition label_of :: "vm \<Rightarrow> ULONG \<Rightarrow> ULONG option" where
  "label_of s v = do {
     P \<leftarrow> Program s (ProgramId s);
     Some (prg_Label P (unat v) - (ObjectIp s - prg_pImage P))
   }"

definition label_constant :: "vm \<Rightarrow> (ptr \<times> vm) option" where
  "label_constant s = do {
     s \<leftarrow> fetch_1 s;
     if 0 < Value s \<and> Value s < MAX_LABELS then do {
       v \<leftarrow> label_of s (Value s);
       Some (PtrValue 0, s\<lparr>Value := v\<rparr>)
     }
     else Some (PtrValue 0, s)
   }"

definition long_constant :: "UBYTE \<Rightarrow> vm \<Rightarrow> (ptr \<times> vm) option" where
  "long_constant Data s =
     (if Data AND PRIMPAR_BYTES = PRIMPAR_STRING_OLD \<or> Data AND PRIMPAR_BYTES = PRIMPAR_STRING
      then do {
        let Result = PtrMem (ObjectIp s);
        ip \<leftarrow> skip_string (mem s) (ObjectIp s);
        Some (Result, s\<lparr>ObjectIp := ip\<rparr>)
      }
      else if Data AND PRIMPAR_BYTES = PRIMPAR_1_BYTE then do {
        s \<leftarrow> fetch_1 s;
        Some (PtrValue 0,
          if Value s AND 0x00000080 \<noteq> 0 then s\<lparr>Value := Value s OR 0xFFFFFF00\<rparr> else s)
      }
      else if Data AND PRIMPAR_BYTES = PRIMPAR_2_BYTES then do {
        s \<leftarrow> fetch_2 s;
        Some (PtrValue 0,
          if Value s AND 0x00008000 \<noteq> 0 then s\<lparr>Value := Value s OR 0xFFFF0000\<rparr> else s)
      }
      else if Data AND PRIMPAR_BYTES = PRIMPAR_4_BYTES then do {
        s \<leftarrow> fetch_4 s;
        Some (PtrValue 0, s)
      }
      else Some (PtrValue 0, s))"

definition indirection :: "UBYTE \<Rightarrow> ptr \<times> vm \<Rightarrow> (ptr \<times> vm) option" where
  "indirection Data = (\<lambda>(Result, s).
     (if flag Data PRIMPAR_HANDLE then do {
        h \<leftarrow> load16 s Result;
        let s = s\<lparr>Handle := h\<rparr>;
        Some (case cMemoryArraryPointer (ProgramId s) h s of None \<Rightarrow> Result | Some p \<Rightarrow> PtrMem p, s)
      }
      else if flag Data PRIMPAR_ADDR then do {
        a \<leftarrow> load32 s Result;
        Some (PtrMem a, s\<lparr>Value := a\<rparr>)
      }
      else Some (Result, s)))"

definition PrimParPointer :: "vm \<Rightarrow> (ptr \<times> vm) option" where
  "PrimParPointer s = do {
     (Data, s) \<leftarrow> fetch s;
     let s = s\<lparr>Handle := - 1\<rparr>;
     if flag Data PRIMPAR_LONG then do {
       (Result, s) \<leftarrow>
         (if flag Data PRIMPAR_VARIABLE then long_variable Data s
          else if flag Data PRIMPAR_LABEL then label_constant s
          else long_constant Data s);
       indirection Data (Result, s)
     }
     else if flag Data PRIMPAR_VARIABLE then do {
       let s = s\<lparr>Value := ucast (Data AND PRIMPAR_INDEX)\<rparr>;
       Some (variable_ptr Data s, s)
     }
     else do {
       let s = s\<lparr>Value := ucast (Data AND PRIMPAR_VALUE)\<rparr>;
       Some (PtrValue 0,
         if flag Data PRIMPAR_CONST_SIGN then s\<lparr>Value := Value s OR NOT (ucast PRIMPAR_VALUE)\<rparr> else s)
     }
   }"

definition advance :: "ULONG \<Rightarrow> vm \<Rightarrow> vm option" where
  "advance n s = Some (s\<lparr>ObjectIp := ObjectIp s + n\<rparr>)"

definition PrimParAdvance :: "vm \<Rightarrow> vm option" where
  "PrimParAdvance s = do {
     (Data, s) \<leftarrow> fetch s;
     let n = Data AND PRIMPAR_BYTES;
     if flag Data PRIMPAR_LONG then
       (if flag Data PRIMPAR_VARIABLE then
          (if n = PRIMPAR_1_BYTE then advance 1 s
           else if n = PRIMPAR_2_BYTES then advance 2 s
           else if n = PRIMPAR_4_BYTES then advance 4 s
           else Some s)
        else if flag Data PRIMPAR_LABEL then advance 1 s
        else if n = PRIMPAR_STRING_OLD \<or> n = PRIMPAR_STRING then do {
          ip \<leftarrow> skip_string (mem s) (ObjectIp s);
          Some (s\<lparr>ObjectIp := ip\<rparr>)
        }
        else if n = PRIMPAR_1_BYTE then advance 1 s
        else if n = PRIMPAR_2_BYTES then advance 2 s
        else if n = PRIMPAR_4_BYTES then advance 4 s
        else Some s)
     else Some s
   }"

text \<open>The interface of \<open>lms2012.c\<close> to the instruction pointer and the dispatch status.\<close>

definition SetDispatchStatus :: "DSPSTAT \<Rightarrow> vm \<Rightarrow> vm" where
  "SetDispatchStatus DspStat s =
     (let s = s\<lparr>DispatchStatus := DspStat\<rparr> in
      if DispatchStatus s \<noteq> NOBREAK then s\<lparr>Priority := 0\<rparr> else s)"

definition SetInstructions :: "ULONG \<Rightarrow> vm \<Rightarrow> vm" where
  "SetInstructions Instructions s =
     (if Instructions \<le> PRG_PRIORITY then s\<lparr>Priority := Instructions\<rparr> else s)"

definition AdjustObjectIp :: "ULONG \<Rightarrow> vm \<Rightarrow> vm" where
  "AdjustObjectIp v s = s\<lparr>ObjectIp := ObjectIp s + v\<rparr>"

definition GetObjectIp :: "vm \<Rightarrow> ULONG" where
  "GetObjectIp s = ObjectIp s"

definition SetObjectIp :: "ULONG \<Rightarrow> vm \<Rightarrow> vm" where
  "SetObjectIp ip s = s\<lparr>ObjectIp := ip\<rparr>"

definition CallingObjectId :: "vm \<Rightarrow> OBJID" where
  "CallingObjectId s = ObjectId s"

definition CurrentProgramId :: "vm \<Rightarrow> PRGID" where
  "CurrentProgramId s = ProgramId s"

definition ProgramStatus :: "PRGID \<Rightarrow> vm \<Rightarrow> OBJSTAT option" where
  "ProgramStatus p s = map_option prg_Status (Program s p)"

definition ProgramStatusChange :: "PRGID \<Rightarrow> vm \<Rightarrow> (OBJSTAT \<times> vm) option" where
  "ProgramStatusChange p s = do {
     P \<leftarrow> Program s p;
     Some (prg_StatusChange P, s\<lparr>Program := (Program s)(p \<mapsto> P\<lparr>prg_StatusChange := STATUS0\<rparr>)\<rparr>)
   }"

definition GetImageStart :: "vm \<Rightarrow> ULONG" where
  "GetImageStart s = pImage s"

definition CurrentObjectIp :: "vm \<Rightarrow> ULONG" where
  "CurrentObjectIp s = ObjectIp s - pImage s"

definition VmMemoryResize :: "HANDLER \<Rightarrow> DATA32 \<Rightarrow> vm \<Rightarrow> (ULONG \<times> vm) option" where
  "VmMemoryResize h Elements s = cMemoryResize (ProgramId s) h Elements s"

text \<open>Reading a parameter as a value of one width, and writing the result of a byte code
  to its last parameter: \<open>*(DATA8*)PrimParPointer()\<close> and so on.\<close>

definition par_get :: "(vm \<Rightarrow> ptr \<Rightarrow> 'a option) \<Rightarrow> vm \<Rightarrow> ('a \<times> vm) option" where
  "par_get ld s = do { (p, s) \<leftarrow> PrimParPointer s; x \<leftarrow> ld s p; Some (x, s) }"

definition par_put :: "(vm \<Rightarrow> ptr \<Rightarrow> 'a \<Rightarrow> vm option) \<Rightarrow> 'a \<Rightarrow> vm \<Rightarrow> vm option" where
  "par_put st x s = do { (p, s) \<leftarrow> PrimParPointer s; st s p x }"

abbreviation get8 :: "vm \<Rightarrow> (UBYTE \<times> vm) option" where "get8 \<equiv> par_get load8"
abbreviation get16 :: "vm \<Rightarrow> (UWORD \<times> vm) option" where "get16 \<equiv> par_get load16"
abbreviation get32 :: "vm \<Rightarrow> (ULONG \<times> vm) option" where "get32 \<equiv> par_get load32"
abbreviation put8 :: "UBYTE \<Rightarrow> vm \<Rightarrow> vm option" where "put8 \<equiv> par_put store8"
abbreviation put16 :: "UWORD \<Rightarrow> vm \<Rightarrow> vm option" where "put16 \<equiv> par_put store16"
abbreviation put32 :: "ULONG \<Rightarrow> vm \<Rightarrow> vm option" where "put32 \<equiv> par_put store32"

subsection \<open>Abstract parameters and their encoding\<close>

datatype width = W0 | W1 | W2 | W4

datatype scope = Local | Global

datatype operand =
    Const width ULONG
  | Str "UBYTE list"
  | Var scope width ULONG
  | Hnd scope width ULONG
  | Adr scope width ULONG
  | Lab ULONG

fun enc_var :: "scope \<Rightarrow> width \<Rightarrow> ULONG \<Rightarrow> UBYTE list" where
  "enc_var Local W0 i = LV0 i"
| "enc_var Local W1 i = LV1 i"
| "enc_var Local W2 i = LV2 i"
| "enc_var Local W4 i = LV4 i"
| "enc_var Global W0 i = GV0 i"
| "enc_var Global W1 i = GV1 i"
| "enc_var Global W2 i = GV2 i"
| "enc_var Global W4 i = GV4 i"

text \<open>\<open>HND(x)\<close> and \<open>ADR(x)\<close> change the first byte of the encoding they are applied to.\<close>

definition HND :: "UBYTE list \<Rightarrow> UBYTE list" where
  "HND x = (PRIMPAR_HANDLE OR hd x) # tl x"

definition ADR :: "UBYTE list \<Rightarrow> UBYTE list" where
  "ADR x = (PRIMPAR_ADDR OR hd x) # tl x"

fun enc :: "operand \<Rightarrow> UBYTE list" where
  "enc (Const W0 v) = LC0 v"
| "enc (Const W1 v) = LC1 v"
| "enc (Const W2 v) = LC2 v"
| "enc (Const W4 v) = LC4 v"
| "enc (Str cs) = LCS # cs @ [0]"
| "enc (Var sc w i) = enc_var sc w i"
| "enc (Hnd sc w i) = HND (enc_var sc w i)"
| "enc (Adr sc w i) = ADR (enc_var sc w i)"
| "enc (Lab i) = LAB1 i"

fun index_fits :: "width \<Rightarrow> ULONG \<Rightarrow> bool" where
  "index_fits W0 i = (take_bit 5 i = i)"
| "index_fits W1 i = (take_bit 8 i = i)"
| "index_fits W2 i = (take_bit 16 i = i)"
| "index_fits W4 i = True"

fun wf :: "operand \<Rightarrow> bool" where
  "wf (Const W0 v) = (signed_take_bit 5 v = v)"
| "wf (Const W1 v) = (signed_take_bit 7 v = v)"
| "wf (Const W2 v) = (signed_take_bit 15 v = v)"
| "wf (Const W4 v) = True"
| "wf (Str cs) = (0 \<notin> set cs)"
| "wf (Var sc w i) = index_fits w i"
| "wf (Hnd sc w i) = (w \<noteq> W0 \<and> index_fits w i)"
| "wf (Adr sc w i) = (w \<noteq> W0 \<and> index_fits w i)"
| "wf (Lab i) = (take_bit 8 i = i)"

fun base :: "scope \<Rightarrow> vm \<Rightarrow> ULONG" where
  "base Local s = ObjectLocal s"
| "base Global s = pGlobal s"

text \<open>What a parameter denotes: a pointer, and the contents of \<open>Value\<close> and \<open>Handle\<close>
  after it has been decoded.\<close>

fun denote :: "vm \<Rightarrow> operand \<Rightarrow> (ptr \<times> ULONG \<times> HANDLER) option" where
  "denote s (Const w v) = Some (PtrValue 0, v, - 1)"
| "denote s (Str cs) = Some (PtrMem (ObjectIp s + 1), Value s, - 1)"
| "denote s (Var sc w i) = Some (PtrMem (base sc s + i), i, - 1)"
| "denote s (Hnd sc w i) = do {
     h \<leftarrow> load16 s (PtrMem (base sc s + i));
     Some (PtrMem (case cMemoryArraryPointer (ProgramId s) h s of None \<Rightarrow> base sc s + i | Some p \<Rightarrow> p), i, h)
   }"
| "denote s (Adr sc w i) = do {
     a \<leftarrow> load32 s (PtrMem (base sc s + i));
     Some (PtrMem a, a, - 1)
   }"
| "denote s (Lab i) =
     (if 0 < i \<and> i < MAX_LABELS then do {
        v \<leftarrow> label_of (s\<lparr>ObjectIp := ObjectIp s + 2\<rparr>) i;
        Some (PtrValue 0, v, - 1)
      }
      else Some (PtrValue 0, i, - 1))"

fun code_at :: "vm \<Rightarrow> ULONG \<Rightarrow> UBYTE list \<Rightarrow> bool" where
  "code_at s a [] = True"
| "code_at s a (b # bs) = (mem s a = Some b \<and> code_at s (a + 1) bs)"

subsection \<open>Decoding inverts encoding\<close>

lemma code_at_append:
  "code_at s a (xs @ ys) \<longleftrightarrow> code_at s a xs \<and> code_at s (a + of_nat (length xs)) ys"
  by (induction xs arbitrary: a) (simp_all add: add.assoc)

lemma code_at_cong: "mem s = mem t \<Longrightarrow> code_at s a bs = code_at t a bs"
  by (induction bs arbitrary: a) simp_all

lemma skip_string_code:
  "code_at s a (cs @ [0]) \<Longrightarrow> 0 \<notin> set cs \<Longrightarrow> skip_string (mem s) a = Some (a + of_nat (length cs) + 1)"
  by (induction cs arbitrary: a) (auto simp: skip_string.simps add.assoc)

lemma and_exp_bit: "w AND 2 ^ n \<noteq> 0 \<longleftrightarrow> bit w n" for w :: "'a::len word"
  by (simp add: and_exp_eq_0_iff_not_bit)

lemma sign_bits:
  "v AND 0x80 \<noteq> 0 \<longleftrightarrow> bit v 7" "v AND 0x8000 \<noteq> 0 \<longleftrightarrow> bit v 15" for v :: ULONG
  using and_exp_bit [of v 7] and_exp_bit [of v 15] by simp_all

lemma flag_bits:
  "flag d PRIMPAR_LONG \<longleftrightarrow> bit d 7" "flag d PRIMPAR_VARIABLE \<longleftrightarrow> bit d 6"
  "flag d PRIMPAR_GLOBAL \<longleftrightarrow> bit d 5" "flag d PRIMPAR_LABEL \<longleftrightarrow> bit d 5"
  "flag d PRIMPAR_CONST_SIGN \<longleftrightarrow> bit d 5"
  "flag d PRIMPAR_HANDLE \<longleftrightarrow> bit d 4" "flag d PRIMPAR_ADDR \<longleftrightarrow> bit d 3"
  using and_exp_bit [of d 7] and_exp_bit [of d 6] and_exp_bit [of d 5] and_exp_bit [of d 4]
    and_exp_bit [of d 3]
  by (simp_all add: flag_def primpar_defs)

lemma masks32: "(0xFFFFFF00 :: ULONG) = NOT (mask 8)" "(0xFFFF0000 :: ULONG) = NOT (mask 16)"
  "(0x3F :: ULONG) = mask 6"
  by (simp_all add: mask_eq_exp_minus_1)

lemma masks8: "(0x1F :: UBYTE) = mask 5" "(0x3F :: UBYTE) = mask 6"
  by (simp_all add: mask_eq_exp_minus_1)

lemma signed_bits:
  fixes v :: ULONG
  assumes "signed_take_bit n v = v" and "n < i" and "i < 32"
  shows "bit v i \<longleftrightarrow> bit v n"
proof -
  have "bit v i = bit (signed_take_bit n v) i" by (simp add: assms)
  with assms(2,3) show ?thesis by (simp add: bit_signed_take_bit_iff min_def)
qed

lemma take_bits:
  fixes v :: ULONG
  assumes "take_bit n v = v" and "n \<le> i"
  shows "\<not> bit v i"
proof -
  have "bit v i = bit (take_bit n v) i" by (simp add: assms)
  with assms(2) show ?thesis by (simp add: bit_take_bit_iff)
qed

text \<open>The values of a short constant, a one byte and a two byte constant, and the
  indices of one and two bytes.\<close>

lemma const0_value:
  fixes v :: ULONG
  assumes "signed_take_bit 5 v = v"
  shows "(if bit v 5
      then (ucast (ucast v AND 0x3F AND 0x3F :: UBYTE) :: ULONG) OR NOT (ucast (0x3F :: UBYTE))
      else ucast (ucast v AND 0x3F AND 0x3F :: UBYTE)) = v"
  unfolding masks8
proof (rule bit_word_eqI)
  fix i assume i: "i < LENGTH(32)"
  show "bit (if bit v 5
      then (ucast (ucast v AND mask 6 AND mask 6 :: UBYTE) :: ULONG) OR NOT (ucast (mask 6 :: UBYTE))
      else ucast (ucast v AND mask 6 AND mask 6 :: UBYTE)) i = bit v i"
    using i signed_bits [OF assms, of i]
    by (cases "5 < i") (auto simp: bit_and_iff bit_or_iff bit_not_iff bit_ucast_iff bit_mask_iff not_less)
qed

lemma const1_value:
  fixes v :: ULONG
  assumes "signed_take_bit 7 v = v"
  shows "(if bit v 7 then (ucast (byte_of v 0) :: ULONG) OR 0xFFFFFF00
      else ucast (byte_of v 0)) = v"
  unfolding masks32
proof (rule bit_word_eqI)
  fix i assume i: "i < LENGTH(32)"
  show "bit (if bit v 7 then (ucast (byte_of v 0) :: ULONG) OR NOT (mask 8)
      else ucast (byte_of v 0)) i = bit v i"
    using i signed_bits [OF assms, of i]
    by (cases "7 < i") (auto simp: bit_or_iff bit_not_iff bit_ucast_iff bit_mask_iff byte_of_nth not_less)
qed

lemma const2_value:
  fixes v :: ULONG
  assumes "signed_take_bit 15 v = v"
  shows "(if bit v 15 then (ucast (byte_of v 0) OR push_bit 8 (ucast (byte_of v 1)) :: ULONG) OR 0xFFFF0000
      else ucast (byte_of v 0) OR push_bit 8 (ucast (byte_of v 1))) = v"
  unfolding masks32
proof (rule bit_word_eqI)
  fix i assume i: "i < LENGTH(32)"
  consider "i < 8" | "8 \<le> i" "i < 16" | "16 \<le> i" by linarith
  then show "bit (if bit v 15
      then (ucast (byte_of v 0) OR push_bit 8 (ucast (byte_of v 1)) :: ULONG) OR NOT (mask 16)
      else ucast (byte_of v 0) OR push_bit 8 (ucast (byte_of v 1))) i = bit v i"
    using i signed_bits [OF assms, of i]
    by cases (auto simp: bit_or_iff bit_not_iff bit_ucast_iff bit_mask_iff bit_push_bit_iff byte_of_nth)
qed

lemma index_value:
  fixes v :: ULONG
  shows "take_bit 5 v = v \<Longrightarrow> (ucast ((ucast v AND 0x1F) AND 0x1F :: UBYTE) :: ULONG) = v"
    and "take_bit 8 v = v \<Longrightarrow> ucast (byte_of v 0) = v"
    and "take_bit 16 v = v \<Longrightarrow> ucast (byte_of v 0) OR push_bit 8 (ucast (byte_of v 1)) = v"
proof -
  assume a: "take_bit 5 v = v"
  show "(ucast ((ucast v AND 0x1F) AND 0x1F :: UBYTE) :: ULONG) = v"
    unfolding masks8
  proof (rule bit_word_eqI)
    fix i assume "i < LENGTH(32)"
    then show "bit (ucast ((ucast v AND mask 5) AND mask 5 :: UBYTE) :: ULONG) i = bit v i"
      using take_bits [OF a, of i]
      by (cases "5 \<le> i") (auto simp: bit_and_iff bit_ucast_iff bit_mask_iff)
  qed
next
  assume a: "take_bit 8 v = v"
  show "ucast (byte_of v 0) = v"
  proof (rule bit_word_eqI)
    fix i assume "i < LENGTH(32)"
    then show "bit (ucast (byte_of v 0) :: ULONG) i = bit v i"
      using take_bits [OF a, of i] by (cases "8 \<le> i") (auto simp: bit_ucast_iff byte_of_nth)
  qed
next
  assume a: "take_bit 16 v = v"
  show "ucast (byte_of v 0) OR push_bit 8 (ucast (byte_of v 1)) = v"
  proof (rule bit_word_eqI)
    fix i assume "i < LENGTH(32)"
    consider "i < 8" | "8 \<le> i" "i < 16" | "16 \<le> i" by linarith
    then show "bit (ucast (byte_of v 0) OR push_bit 8 (ucast (byte_of v 1)) :: ULONG) i = bit v i"
      using take_bits [OF a, of i]
      by cases (auto simp: bit_or_iff bit_ucast_iff bit_push_bit_iff byte_of_nth)
  qed
qed

lemma fetch_run: "fetch s = Some (b, t) \<longleftrightarrow> mem s (ObjectIp s) = Some b \<and> t = s\<lparr>ObjectIp := ObjectIp s + 1\<rparr>"
  by (auto simp: fetch_def bind_conv)

lemma fetch_1_code:
  "mem s (ObjectIp s) = Some b \<Longrightarrow>
    fetch_1 s = Some (s\<lparr>ObjectIp := ObjectIp s + 1, Value := ucast b\<rparr>)"
  by (simp add: fetch_1_def fetch_def)

lemma fetch_2_code:
  "code_at s (ObjectIp s) [b0, b1] \<Longrightarrow>
    fetch_2 s = Some (s\<lparr>ObjectIp := ObjectIp s + 2, Value := ucast b0 OR push_bit 8 (ucast b1)\<rparr>)"
  by (simp add: fetch_2_def fetch_1_code fetch_or_def fetch_def add.assoc)

lemma fetch_4_code:
  "code_at s (ObjectIp s) [b0, b1, b2, b3] \<Longrightarrow>
    fetch_4 s = Some (s\<lparr>ObjectIp := ObjectIp s + 4, Value := ucast b0 OR push_bit 8 (ucast b1)
      OR push_bit 16 (ucast b2) OR push_bit 24 (ucast b3)\<rparr>)"
  by (simp add: fetch_4_def fetch_1_code fetch_or_def fetch_def add.assoc or.assoc)

lemma ucast_bit5: "bit (ucast v AND 0x3F :: UBYTE) 5 = bit v 5" for v :: ULONG
  unfolding masks8 by (simp add: bit_and_iff bit_ucast_iff bit_mask_iff)

lemma short_flags:
  "\<not> bit (ucast v AND 0x3F :: UBYTE) 7" "\<not> bit (ucast v AND 0x3F :: UBYTE) 6"
  "\<not> bit (ucast v AND 0x1F OR 0x40 :: UBYTE) 7" "bit (ucast v AND 0x1F OR 0x40 :: UBYTE) 6"
  "\<not> bit (ucast v AND 0x1F OR 0x40 :: UBYTE) 5"
  "\<not> bit (ucast v AND 0x1F OR 0x60 :: UBYTE) 7"
  "bit (ucast v AND 0x1F OR 0x60 :: UBYTE) 6"
  "bit (ucast v AND 0x1F OR 0x60 :: UBYTE) 5" for v :: ULONG
  unfolding masks8 by (simp_all add: bit_and_iff bit_or_iff bit_mask_iff bit_numeral_rec)

lemma short_index: "(ucast v AND 0x1F OR 0x40 :: UBYTE) AND 0x1F = ucast v AND 0x1F AND 0x1F"
  "(ucast v AND 0x1F OR 0x60 :: UBYTE) AND 0x1F = ucast v AND 0x1F AND 0x1F" for v :: ULONG
  by (simp_all add: bit.conj_disj_distrib2)

lemma decode_const:
  assumes c: "code_at s (ObjectIp s) (enc (Const w v))" and wf: "wf (Const w v)"
  shows "PrimParPointer s = Some (PtrValue 0,
    s\<lparr>ObjectIp := ObjectIp s + of_nat (length (enc (Const w v))), Value := v, Handle := - 1\<rparr>)"
proof (cases w)
  case W0
  then have m: "mem s (ObjectIp s) = Some (ucast v AND 0x3F)" and f: "signed_take_bit 5 v = v"
    using c wf by (simp_all add: LC0_def PRIMPAR_VALUE_def)
  show ?thesis
    using m const0_value [OF f]
    by (simp add: W0 PrimParPointer_def fetch_def Let_def flag_bits short_flags ucast_bit5 LC0_def
        PRIMPAR_VALUE_def split: if_splits)
next
  case W1
  have f: "signed_take_bit 7 v = v" using wf W1 by simp
  have code: "mem s (ObjectIp s) = Some 0x81" "code_at s (ObjectIp s + 1) [byte_of v 0]"
    using c by (simp_all add: W1 LC1_def primpar_defs)
  show ?thesis
    using code const1_value [OF f]
    by (simp add: W1 PrimParPointer_def fetch_def Let_def flag_def primpar_defs long_constant_def
        indirection_def fetch_1_code sign_bits bit_ucast_iff byte_of_nth LC1_def split: if_splits)
next
  case W2
  have f: "signed_take_bit 15 v = v" using wf W2 by simp
  have code: "mem s (ObjectIp s) = Some 0x82" "code_at s (ObjectIp s + 1) [byte_of v 0, byte_of v 1]"
    using c by (simp_all add: W2 LC2_def primpar_defs)
  show ?thesis
    using code const2_value [OF f]
    by (simp add: W2 PrimParPointer_def fetch_def Let_def flag_def primpar_defs long_constant_def
        indirection_def fetch_2_code sign_bits bit_or_iff bit_push_bit_iff bit_ucast_iff byte_of_nth
        LC2_def add.assoc split: if_splits)
next
  case W4
  have code: "mem s (ObjectIp s) = Some 0x83"
      "code_at s (ObjectIp s + 1) [byte_of v 0, byte_of v 1, byte_of v 2, byte_of v 3]"
    using c by (simp_all add: W4 LC4_def primpar_defs)
  show ?thesis
    using code
    by (simp add: W4 PrimParPointer_def fetch_def Let_def flag_def primpar_defs long_constant_def
        indirection_def fetch_4_code word32_bytes LC4_def add.assoc)
qed

text \<open>A long variable: its first byte and the bytes of its index.\<close>

fun index_bytes :: "width \<Rightarrow> ULONG \<Rightarrow> UBYTE list" where
  "index_bytes W0 i = []"
| "index_bytes W1 i = [byte_of i 0]"
| "index_bytes W2 i = [byte_of i 0, byte_of i 1]"
| "index_bytes W4 i = [byte_of i 0, byte_of i 1, byte_of i 2, byte_of i 3]"

fun width_code :: "width \<Rightarrow> UBYTE" where
  "width_code W0 = 0" | "width_code W1 = 1" | "width_code W2 = 2" | "width_code W4 = 3"

definition first_byte :: "scope \<Rightarrow> width \<Rightarrow> UBYTE" where
  "first_byte sc w = 0xC0 OR (case sc of Local \<Rightarrow> 0 | Global \<Rightarrow> 0x20) OR width_code w"

lemma enc_long: "w \<noteq> W0 \<Longrightarrow> enc_var sc w i = first_byte sc w # index_bytes w i"
  by (cases sc; cases w) (simp_all add: enc_defs primpar_defs first_byte_def)

lemma variable_length: "w \<noteq> W0 \<Longrightarrow> length (enc_var sc w i) = Suc (length (index_bytes w i))"
  by (simp add: enc_long)

lemma long_variable_code:
  assumes w: "w \<noteq> W0" and i: "index_fits w i" and d: "d AND PRIMPAR_BYTES = width_code w"
    and c: "code_at s (ObjectIp s) (index_bytes w i)"
  shows "long_variable d s = Some (variable_ptr d (s\<lparr>Value := i\<rparr>),
    s\<lparr>ObjectIp := ObjectIp s + of_nat (length (index_bytes w i)), Value := i\<rparr>)"
proof (cases w)
  case W0
  with w show ?thesis by simp
next
  case W1
  have f: "take_bit 8 i = i" using i W1 by simp
  show ?thesis
    using c d by (simp add: W1 long_variable_def primpar_defs variable_ptr_def fetch_1_code
        index_value(2) [OF f])
next
  case W2
  have f: "take_bit 16 i = i" using i W2 by simp
  show ?thesis
    using fetch_2_code [of s "byte_of i 0" "byte_of i 1"] c d index_value(3) [OF f]
    by (simp add: W2 long_variable_def primpar_defs variable_ptr_def)
next
  case W4
  show ?thesis
    using fetch_4_code [of s "byte_of i 0" "byte_of i 1" "byte_of i 2" "byte_of i 3"] c d
    by (simp add: W4 long_variable_def primpar_defs variable_ptr_def word32_bytes)
qed

lemma first_byte_facts:
  assumes "w \<noteq> W0"
  shows "flag (first_byte sc w) PRIMPAR_LONG" "flag (first_byte sc w) PRIMPAR_VARIABLE"
    "flag (first_byte sc w) PRIMPAR_GLOBAL \<longleftrightarrow> sc = Global"
    "\<not> flag (first_byte sc w) PRIMPAR_HANDLE" "\<not> flag (first_byte sc w) PRIMPAR_ADDR"
    "first_byte sc w AND PRIMPAR_BYTES = width_code w"
  using assms by (cases sc; cases w; simp add: first_byte_def flag_def primpar_defs)+

lemma handle_byte_facts:
  fixes sc :: scope and w :: width
  assumes "w \<noteq> W0"
  defines "d \<equiv> PRIMPAR_HANDLE OR first_byte sc w"
  shows "flag d PRIMPAR_LONG" "flag d PRIMPAR_VARIABLE" "flag d PRIMPAR_GLOBAL \<longleftrightarrow> sc = Global"
    "flag d PRIMPAR_HANDLE" "d AND PRIMPAR_BYTES = width_code w"
  using assms by (cases sc; cases w; simp add: first_byte_def flag_def primpar_defs)+

lemma addr_byte_facts:
  fixes sc :: scope and w :: width
  assumes "w \<noteq> W0"
  defines "d \<equiv> PRIMPAR_ADDR OR first_byte sc w"
  shows "flag d PRIMPAR_LONG" "flag d PRIMPAR_VARIABLE" "flag d PRIMPAR_GLOBAL \<longleftrightarrow> sc = Global"
    "\<not> flag d PRIMPAR_HANDLE" "flag d PRIMPAR_ADDR" "d AND PRIMPAR_BYTES = width_code w"
  using assms by (cases sc; cases w; simp add: first_byte_def flag_def primpar_defs)+

lemma ArraryPointer_cong:
  "pPoolList t = pPoolList s \<Longrightarrow> Consts t = Consts s \<Longrightarrow>
    cMemoryArraryPointer p h t = cMemoryArraryPointer p h s"
  by (simp add: cMemoryArraryPointer_def cMemoryGetPointer_def pool_def MAX_PROGRAMS_def)

lemma ArraryPointer_regs [simp]:
  "cMemoryArraryPointer p h (s\<lparr>ObjectIp := a\<rparr>) = cMemoryArraryPointer p h s"
  "cMemoryArraryPointer p h (s\<lparr>Value := v\<rparr>) = cMemoryArraryPointer p h s"
  "cMemoryArraryPointer p h (s\<lparr>Handle := k\<rparr>) = cMemoryArraryPointer p h s"
  by (rule ArraryPointer_cong; simp)+

lemma decode_long_variable:
  assumes w: "w \<noteq> W0" and i: "index_fits w i" and d: "d AND PRIMPAR_BYTES = width_code w"
    "flag d PRIMPAR_LONG" "flag d PRIMPAR_VARIABLE" "flag d PRIMPAR_GLOBAL \<longleftrightarrow> sc = Global"
    and c: "code_at s (ObjectIp s) (d # index_bytes w i)"
  shows "PrimParPointer s = indirection d (PtrMem (base sc s + i),
    s\<lparr>Handle := - 1, ObjectIp := ObjectIp s + of_nat (length (d # index_bytes w i)), Value := i\<rparr>)"
proof -
  let ?s = "s\<lparr>ObjectIp := ObjectIp s + 1, Handle := - 1\<rparr>"
  have "code_at ?s (ObjectIp ?s) (index_bytes w i)"
    using c code_at_cong [of ?s s "ObjectIp s + 1" "index_bytes w i"] by simp
  from long_variable_code [OF w i d(1) this] show ?thesis
    using c d(2-4)
    by (cases sc) (simp_all add: PrimParPointer_def fetch_def Let_def variable_ptr_def add.assoc)
qed

definition decodes :: "vm \<Rightarrow> operand \<Rightarrow> bool" where
  "decodes s p \<longleftrightarrow> PrimParPointer s = map_option (\<lambda>(q, v, h).
     (q, s\<lparr>ObjectIp := ObjectIp s + of_nat (length (enc p)), Value := v, Handle := h\<rparr>)) (denote s p)"

lemma decode_var:
  assumes c: "code_at s (ObjectIp s) (enc (Var sc w i))" and wf: "wf (Var sc w i)"
  shows "decodes s (Var sc w i)"
proof (cases "w = W0")
  case True
  have f: "take_bit 5 i = i" using wf True by simp
  have m: "mem s (ObjectIp s) = Some (case sc of Local \<Rightarrow> ucast i AND 0x1F OR 0x40
      | Global \<Rightarrow> ucast i AND 0x1F OR 0x60)"
    using c by (cases sc) (simp_all add: True LV0_def GV0_def primpar_defs)
  have len: "length (enc (Var sc w i)) = 1"
    by (cases sc) (simp_all add: True LV0_def GV0_def)
  show ?thesis
    unfolding decodes_def len
    using m index_value(1) [OF f]
    by (cases sc) (simp_all add: PrimParPointer_def fetch_def Let_def
        flag_bits short_flags short_index variable_ptr_def PRIMPAR_INDEX_def)
next
  case False
  note d = first_byte_facts [OF False, of sc]
  from decode_long_variable [OF False _ d(6,1,2,3)] c wf show ?thesis
    by (simp add: decodes_def enc_long [OF False] indirection_def d)
qed

lemma decode_hnd:
  assumes c: "code_at s (ObjectIp s) (enc (Hnd sc w i))" and wf: "wf (Hnd sc w i)"
  shows "decodes s (Hnd sc w i)"
proof -
  have w: "w \<noteq> W0" using wf by simp
  note d = handle_byte_facts [OF w, of sc]
  have e: "enc (Hnd sc w i) = (PRIMPAR_HANDLE OR first_byte sc w) # index_bytes w i"
    by (simp add: HND_def enc_long [OF w])
  let ?t = "s\<lparr>Handle := - 1, ObjectIp := ObjectIp s + of_nat (length (enc (Hnd sc w i))), Value := i\<rparr>"
  have run: "PrimParPointer s = indirection (PRIMPAR_HANDLE OR first_byte sc w) (PtrMem (base sc s + i), ?t)"
    unfolding e by (rule decode_long_variable [OF w _ d(5,1,2,3) c [unfolded e]]) (use wf in simp)
  have ld: "load16 ?t (PtrMem (base sc s + i)) = load16 s (PtrMem (base sc s + i))"
    by (rule load16_mem_cong) simp
  show ?thesis
    unfolding decodes_def run indirection_def
    by (cases "load16 s (PtrMem (base sc s + i))")
      (simp_all add: d Let_def ld split: option.split del: enc.simps)
qed

lemma decode_adr:
  assumes c: "code_at s (ObjectIp s) (enc (Adr sc w i))" and wf: "wf (Adr sc w i)"
  shows "decodes s (Adr sc w i)"
proof -
  have w: "w \<noteq> W0" using wf by simp
  note d = addr_byte_facts [OF w, of sc]
  have e: "enc (Adr sc w i) = (PRIMPAR_ADDR OR first_byte sc w) # index_bytes w i"
    by (simp add: ADR_def enc_long [OF w])
  let ?t = "s\<lparr>Handle := - 1, ObjectIp := ObjectIp s + of_nat (length (enc (Adr sc w i))), Value := i\<rparr>"
  have run: "PrimParPointer s = indirection (PRIMPAR_ADDR OR first_byte sc w) (PtrMem (base sc s + i), ?t)"
    unfolding e by (rule decode_long_variable [OF w _ d(6,1,2,3) c [unfolded e]]) (use wf in simp)
  have ld: "load32 ?t (PtrMem (base sc s + i)) = load32 s (PtrMem (base sc s + i))"
    by (rule load32_mem_cong) simp
  show ?thesis
    unfolding decodes_def run indirection_def
    by (cases "load32 s (PtrMem (base sc s + i))") (simp_all add: d ld del: enc.simps)
qed

lemma decode_str:
  assumes c: "code_at s (ObjectIp s) (enc (Str cs))" and wf: "wf (Str cs)"
  shows "decodes s (Str cs)"
proof -
  have skip: "skip_string (mem s) (ObjectIp s + 1) = Some (ObjectIp s + 1 + of_nat (length cs) + 1)"
    using c wf by (intro skip_string_code) simp_all
  have len: "ObjectIp s + 1 + of_nat (length cs) + 1 = ObjectIp s + of_nat (length (enc (Str cs)))"
    by simp
  have "mem s (ObjectIp s) = Some 0x84" using c by (simp add: LCS_def primpar_defs)
  then show ?thesis
    unfolding decodes_def
    by (simp add: PrimParPointer_def fetch_def flag_def primpar_defs long_constant_def
        indirection_def skip len del: enc.simps)
qed

lemma decode_lab:
  assumes c: "code_at s (ObjectIp s) (enc (Lab i))" and wf: "wf (Lab i)"
  shows "decodes s (Lab i)"
proof -
  have v: "ucast (byte_of i 0) = i" using wf by (simp add: index_value(2))
  have m: "mem s (ObjectIp s) = Some 0xA0" "mem s (ObjectIp s + 1) = Some (byte_of i 0)"
    using c by (simp_all add: LAB1_def primpar_defs)
  have len: "of_nat (length (enc (Lab i))) = (2 :: ULONG)" by (simp add: LAB1_def)
  show ?thesis
    unfolding decodes_def len
    using m
    by (cases "0 < i \<and> i < MAX_LABELS"; cases "Program s (ProgramId s)")
      (auto simp: PrimParPointer_def fetch_def flag_def primpar_defs
        label_constant_def fetch_1_code v indirection_def label_of_def add.assoc)
qed

theorem decode:
  assumes "code_at s (ObjectIp s) (enc p)" and "wf p"
  shows "PrimParPointer s = map_option (\<lambda>(q, v, h).
     (q, s\<lparr>ObjectIp := ObjectIp s + of_nat (length (enc p)), Value := v, Handle := h\<rparr>)) (denote s p)"
proof (cases p)
  case (Const w v)
  show ?thesis
    using decode_const [OF assms [unfolded Const]] by (simp add: Const)
next
  case (Str cs)
  show ?thesis using decode_str [OF assms [unfolded Str]] by (simp only: Str decodes_def)
next
  case (Var sc w i)
  show ?thesis using decode_var [OF assms [unfolded Var]] by (simp only: Var decodes_def)
next
  case (Hnd sc w i)
  show ?thesis using decode_hnd [OF assms [unfolded Hnd]] by (simp only: Hnd decodes_def)
next
  case (Adr sc w i)
  show ?thesis using decode_adr [OF assms [unfolded Adr]] by (simp only: Adr decodes_def)
next
  case (Lab i)
  show ?thesis using decode_lab [OF assms [unfolded Lab]] by (simp only: Lab decodes_def)
qed

subsection \<open>Every parameter is decoded within the registers\<close>

text \<open>\<open>PrimParPointer\<close> changes only the instruction pointer, \<open>Value\<close> and \<open>Handle\<close>,
  whatever the bytes are.\<close>

definition regs_only :: "vm \<Rightarrow> vm \<Rightarrow> bool" where
  "regs_only s t \<longleftrightarrow> t = s\<lparr>ObjectIp := ObjectIp t, Value := Value t, Handle := Handle t\<rparr>"

lemma regs_only_refl [simp]: "regs_only s s"
  by (simp add: regs_only_def)

lemma regs_only_upd [simp]:
  "regs_only s (t\<lparr>ObjectIp := a\<rparr>) \<longleftrightarrow> regs_only s t"
  "regs_only s (t\<lparr>Value := v\<rparr>) \<longleftrightarrow> regs_only s t"
  "regs_only s (t\<lparr>Handle := h\<rparr>) \<longleftrightarrow> regs_only s t"
proof -
  show "regs_only s (t\<lparr>ObjectIp := a\<rparr>) \<longleftrightarrow> regs_only s t"
    "regs_only s (t\<lparr>Value := v\<rparr>) \<longleftrightarrow> regs_only s t"
    "regs_only s (t\<lparr>Handle := h\<rparr>) \<longleftrightarrow> regs_only s t"
    unfolding regs_only_def by (cases s; cases t; simp)+
qed

lemma regs_only_left [simp]:
  "regs_only (s\<lparr>ObjectIp := a\<rparr>) t \<longleftrightarrow> regs_only s t"
  "regs_only (s\<lparr>Value := v\<rparr>) t \<longleftrightarrow> regs_only s t"
  "regs_only (s\<lparr>Handle := h\<rparr>) t \<longleftrightarrow> regs_only s t"
proof -
  show "regs_only (s\<lparr>ObjectIp := a\<rparr>) t \<longleftrightarrow> regs_only s t"
    "regs_only (s\<lparr>Value := v\<rparr>) t \<longleftrightarrow> regs_only s t"
    "regs_only (s\<lparr>Handle := h\<rparr>) t \<longleftrightarrow> regs_only s t"
    unfolding regs_only_def by (cases s; cases t; simp)+
qed

lemma regs_only_trans: "regs_only s t \<Longrightarrow> regs_only t v \<Longrightarrow> regs_only s v"
  unfolding regs_only_def by (cases s; cases t; cases v) simp

lemma fetch_regs: "fetch s = Some (b, t) \<Longrightarrow> t = s\<lparr>ObjectIp := ObjectIp s + 1\<rparr>"
  by (simp add: fetch_run)

lemma fetch_1_ip: "fetch_1 s = Some t \<Longrightarrow> regs_only s t \<and> ObjectIp t = ObjectIp s + 1"
  by (auto simp: fetch_1_def bind_conv dest!: fetch_regs)

lemma fetch_or_ip: "fetch_or k s = Some t \<Longrightarrow> regs_only s t \<and> ObjectIp t = ObjectIp s + 1"
  by (auto simp: fetch_or_def bind_conv dest!: fetch_regs)

lemma fetch_2_ip: "fetch_2 s = Some t \<Longrightarrow> regs_only s t \<and> ObjectIp t = ObjectIp s + 2"
  by (auto simp: fetch_2_def bind_conv add.assoc dest!: fetch_1_ip fetch_or_ip intro: regs_only_trans)

lemma fetch_4_ip: "fetch_4 s = Some t \<Longrightarrow> regs_only s t \<and> ObjectIp t = ObjectIp s + 4"
  unfolding fetch_4_def
  by (auto simp: bind_conv add.assoc dest!: fetch_1_ip fetch_or_ip) (meson regs_only_trans)

lemma indirection_ip:
  "indirection d (q, s) = Some (p, t) \<Longrightarrow> regs_only s t \<and> ObjectIp t = ObjectIp s"
  by (auto simp: indirection_def bind_conv Let_def split: if_splits)

lemma size_cases:
  obtains "n = PRIMPAR_STRING_OLD \<or> n = PRIMPAR_STRING"
  | "n = PRIMPAR_1_BYTE" "n \<noteq> PRIMPAR_STRING_OLD" "n \<noteq> PRIMPAR_STRING"
  | "n = PRIMPAR_2_BYTES" "n \<noteq> PRIMPAR_STRING_OLD" "n \<noteq> PRIMPAR_STRING" "n \<noteq> PRIMPAR_1_BYTE"
  | "n = PRIMPAR_4_BYTES" "n \<noteq> PRIMPAR_STRING_OLD" "n \<noteq> PRIMPAR_STRING" "n \<noteq> PRIMPAR_1_BYTE"
      "n \<noteq> PRIMPAR_2_BYTES"
  | "n \<noteq> PRIMPAR_STRING_OLD" "n \<noteq> PRIMPAR_STRING" "n \<noteq> PRIMPAR_1_BYTE"
      "n \<noteq> PRIMPAR_2_BYTES" "n \<noteq> PRIMPAR_4_BYTES"
  by blast

definition size_bytes :: "UBYTE \<Rightarrow> ULONG" where
  "size_bytes n = (if n = PRIMPAR_1_BYTE then 1 else if n = PRIMPAR_2_BYTES then 2
     else if n = PRIMPAR_4_BYTES then 4 else 0)"

lemma long_variable_ip:
  assumes "long_variable d s = Some (p, t)"
  shows "regs_only s t" and "ObjectIp t = ObjectIp s + size_bytes (d AND PRIMPAR_BYTES)"
  using assms
  by (auto simp: long_variable_def size_bytes_def bind_conv split: if_splits
      dest: fetch_1_ip fetch_2_ip fetch_4_ip)

lemma label_constant_ip:
  assumes "label_constant s = Some (p, t)"
  shows "regs_only s t" and "ObjectIp t = ObjectIp s + 1"
  using assms
  by (auto simp: label_constant_def bind_conv split: if_splits dest: fetch_1_ip)

lemma long_constant_ip:
  assumes run: "long_constant d s = Some (p, t)"
  shows "regs_only s t \<and> (if d AND PRIMPAR_BYTES = PRIMPAR_STRING_OLD \<or> d AND PRIMPAR_BYTES = PRIMPAR_STRING
      then skip_string (mem s) (ObjectIp s) = Some (ObjectIp t)
      else ObjectIp t = ObjectIp s + size_bytes (d AND PRIMPAR_BYTES))"
proof (cases rule: size_cases [of "d AND PRIMPAR_BYTES"])
  case 1
  then show ?thesis using run by (auto simp: long_constant_def bind_conv Let_def)
next
  case 2
  note c = 2
  then obtain v where v: "fetch_1 s = Some v" and t: "t = (if Value v AND 0x00000080 \<noteq> 0
      then v\<lparr>Value := Value v OR 0xFFFFFF00\<rparr> else v)"
    using run unfolding long_constant_def by (auto simp only: if_True if_False bind_conv simp_thms option.inject prod.inject)
  show ?thesis
    using fetch_1_ip [OF v] c(2,3) unfolding t c(1) size_bytes_def by simp
next
  case 3
  note c = 3
  then obtain v where v: "fetch_2 s = Some v" and t: "t = (if Value v AND 0x00008000 \<noteq> 0
      then v\<lparr>Value := Value v OR 0xFFFF0000\<rparr> else v)"
    using run unfolding long_constant_def by (auto simp only: if_True if_False bind_conv simp_thms option.inject prod.inject)
  show ?thesis
    using fetch_2_ip [OF v] c(2-4) unfolding t c(1) size_bytes_def by simp
next
  case 4
  note c = 4
  then obtain v where v: "fetch_4 s = Some v" and t: "t = v"
    using run unfolding long_constant_def by (auto simp only: if_True if_False bind_conv simp_thms option.inject prod.inject)
  show ?thesis
    using fetch_4_ip [OF v] c(2-5) unfolding t c(1) size_bytes_def by simp
next
  case 5
  then show ?thesis using run by (simp add: long_constant_def size_bytes_def)
qed

lemma PrimParPointer_regs:
  assumes "PrimParPointer s = Some (p, t)"
  shows "regs_only s t"
  using assms
  by (auto simp: PrimParPointer_def bind_conv Let_def split: if_splits
      dest!: fetch_regs long_variable_ip(1) label_constant_ip(1) long_constant_ip indirection_ip
      dest: regs_only_trans)

lemma pointer_advance:
  assumes run: "PrimParPointer s = Some (p, t)"
  shows "PrimParAdvance s = Some (s\<lparr>ObjectIp := ObjectIp t\<rparr>)"
proof -
  from run obtain d where d: "mem s (ObjectIp s) = Some d"
    by (auto simp: PrimParPointer_def fetch_def bind_conv)
  let ?s = "s\<lparr>ObjectIp := ObjectIp s + 1, Handle := - 1\<rparr>"
  show ?thesis
  proof (cases "flag d PRIMPAR_LONG")
    case False
    with run d show ?thesis
      by (auto simp: PrimParPointer_def PrimParAdvance_def fetch_def Let_def split: if_splits)
  next
    case True
    then obtain q v where q: "(if flag d PRIMPAR_VARIABLE then long_variable d ?s
          else if flag d PRIMPAR_LABEL then label_constant ?s else long_constant d ?s) = Some (q, v)"
        and "indirection d (q, v) = Some (p, t)"
      using run d by (auto simp: PrimParPointer_def fetch_def Let_def bind_conv)
    then have "ObjectIp t = ObjectIp v" using indirection_ip by blast
    moreover have "PrimParAdvance s = Some (s\<lparr>ObjectIp := ObjectIp v\<rparr>)"
    proof (cases "flag d PRIMPAR_VARIABLE")
      case var: True
      with q have "ObjectIp v = ObjectIp s + 1 + size_bytes (d AND PRIMPAR_BYTES)"
        using long_variable_ip(2) [of d ?s q v] by simp
      then show ?thesis
        using d True var by (simp add: PrimParAdvance_def fetch_def advance_def Let_def size_bytes_def)
    next
      case const: False
      show ?thesis
      proof (cases "flag d PRIMPAR_LABEL")
        case lab: True
        with const q have "ObjectIp v = ObjectIp s + 1 + 1"
          using label_constant_ip(2) [of ?s q v] by simp
        then show ?thesis
          using d True const lab by (simp add: PrimParAdvance_def fetch_def advance_def Let_def)
      next
        case False
        with const q have "long_constant d ?s = Some (q, v)" by simp
        from long_constant_ip [OF this] show ?thesis
          using d True const False
          by (simp add: PrimParAdvance_def fetch_def advance_def Let_def size_bytes_def
              PRIMPAR_1_BYTE_def PRIMPAR_2_BYTES_def PRIMPAR_4_BYTES_def PRIMPAR_STRING_def
              PRIMPAR_STRING_OLD_def split: if_splits)
      qed
    qed
    ultimately show ?thesis by simp
  qed
qed

subsection \<open>Executing a byte code on encoded parameters\<close>

text \<open>Numeric parameters: all but strings and labels. What they denote does not depend on
  the registers that decoding changes.\<close>

fun numeric :: "operand \<Rightarrow> bool" where
  "numeric (Str cs) = False"
| "numeric (Lab i) = False"
| "numeric _ = True"

definition operand_value :: "(vm \<Rightarrow> ptr \<Rightarrow> 'a option) \<Rightarrow> vm \<Rightarrow> operand \<Rightarrow> 'a option" where
  "operand_value ld s p = do { (q, v, h) \<leftarrow> denote s p; ld (s\<lparr>Value := v\<rparr>) q }"

text \<open>The address a parameter that is not a constant denotes.\<close>

definition operand_addr :: "vm \<Rightarrow> operand \<Rightarrow> ULONG option" where
  "operand_addr s p = (case denote s p of Some (PtrMem d, _, _) \<Rightarrow> Some d | _ \<Rightarrow> None)"

text \<open>\<open>wrote ld n d x ip s t\<close>: from \<open>s\<close> to \<open>t\<close> the instruction pointer went to \<open>ip\<close>, the
  cell of \<open>n\<close> bytes at \<open>d\<close> got the value \<open>x\<close>, and nothing else but the registers of the
  decoder changed.\<close>

definition wrote ::
    "(vm \<Rightarrow> ptr \<Rightarrow> 'a option) \<Rightarrow> nat \<Rightarrow> ULONG \<Rightarrow> 'a \<Rightarrow> ULONG \<Rightarrow> vm \<Rightarrow> vm \<Rightarrow> bool" where
  "wrote ld n d x ip s t \<longleftrightarrow>
     t = s\<lparr>mem := mem t, ObjectIp := ip, Value := Value t, Handle := Handle t\<rparr> \<and>
     ld t (PtrMem d) = Some x \<and> (\<forall>b. b \<notin> span d n \<longrightarrow> mem t b = mem s b) \<and> dom (mem t) = dom (mem s)"

text \<open>One parameter, decoded: the state moves past it.\<close>

definition past :: "operand \<Rightarrow> vm \<Rightarrow> vm \<Rightarrow> bool" where
  "past p s t \<longleftrightarrow> regs_only s t \<and> ObjectIp t = ObjectIp s + of_nat (length (enc p))"

lemma regs_onlyD:
  assumes "regs_only s t"
  shows "mem t = mem s" "pGlobal t = pGlobal s" "ObjectLocal t = ObjectLocal s"
    "pPoolList t = pPoolList s" "Consts t = Consts s" "ProgramId t = ProgramId s"
    "Program t = Program s" "pImage t = pImage s"
  using assms unfolding regs_only_def by (cases s; cases t; simp)+

lemma base_regs: "regs_only s t \<Longrightarrow> base sc t = base sc s"
  by (cases sc) (simp_all add: regs_onlyD)

lemma denote_regs:
  assumes "numeric p" and r: "regs_only s t"
  shows "denote t p = denote s p"
proof (cases p)
  case (Hnd sc w i)
  show ?thesis
    using load16_mem_cong [OF regs_onlyD(1) [OF r]] ArraryPointer_cong [OF regs_onlyD(4,5) [OF r]]
    by (simp add: Hnd base_regs [OF r] regs_onlyD(6) [OF r] cong: option.case_cong)
next
  case (Adr sc w i)
  show ?thesis
    using load32_mem_cong [OF regs_onlyD(1) [OF r]] by (simp add: Adr base_regs [OF r])
qed (use assms base_regs [OF r] in auto)

lemma operand_addr_regs: "numeric p \<Longrightarrow> regs_only s t \<Longrightarrow> operand_addr t p = operand_addr s p"
  by (simp add: operand_addr_def denote_regs)

lemma denote_addr: "operand_addr s p = Some d \<Longrightarrow> \<exists>v h. denote s p = Some (PtrMem d, v, h)"
  by (auto simp: operand_addr_def split: option.splits ptr.splits)

context cell
begin

lemma value_regs: "numeric p \<Longrightarrow> regs_only s t \<Longrightarrow> operand_value ld t p = operand_value ld s p"
  unfolding operand_value_def denote_regs
  by (intro bind_cong_Some refl) (auto intro!: ld_cong simp: regs_onlyD(1))

lemma get_exec:
  assumes "code_at s (ObjectIp s) (enc p)" and "wf p" and "operand_value ld s p = Some x"
  shows "\<exists>t. par_get ld s = Some (x, t) \<and> past p s t"
proof -
  obtain q v h where q: "denote s p = Some (q, v, h)" "ld (s\<lparr>Value := v\<rparr>) q = Some x"
    using assms(3) by (auto simp: operand_value_def bind_conv)
  let ?t = "s\<lparr>ObjectIp := ObjectIp s + of_nat (length (enc p)), Value := v, Handle := h\<rparr>"
  have "ld ?t q = Some x" using q(2) ld_cong [of ?t "s\<lparr>Value := v\<rparr>" q] by simp
  then show ?thesis
    using decode [OF assms(1,2)] q(1) by (simp add: par_get_def past_def)
qed

lemma put_exec:
  assumes c: "code_at s (ObjectIp s) (enc p)" and wf: "wf p" and d: "operand_addr s p = Some d"
    and y: "ld s (PtrMem d) = Some y"
  shows "\<exists>t. par_put st x s = Some t \<and> wrote ld size d x (ObjectIp s + of_nat (length (enc p))) s t"
proof -
  obtain v h where q: "denote s p = Some (PtrMem d, v, h)" using denote_addr [OF d] by blast
  let ?t = "s\<lparr>ObjectIp := ObjectIp s + of_nat (length (enc p)), Value := v, Handle := h\<rparr>"
  have "ld ?t (PtrMem d) = Some y" using y ld_mem_cong [of ?t s d] by simp
  then obtain r where r: "st ?t (PtrMem d) x = Some r" using st_ok by blast
  obtain m where m: "r = ?t\<lparr>mem := m\<rparr>" "\<forall>b. b \<notin> span d size \<longrightarrow> m b = mem s b" "dom m = dom (mem s)"
    using st_mem [OF r] by auto
  have "par_put st x s = Some r"
    using decode [OF c wf] q r by (simp add: par_put_def)
  then show ?thesis
    using m st_ld [OF r] by (auto simp: wrote_def)
qed

end

subsection \<open>Byte codes with one result\<close>

text \<open>The shape of the byte codes that read one or two values and write one, possibly of
  another width; \<open>f\<close> is \<open>None\<close> where the C operation is undefined.\<close>

definition unop :: "(vm \<Rightarrow> ptr \<Rightarrow> 'a option) \<Rightarrow> (vm \<Rightarrow> ptr \<Rightarrow> 'b \<Rightarrow> vm option) \<Rightarrow>
    (bytecodes \<Rightarrow> 'a \<Rightarrow> 'b option) \<Rightarrow> vm \<Rightarrow> vm option" where
  "unop ld st f s = do {
     (a, s) \<leftarrow> par_get ld s;
     r \<leftarrow> f (Consts s) a;
     par_put st r s
   }"

definition binop :: "(vm \<Rightarrow> ptr \<Rightarrow> 'a option) \<Rightarrow> (vm \<Rightarrow> ptr \<Rightarrow> 'b \<Rightarrow> vm option) \<Rightarrow>
    (bytecodes \<Rightarrow> 'a \<Rightarrow> 'a \<Rightarrow> 'b option) \<Rightarrow> vm \<Rightarrow> vm option" where
  "binop ld st f s = do {
     (a, s) \<leftarrow> par_get ld s;
     (b, s) \<leftarrow> par_get ld s;
     r \<leftarrow> f (Consts s) a b;
     par_put st r s
   }"

text \<open>At the instruction pointer stand the encodings of the parameters \<open>p\<close> and \<open>r\<close> (\<open>p\<close>,
  \<open>q\<close> and \<open>r\<close>); the first denote the values \<open>a\<close> (and \<open>b\<close>), the last is a variable at the
  mapped address \<open>d\<close>.\<close>

definition operands1 :: "(vm \<Rightarrow> ptr \<Rightarrow> 'a option) \<Rightarrow> (vm \<Rightarrow> ptr \<Rightarrow> 'b option) \<Rightarrow> vm \<Rightarrow>
    operand \<Rightarrow> operand \<Rightarrow> 'a \<Rightarrow> ULONG \<Rightarrow> bool" where
  "operands1 ld1 ld2 s p r a d \<longleftrightarrow>
     code_at s (ObjectIp s) (enc p @ enc r) \<and> wf p \<and> wf r \<and> numeric r \<and>
     operand_value ld1 s p = Some a \<and> operand_addr s r = Some d \<and> ld2 s (PtrMem d) \<noteq> None"

definition operands2 :: "(vm \<Rightarrow> ptr \<Rightarrow> 'a option) \<Rightarrow> (vm \<Rightarrow> ptr \<Rightarrow> 'b option) \<Rightarrow> vm \<Rightarrow>
    operand \<Rightarrow> operand \<Rightarrow> operand \<Rightarrow> 'a \<Rightarrow> 'a \<Rightarrow> ULONG \<Rightarrow> bool" where
  "operands2 ld1 ld2 s p q r a b d \<longleftrightarrow>
     code_at s (ObjectIp s) (enc p @ enc q @ enc r) \<and> wf p \<and> wf q \<and> wf r \<and> numeric q \<and> numeric r \<and>
     operand_value ld1 s p = Some a \<and> operand_value ld1 s q = Some b \<and>
     operand_addr s r = Some d \<and> ld2 s (PtrMem d) \<noteq> None"

text \<open>What it means that a byte code computes a function: it is undefined exactly where the
  function is, and otherwise it writes the function's value to the destination, moves the
  instruction pointer past the parameters and changes nothing else.\<close>

definition result1 :: "(vm \<Rightarrow> ptr \<Rightarrow> 'b option) \<Rightarrow> nat \<Rightarrow> vm \<Rightarrow> operand list \<Rightarrow> ULONG \<Rightarrow>
    'b option \<Rightarrow> vm option \<Rightarrow> bool" where
  "result1 ld n s ps d x out = (case x of
     None \<Rightarrow> out = None
   | Some v \<Rightarrow> (case out of
       None \<Rightarrow> False
     | Some t \<Rightarrow> wrote ld n d v (ObjectIp s + of_nat (length (concat (map enc ps)))) s t))"

lemma past_trans:
  "past p s t \<Longrightarrow> past q t v \<Longrightarrow> regs_only s v \<and>
     ObjectIp v = ObjectIp s + of_nat (length (enc p)) + of_nat (length (enc q))"
  unfolding past_def using regs_only_trans [of s t v] by auto

lemma wrote_regs: "regs_only s v \<Longrightarrow> wrote ld n d x ip v t \<Longrightarrow> wrote ld n d x ip s t"
  unfolding wrote_def regs_only_def by (cases s; cases t; cases v) auto

lemma code_regs: "regs_only s t \<Longrightarrow> code_at t a bs = code_at s a bs"
  by (intro code_at_cong) (simp add: regs_onlyD)

locale cell_pair = src: cell ld1 st1 n1 + dst: cell ld2 st2 n2
  for ld1 :: "vm \<Rightarrow> ptr \<Rightarrow> 'a::len word option" and st1 n1
    and ld2 :: "vm \<Rightarrow> ptr \<Rightarrow> 'b::len word option" and st2 n2
begin

lemma unop_exec:
  assumes ops: "operands1 ld1 ld2 s p r a d"
  shows "result1 ld2 n2 s [p, r] d (f (Consts s) a) (unop ld1 st2 f s)"
proof -
  have code: "code_at s (ObjectIp s) (enc p @ enc r)" and wf: "wf p" "wf r" and num: "numeric r"
    and a: "operand_value ld1 s p = Some a" and d: "operand_addr s r = Some d"
    and y: "ld2 s (PtrMem d) \<noteq> None"
    using ops by (auto simp: operands1_def)
  obtain t where t: "par_get ld1 s = Some (a, t)" "past p s t"
    using src.get_exec [OF _ wf(1) a] code by (auto simp: code_at_append)
  then have r: "regs_only s t" and ip: "ObjectIp t = ObjectIp s + of_nat (length (enc p))"
    by (simp_all add: past_def)
  show ?thesis
  proof (cases "f (Consts s) a")
    case None
    then show ?thesis using t(1) regs_onlyD(5) [OF r] by (simp add: result1_def unop_def)
  next
    case (Some x)
    obtain v where v: "par_put st2 x t = Some v"
        "wrote ld2 n2 d x (ObjectIp t + of_nat (length (enc r))) t v"
      using dst.put_exec [OF _ wf(2), of t d _ x] code d y
      by (auto simp: code_at_append code_regs [OF r] ip operand_addr_regs [OF num r]
          dst.ld_mem_cong [OF regs_onlyD(1) [OF r]])
    then show ?thesis
      using t(1) v(1) Some wrote_regs [OF r v(2)] regs_onlyD(5) [OF r]
      by (simp add: result1_def unop_def ip add.assoc)
  qed
qed

lemma binop_exec:
  assumes ops: "operands2 ld1 ld2 s p q r a b d"
  shows "result1 ld2 n2 s [p, q, r] d (f (Consts s) a b) (binop ld1 st2 f s)"
proof -
  obtain t where t: "par_get ld1 s = Some (a, t)" "past p s t"
    using src.get_exec [of s p a] ops by (auto simp: operands2_def code_at_append)
  then have r: "regs_only s t" and ip: "ObjectIp t = ObjectIp s + of_nat (length (enc p))"
    by (simp_all add: past_def)
  have "operands1 ld1 ld2 t q r b d"
    using ops by (auto simp: operands1_def operands2_def code_at_append code_regs [OF r] ip
        src.value_regs [OF _ r] operand_addr_regs [OF _ r] dst.ld_mem_cong [OF regs_onlyD(1) [OF r]])
  from unop_exec [OF this, of "\<lambda>c. f c a"]
  have "result1 ld2 n2 t [q, r] d (f (Consts s) a b) (binop ld1 st2 f s)"
    using t(1) regs_onlyD(5) [OF r] by (simp add: binop_def unop_def)
  then show ?thesis
    using wrote_regs [OF r] by (auto simp: result1_def ip add.assoc split: option.splits)
qed

end

text \<open>Every pair of widths.\<close>

interpretation p8_8: cell_pair load8 store8 1 load8 store8 1 by unfold_locales
interpretation p8_16: cell_pair load8 store8 1 load16 store16 2 by unfold_locales
interpretation p8_32: cell_pair load8 store8 1 load32 store32 4 by unfold_locales
interpretation p16_8: cell_pair load16 store16 2 load8 store8 1 by unfold_locales
interpretation p16_16: cell_pair load16 store16 2 load16 store16 2 by unfold_locales
interpretation p16_32: cell_pair load16 store16 2 load32 store32 4 by unfold_locales
interpretation p32_8: cell_pair load32 store32 4 load8 store8 1 by unfold_locales
interpretation p32_16: cell_pair load32 store32 4 load16 store16 2 by unfold_locales
interpretation p32_32: cell_pair load32 store32 4 load32 store32 4 by unfold_locales

text \<open>A byte code implements a function \<open>f\<close> of its operands: whatever the state and the
  parameters are, running it has the result \<open>f\<close> prescribes.\<close>

definition implements1 :: "(vm \<Rightarrow> ptr \<Rightarrow> 'a option) \<Rightarrow> (vm \<Rightarrow> ptr \<Rightarrow> 'b option) \<Rightarrow> nat \<Rightarrow>
    (vm \<Rightarrow> vm option) \<Rightarrow> (bytecodes \<Rightarrow> 'a \<Rightarrow> 'b option) \<Rightarrow> bool" where
  "implements1 ld1 ld2 n code f \<longleftrightarrow> (\<forall>s p r a d. operands1 ld1 ld2 s p r a d \<longrightarrow>
     result1 ld2 n s [p, r] d (f (Consts s) a) (code s))"

definition implements2 :: "(vm \<Rightarrow> ptr \<Rightarrow> 'a option) \<Rightarrow> (vm \<Rightarrow> ptr \<Rightarrow> 'b option) \<Rightarrow> nat \<Rightarrow>
    (vm \<Rightarrow> vm option) \<Rightarrow> (bytecodes \<Rightarrow> 'a \<Rightarrow> 'a \<Rightarrow> 'b option) \<Rightarrow> bool" where
  "implements2 ld1 ld2 n code f \<longleftrightarrow> (\<forall>s p q r a b d. operands2 ld1 ld2 s p q r a b d \<longrightarrow>
     result1 ld2 n s [p, q, r] d (f (Consts s) a b) (code s))"

context cell_pair
begin

lemma implements_unop: "implements1 ld1 ld2 n2 (unop ld1 st2 f) f"
  unfolding implements1_def using unop_exec by blast

lemma implements_binop: "implements2 ld1 ld2 n2 (binop ld1 st2 f) f"
  unfolding implements2_def using binop_exec by blast

end

lemma implements2D:
  "implements2 ld1 ld2 n code f \<Longrightarrow> operands2 ld1 ld2 s p q r a b d \<Longrightarrow>
     result1 ld2 n s [p, q, r] d (f (Consts s) a b) (code s)"
  unfolding implements2_def by blast

lemma implements1D:
  "implements1 ld1 ld2 n code f \<Longrightarrow> operands1 ld1 ld2 s p r a d \<Longrightarrow>
     result1 ld2 n s [p, r] d (f (Consts s) a) (code s)"
  unfolding implements1_def by blast

text \<open>The same for a byte code whose first parameter is a sub code that \<open>sub\<close> recognises.\<close>

definition after :: "operand \<Rightarrow> vm \<Rightarrow> vm" where
  "after c s = s\<lparr>ObjectIp := ObjectIp s + of_nat (length (enc c))\<rparr>"

definition sub_code :: "(bytecodes \<Rightarrow> UBYTE \<Rightarrow> bool) \<Rightarrow> operand \<Rightarrow> vm \<Rightarrow> bool" where
  "sub_code sub c s \<longleftrightarrow> code_at s (ObjectIp s) (enc c) \<and> wf c \<and>
     (\<exists>k. operand_value load8 s c = Some k \<and> sub (Consts s) k)"

definition implements2_sub :: "(vm \<Rightarrow> ptr \<Rightarrow> 'a option) \<Rightarrow> (vm \<Rightarrow> ptr \<Rightarrow> 'b option) \<Rightarrow> nat \<Rightarrow>
    (bytecodes \<Rightarrow> UBYTE \<Rightarrow> bool) \<Rightarrow> (vm \<Rightarrow> vm option) \<Rightarrow> (bytecodes \<Rightarrow> 'a \<Rightarrow> 'a \<Rightarrow> 'b option) \<Rightarrow> bool" where
  "implements2_sub ld1 ld2 n sub code f \<longleftrightarrow> (\<forall>s c p q r a b d. sub_code sub c s \<longrightarrow> numeric p \<longrightarrow>
     operands2 ld1 ld2 (after c s) p q r a b d \<longrightarrow>
     result1 ld2 n s [c, p, q, r] d (f (Consts s) a b) (code s))"

lemma regs_only_after: "regs_only s t \<Longrightarrow> regs_only (after c s) t"
  by (simp add: after_def)

context cell_pair
begin

lemma operands2_past:
  assumes "past c s t" and num: "numeric p" and ops: "operands2 ld1 ld2 (after c s) p q r a b d"
  shows "operands2 ld1 ld2 t p q r a b d"
proof -
  have r: "regs_only (after c s) t" and ip: "ObjectIp t = ObjectIp (after c s)"
    using assms(1) by (auto simp: past_def after_def)
  show ?thesis
    using ops num by (auto simp: operands2_def ip code_regs [OF r] src.value_regs [OF _ r]
        operand_addr_regs [OF _ r] dst.ld_mem_cong [OF regs_onlyD(1) [OF r]])
qed

lemma implements_sub:
  assumes code: "\<And>s k t. get8 s = Some (k, t) \<Longrightarrow> sub (Consts t) k \<Longrightarrow> code s = binop ld1 st2 f t"
  shows "implements2_sub ld1 ld2 n2 sub code f"
  unfolding implements2_sub_def
proof (intro allI impI)
  fix s c p q r a b d
  assume sc: "sub_code sub c s" and num: "numeric p" and ops: "operands2 ld1 ld2 (after c s) p q r a b d"
  then obtain k where k: "operand_value load8 s c = Some k" "sub (Consts s) k"
    and wf: "code_at s (ObjectIp s) (enc c)" "wf c"
    by (auto simp: sub_code_def)
  obtain t where t: "get8 s = Some (k, t)" "past c s t"
    using c8.get_exec [OF wf k(1)] by blast
  then have r: "regs_only s t" by (simp add: past_def)
  have "result1 ld2 n2 t [p, q, r] d (f (Consts t) a b) (binop ld1 st2 f t)"
    by (rule binop_exec [OF operands2_past [OF t(2) num ops]])
  then have "result1 ld2 n2 t [p, q, r] d (f (Consts s) a b) (code s)"
    using code [OF t(1)] k(2) regs_onlyD(5) [OF r] by simp
  then show "result1 ld2 n2 s [c, p, q, r] d (f (Consts s) a b) (code s)"
    using wrote_regs [OF r] t(2)
    by (auto simp: result1_def past_def add.assoc split: option.splits)
qed

end

lemmas implements = p8_8.implements_unop p8_16.implements_unop p8_32.implements_unop
  p16_8.implements_unop p16_16.implements_unop p16_32.implements_unop
  p32_8.implements_unop p32_16.implements_unop p32_32.implements_unop
  p8_8.implements_binop p16_8.implements_binop p32_8.implements_binop
  p16_16.implements_binop p32_32.implements_binop

subsection \<open>A concrete machine\<close>

text \<open>A machine on which the theorems are instantiated: an image at \<open>0x100\<close>, 256 bytes of
  global variables at \<open>0x1000\<close>, 256 bytes of local variables at \<open>0x2000\<close>, and constants such
  as a build generates.\<close>

definition sample_consts :: bytecodes where
  "sample_consts = \<lparr>
     vmDATA8_MIN = - 127, vmDATA8_MAX = 127, vmDATA16_MIN = - 32767, vmDATA16_MAX = 32767,
     vmDATA32_MIN = - 2147483647, vmDATA32_MAX = 2147483647,
     SLOTS = 5, GUI_SLOT = 0, USER_SLOT = 1, CMD_SLOT = 2, TERM_SLOT = 3, DEBUG_SLOT = 4,
     CURRENT_SLOT = 0xFFFF,
     OBJSTAT_code = (\<lambda>x. case x of STATUS0 \<Rightarrow> 0 | RUNNING \<Rightarrow> 0x10 | WAITING \<Rightarrow> 0x20
        | STOPPED \<Rightarrow> 0x40 | HALTED \<Rightarrow> 0x80),
     RESULT_code = (\<lambda>x. case x of OK \<Rightarrow> 0 | BUSY \<Rightarrow> 1 | FAIL \<Rightarrow> 2 | STOP \<Rightarrow> 4),
     MATH_subcode = (\<lambda>x. if x = 12 then Some scMOD8 else if x = 13 then Some scMOD16
        else if x = 14 then Some scMOD32 else None),
     PROGRAM_INFO_subcode = (\<lambda>x. None), INFO_subcode = (\<lambda>x. None),
     STRINGS_subcode = (\<lambda>x. None),
     ARRAY_subcode = (\<lambda>x. if x = 1 then Some scCREATE8 else if x = 2 then Some scCREATE16
        else if x = 3 then Some scCREATE32 else if x = 0 then Some scDESTROY else None),
     opcode = (\<lambda>x. if x = 1 then opNOP else if x = 9 then opCALL else if x = 8 then opRETURN
        else if x = 10 then opOBJECT_END else if x = 0x10 then opADD T8
        else if x = 0x40 then opJR else opERROR),
     opBP0_code = 0x88, vmFILENAMESIZE = 120, vmEXT_BYTECODE = [46, 114, 98, 102]\<rparr>"

definition sample_libm :: libm where
  "sample_libm = \<lparr>lib_expf = id, lib_powf = (\<lambda>x y. x), lib_sqrt = id, lib_log10 = id, lib_log = id,
     lib_sinf = id, lib_cosf = id, lib_tanf = id, lib_asinf = id, lib_acosf = id, lib_atanf = id\<rparr>"

definition sample_prg :: PRG where
  "sample_prg = \<lparr>prg_InstrCnt = 0, prg_InstrTime = 0, prg_StartTime = 0, prg_RunTime = 0,
     prg_pImage = 0x100, prg_pData = 0x1000, prg_pGlobal = 0x1000, prg_pObjHead = 0x104,
     prg_pObjList = 0x1800, prg_ObjectIp = 0x100, prg_ObjectLocal = 0x2000, prg_Objects = 0,
     prg_ObjectId = 0, prg_Status = STOPPED, prg_StatusChange = STATUS0, prg_Result = OK,
     prg_Brkp = (\<lambda>_. \<lparr>BrkpAddr = 0, BrkpOpCode = 0\<rparr>), prg_Label = (\<lambda>_. 0), prg_Debug = 0,
     prg_Name = []\<rparr>"

definition sample_mem :: "UBYTE list \<Rightarrow> ULONG \<rightharpoonup> UBYTE" where
  "sample_mem code a =
     (if unat (a - 0x100) < length code then Some (code ! unat (a - 0x100))
      else if unat (a - 0x1000) < 256 \<or> unat (a - 0x2000) < 256 then Some 0 else None)"

definition sample_vm :: "UBYTE list \<Rightarrow> vm" where
  "sample_vm code = \<lparr>
     Consts = sample_consts, Libm = sample_libm, mem = sample_mem code, ObjHeap = Map.empty,
     VolumePercent = 100, SleepMinutes = 30, ProgramId = 1,
     Program = (\<lambda>p. if p < 5 then Some sample_prg else None), InstrCnt = 0,
     pImage = 0x100, pGlobal = 0x1000, pObjHead = 0x104, pObjList = 0x1800,
     ObjectIp = 0x100, ObjectLocal = 0x2000, Objects = 0, ObjectId = 0, Debug = 0, RefCount = 0,
     TimeuS = 0, DispatchStatus = NOBREAK, Priority = 0, Value = 0, Handle = - 1,
     Errors = (\<lambda>_. 0), ErrorIn = 0, ErrorOut = 0, NewTime = 0, OldTime1 = 0, OldTime2 = 0, Test = 0,
     SavedPriority = 0, ObjIpSave = 0, ObjGlobalSave = 0, ObjLocalSave = 0, DispatchStatusSave = NOBREAK, PrioritySave = 0,
     pPoolList = (\<lambda>_ _. \<lparr>pPool = 0, Size = 0, PoolType = 0\<rparr>), PathList = (\<lambda>_. []),
     Blocks = Map.empty, AllocAddr = (\<lambda>n. 0x10000 + of_nat n * 0x1000), AllocJunk = (\<lambda>_. 0xA5),
     AllocNo = 0, Clock = (\<lambda>n. \<lparr>tv_sec = of_nat n, tv_usec = 0\<rparr>), ClockNo = 0,
     Rand = (\<lambda>n. of_nat n), RandNo = 0,
     Keys = (\<lambda>_. 0), KeyNo = 0, LongPress = (\<lambda>_. False), PressNo = 0, TestDevices = False, ClosedFiles = [], Validate = (\<lambda>m a l. Some (OK, l, m)),
     Trace = []\<rparr>"

lemma sample_vm_sel [simp]:
  "Consts (sample_vm c) = sample_consts" "mem (sample_vm c) = sample_mem c"
  "ProgramId (sample_vm c) = 1" "Program (sample_vm c) = (\<lambda>p. if p < 5 then Some sample_prg else None)"
  "pImage (sample_vm c) = 0x100" "pGlobal (sample_vm c) = 0x1000" "ObjectIp (sample_vm c) = 0x100"
  "ObjectLocal (sample_vm c) = 0x2000" "Objects (sample_vm c) = 0" "Priority (sample_vm c) = 0"
  "DispatchStatus (sample_vm c) = NOBREAK" "Value (sample_vm c) = 0" "Blocks (sample_vm c) = Map.empty"
  "pPoolList (sample_vm c) = (\<lambda>_ _. \<lparr>pPool = 0, Size = 0, PoolType = 0\<rparr>)" "RefCount (sample_vm c) = 0"
  "AllocAddr (sample_vm c) = (\<lambda>n. 0x10000 + of_nat n * 0x1000)" "AllocNo (sample_vm c) = 0"
  "AllocJunk (sample_vm c) = (\<lambda>_. 0xA5)" "Clock (sample_vm c) = (\<lambda>n. \<lparr>tv_sec = of_nat n, tv_usec = 0\<rparr>)"
  "ClockNo (sample_vm c) = 0" "Rand (sample_vm c) = (\<lambda>n. of_nat n)" "RandNo (sample_vm c) = 0"
  "ErrorIn (sample_vm c) = 0" "ErrorOut (sample_vm c) = 0" "Trace (sample_vm c) = []"
  "ObjHeap (sample_vm c) = Map.empty" "pObjList (sample_vm c) = 0x1800" "pObjHead (sample_vm c) = 0x104"
  "ObjectId (sample_vm c) = 0" "Debug (sample_vm c) = 0" "Handle (sample_vm c) = - 1"
  by (simp_all add: sample_vm_def)

lemmas sample_defs = sample_mem_def sample_consts_def sample_prg_def

lemma sample_consts_sel [simp]:
  "vmDATA8_MIN sample_consts = - 127" "vmDATA8_MAX sample_consts = 127"
  "vmDATA16_MIN sample_consts = - 32767" "vmDATA16_MAX sample_consts = 32767"
  "vmDATA32_MIN sample_consts = - 2147483647" "vmDATA32_MAX sample_consts = 2147483647"
  "SLOTS sample_consts = 5" "GUI_SLOT sample_consts = 0" "USER_SLOT sample_consts = 1"
  "CMD_SLOT sample_consts = 2" "TERM_SLOT sample_consts = 3" "DEBUG_SLOT sample_consts = 4"
  "CURRENT_SLOT sample_consts = 0xFFFF"
  by (simp_all add: sample_consts_def)

lemma sample_limits: "limits_ok sample_consts"
  by (simp add: limits_ok_def sample_consts_def)

text \<open>Two constants and a global variable: the parameters \<open>LC0(5)\<close>, \<open>LC1(-100)\<close>, \<open>GV0(4)\<close>.\<close>

definition sample_args :: "UBYTE list" where
  "sample_args = enc (Const W0 5) @ enc (Const W1 (- 100)) @ enc (Var Global W0 4)"

lemma sample_args_bytes: "sample_args = [0x05, 0x81, 0x9C, 0x64]"
  by (simp add: sample_args_def LC0_def LC1_def GV0_def primpar_defs byte_of_def)

lemma sample_code: "code_at (sample_vm sample_args) 0x100 sample_args"
  by (simp add: sample_args_bytes sample_mem_def)

lemma sample_operands8:
  "operands2 load8 load8 (sample_vm sample_args) (Const W0 5) (Const W1 (- 100)) (Var Global W0 4)
     5 (- 100) 0x1004"
  unfolding operands2_def sample_args_def [symmetric] sample_vm_sel
  using sample_code
  by (simp add: operand_value_def operand_addr_def sample_mem_def sample_args_bytes byte_of_def)

subsection \<open>Properties of the decoder\<close>

text \<open>C1: \<open>PrimParPointer\<close> decodes the encoding of every parameter: constants of any
  width, strings, local and global variables, handles, addresses and labels. It returns the
  pointer the parameter denotes, moves past the encoding, and leaves in \<open>Value\<close> and
  \<open>Handle\<close> what the parameter denotes.\<close>

theorem operand_decode:
  assumes "code_at s (ObjectIp s) (enc p)" and "wf p"
  shows "PrimParPointer s = map_option (\<lambda>(q, v, h).
     (q, s\<lparr>ObjectIp := ObjectIp s + of_nat (length (enc p)), Value := v, Handle := h\<rparr>)) (denote s p)"
  by (rule decode [OF assms])

theorem operand_decode_witness:
  "PrimParPointer (sample_vm sample_args) =
     Some (PtrValue 0, (sample_vm sample_args)\<lparr>ObjectIp := 0x101, Value := 5, Handle := - 1\<rparr>)"
  using operand_decode [of "sample_vm sample_args" "Const W0 5"]
  by (simp add: sample_mem_def sample_args_bytes LC0_def primpar_defs)

text \<open>C2: whatever bytes stand at the instruction pointer, \<open>PrimParPointer\<close>, if it
  returns, changes only the instruction pointer, \<open>Value\<close> and \<open>Handle\<close>, and
  \<open>PrimParAdvance\<close> moves the instruction pointer exactly as far and changes nothing else.\<close>

theorem decode_frame:
  assumes "PrimParPointer s = Some (p, t)"
  shows "t = s\<lparr>ObjectIp := ObjectIp t, Value := Value t, Handle := Handle t\<rparr> \<and>
    PrimParAdvance s = Some (s\<lparr>ObjectIp := ObjectIp t\<rparr>)"
  using PrimParPointer_regs [OF assms] pointer_advance [OF assms] by (simp add: regs_only_def)

theorem decode_frame_witness:
  "PrimParAdvance (sample_vm [0x05]) = Some ((sample_vm [0x05])\<lparr>ObjectIp := 0x101\<rparr>)"
proof -
  have "PrimParPointer (sample_vm [0x05]) =
      Some (PtrValue 0, (sample_vm [0x05])\<lparr>ObjectIp := 0x101, Value := 5, Handle := - 1\<rparr>)"
    by (simp add: PrimParPointer_def fetch_def sample_mem_def flag_def primpar_defs Let_def)
  from decode_frame [OF this] show ?thesis by simp
qed

subsection \<open>Witnesses for the memory pools\<close>

lemma sample_pool_ok: "pool_ok (sample_vm c)" "files_ok (sample_vm c)" "MAX_PROGRAMS (sample_vm c) = 5"
  by (simp_all add: pool_ok_def heap_ok_def files_ok_def pool_def MAX_PROGRAMS_def)

lemma sample_fresh:
  assumes "k < 8" and "a = 0x10000 \<or> a = 0x11000"
  shows "sample_mem [] (a + of_nat k) = None"
proof -
  have "k \<in> {0, 1, 2, 3, 4, 5, 6, 7}" using assms(1) by auto
  then show ?thesis using assms(2) by (auto simp: sample_mem_def)
qed

definition sample_block :: vm where
  "sample_block = set_pool 1 0 (\<lambda>e. e\<lparr>PoolType := POOL_TYPE_MEMORY, Size := 8\<rparr>) (set_pool 1 0 (\<lambda>e. e\<lparr>pPool := 0x10000\<rparr>)
     ((map_block 0x10000 8 (\<lambda>_. 0xA5) (sample_vm []))\<lparr>AllocNo := 1\<rparr>))"

lemma sample_alloc: "cMemoryAlloc 1 POOL_TYPE_MEMORY 8 (sample_vm []) = Some (Some 0x10000, 0, sample_block)"
proof -
  have "fits (sample_vm []) 0x10000 8" using sample_fresh by (auto simp: fits_def)
  moreover have "find_handle (\<lambda>h. pool (sample_vm []) 1 h = 0) 0 = 0"
    by (subst find_handle.simps) (simp add: pool_def)
  ultimately show ?thesis
    by (simp add: cMemoryAlloc_def MAX_PROGRAMS_def MAX_ARRAY_SIZE_def MAX_HANDLES_def cMemoryRealloc_def
        realloc_def free_def Let_def sample_block_def)
qed

theorem alloc_then_free_witness:
  "\<exists>r v. cMemoryFreeHandle 1 0 sample_block = Some (r, v) \<and> Blocks v = Map.empty"
  using alloc_then_free [OF sample_pool_ok(1,2) sample_alloc] by (auto simp: POOL_TYPE_FILE_def POOL_TYPE_MEMORY_def)

lemma sample_alloc_again: "\<exists>t. cMemoryAlloc 1 POOL_TYPE_MEMORY 8 sample_block = Some (Some 0x11000, 1, t)"
proof -
  have "mem sample_block (0x11000 + of_nat k) = None" if "k < 8" for k
  proof -
    have "k \<in> {0, 1, 2, 3, 4, 5, 6, 7}" using that by auto
    then show ?thesis by (auto simp: sample_block_def set_pool_def map_block_def sample_mem_def)
  qed
  then have "fits sample_block 0x11000 8" by (simp add: fits_def)
  moreover have "find_handle (\<lambda>h. pool sample_block 1 h = 0) 0 = 1"
    by (subst find_handle.simps, subst find_handle.simps)
      (simp add: pool_def sample_block_def set_pool_def map_block_def MAX_HANDLES_def)
  ultimately show ?thesis
    by (simp add: cMemoryAlloc_def MAX_PROGRAMS_def MAX_ARRAY_SIZE_def MAX_HANDLES_def cMemoryRealloc_def
        realloc_def free_def Let_def sample_block_def set_pool_def map_block_def)
qed

theorem alloc_distinct_witness:
  "\<exists>v. cMemoryAlloc 1 POOL_TYPE_MEMORY 8 sample_block = Some (Some 0x11000, 1, v) \<and>
     cMemoryGetPointer 1 0 v = Some 0x10000"
  using sample_alloc_again alloc_distinct [OF sample_pool_ok(1) sample_alloc] by blast

theorem reallocate_witness:
  "\<exists>t. cMemoryReallocate 1 0 0 (sample_vm []) = Some (0, t)"
proof -
  have h: "handle_ok 0" by (simp add: handle_ok_def MAX_HANDLES_def)
  have p: "1 < MAX_PROGRAMS (sample_vm [])" by (simp add: sample_pool_ok(3))
  show ?thesis using reallocate [OF sample_pool_ok(1) p h, of 0] by (auto split: if_splits)
qed

theorem free_program_witness:
  "\<exists>t. cMemoryFreeProgram 1 (sample_vm []) = Some t \<and> pool_ok t"
  using free_program [OF sample_pool_ok(1,2)] by blast

end
