(* ===== verification/VM_Timer.thy ===== *)
theory VM_Timer
  imports VM_Params
begin

text \<open>
  The timer, \<open>c_timer.c\<close>: the clock readings \<open>cTimerGetmS\<close> and \<open>cTimerGetuS\<close> and the
  byte codes that wait for it. The clock is the environment's: the n-th call of
  \<open>gettimeofday\<close> reads \<open>Clock s n\<close>. Arithmetic on times wraps at 32 bits.
\<close>

subsection \<open>The code\<close>

definition gettimeofday :: "vm \<Rightarrow> timeval \<times> vm" where
  "gettimeofday s = (Clock s (ClockNo s), s\<lparr>ClockNo := Suc (ClockNo s)\<rparr>)"

definition cTimerGetmS :: "vm \<Rightarrow> ULONG \<times> vm" where
  "cTimerGetmS s =
     (let (tv, s) = gettimeofday s;
          Result = tv_sec tv * 1000;
          Result = Result + tv_usec tv div 1000
      in (Result, s))"

definition GetTimeMS :: "vm \<Rightarrow> ULONG \<times> vm" where
  "GetTimeMS s = cTimerGetmS s"

definition cTimerGetuS :: "vm \<Rightarrow> ULONG \<times> vm" where
  "cTimerGetuS s =
     (let (tv, s) = gettimeofday s;
          s = s\<lparr>TimeuS := tv_sec tv * 1000000\<rparr>;
          s = s\<lparr>TimeuS := TimeuS s + tv_usec tv\<rparr>
      in (TimeuS s, s))"

definition GetTimeUS :: "vm \<Rightarrow> ULONG \<times> vm" where
  "GetTimeUS s = cTimerGetuS s"

definition GetTime :: "vm \<Rightarrow> (ULONG \<times> vm) option" where
  "GetTime s = do {
     let (now, s) = cTimerGetuS s;
     P \<leftarrow> Program s (ProgramId s);
     Some (now - prg_RunTime P, s)
   }"

text \<open>The statement \<open>*PrimParPointer() = cTimerGetmS() + Time\<close> has two calls whose order C
  leaves open; they share no state.\<close>

definition cTimerWait :: "vm \<Rightarrow> vm option" where
  "cTimerWait s = do {
     (Time, s) \<leftarrow> get32 s;
     let (now, s) = cTimerGetmS s;
     put32 (now + Time) s
   }"

definition cTimerReady :: "vm \<Rightarrow> vm option" where
  "cTimerReady s = do {
     let TmpIp = GetObjectIp s;
     (Timer, s) \<leftarrow> get32 s;
     let (now, s) = cTimerGetmS s;
     let DspStat = (if Timer \<le> now then NOBREAK else BUSYBREAK);
     let s = (if DspStat = BUSYBREAK then SetObjectIp (TmpIp - 1) s else s);
     Some (SetDispatchStatus DspStat s)
   }"

definition cTimerRead :: "vm \<Rightarrow> vm option" where
  "cTimerRead s = do {
     P \<leftarrow> Program s (CurrentProgramId s);
     let (now, s) = cTimerGetmS s;
     put32 (now - prg_StartTime P) s
   }"

definition cTimerReaduS :: "vm \<Rightarrow> vm option" where
  "cTimerReaduS s = do {
     let (now, s) = cTimerGetuS s;
     put32 now s
   }"

subsection \<open>What the clock reads\<close>

text \<open>The time in milliseconds and microseconds that the next reading of the clock gives.\<close>

definition now_ms :: "vm \<Rightarrow> ULONG" where
  "now_ms s = tv_sec (Clock s (ClockNo s)) * 1000 + tv_usec (Clock s (ClockNo s)) div 1000"

definition now_us :: "vm \<Rightarrow> ULONG" where
  "now_us s = tv_sec (Clock s (ClockNo s)) * 1000000 + tv_usec (Clock s (ClockNo s))"

text \<open>The clock is read once.\<close>

definition tick :: "vm \<Rightarrow> vm" where
  "tick s = s\<lparr>ClockNo := Suc (ClockNo s)\<rparr>"

lemma cTimerGetmS_eq [vm_exec]: "cTimerGetmS s = (now_ms s, tick s)"
  by (simp add: cTimerGetmS_def gettimeofday_def now_ms_def tick_def Let_def)

lemma cTimerGetuS_eq [vm_exec]: "cTimerGetuS s = (now_us s, (tick s)\<lparr>TimeuS := now_us s\<rparr>)"
  by (simp add: cTimerGetuS_def gettimeofday_def now_us_def tick_def Let_def)

lemma tick_sel [simp]:
  "mem (tick s) = mem s" "ObjectIp (tick s) = ObjectIp s" "Consts (tick s) = Consts s"
  "Program (tick s) = Program s" "ProgramId (tick s) = ProgramId s" "Value (tick s) = Value s"
  "pGlobal (tick s) = pGlobal s" "ObjectLocal (tick s) = ObjectLocal s" "Clock (tick s) = Clock s"
  "ClockNo (tick s) = Suc (ClockNo s)" "pPoolList (tick s) = pPoolList s" "Handle (tick s) = Handle s"
  by (simp_all add: tick_def)

lemma now_regs:
  assumes "regs_only s t"
  shows "now_ms t = now_ms s" "now_us t = now_us s" "regs_only (tick s) (tick t)"
  using assms unfolding regs_only_def now_ms_def now_us_def tick_def by (cases s; cases t; simp)+

lemma denote_cong:
  assumes "mem t = mem s" and "pGlobal t = pGlobal s" and "ObjectLocal t = ObjectLocal s"
    and "pPoolList t = pPoolList s" and "Consts t = Consts s" and "ProgramId t = ProgramId s"
    and "Program t = Program s" and "ObjectIp t = ObjectIp s" and "Value t = Value s"
  shows "denote t p = denote s p"
proof -
  have b: "base sc t = base sc s" for sc by (cases sc) (simp_all add: assms(2,3))
  show ?thesis
  proof (cases p)
    case (Hnd sc w i)
    show ?thesis
      using load16_mem_cong [OF assms(1)] ArraryPointer_cong [OF assms(4,5)]
      by (simp add: Hnd b assms(6) cong: option.case_cong)
  next
    case (Adr sc w i)
    show ?thesis using load32_mem_cong [OF assms(1)] by (simp add: Adr b)
  next
    case (Lab i)
    show ?thesis by (simp add: Lab label_of_def assms(6-8))
  qed (simp_all add: b assms(8,9))
qed

lemma denote_tick [simp]: "denote (tick s) p = denote s p"
  "denote ((tick s)\<lparr>TimeuS := v\<rparr>) p = denote s p"
  by (rule denote_cong; simp)+

lemma operand_addr_tick [simp]: "operand_addr (tick s) p = operand_addr s p"
  "operand_addr ((tick s)\<lparr>TimeuS := v\<rparr>) p = operand_addr s p"
  by (simp_all add: operand_addr_def)

subsection \<open>Waiting\<close>

text \<open>\<open>opTIMER_WAIT\<close> reads the clock once and stores the time in
  milliseconds at which the waiting ends, moves past its two parameters and changes nothing
  else.\<close>

theorem timer_wait:
  assumes ops: "operands1 load32 load32 s p r a d"
  shows "\<exists>t. cTimerWait s = Some t \<and>
    wrote load32 4 d (now_ms s + a) (ObjectIp s + of_nat (length (enc p @ enc r))) (tick s) t"
proof -
  have code: "code_at s (ObjectIp s) (enc p)" "code_at s (ObjectIp s + of_nat (length (enc p))) (enc r)"
    and wf: "wf p" "wf r" "numeric r" and d: "operand_addr s r = Some d"
    using ops by (auto simp: operands1_def code_at_append)
  obtain y where y: "load32 s (PtrMem d) = Some y" using ops by (auto simp: operands1_def)
  obtain t where t: "get32 s = Some (a, t)" "past p s t"
    using c32.get_exec [OF code(1) wf(1)] ops by (auto simp: operands1_def)
  then have r: "regs_only s t" and ip: "ObjectIp t = ObjectIp s + of_nat (length (enc p))"
    by (simp_all add: past_def)
  have c: "code_at (tick t) (ObjectIp (tick t)) (enc r)"
    using code(2) ip code_at_cong [of "tick t" s] by (simp add: regs_onlyD(1) [OF r])
  have y': "load32 (tick t) (PtrMem d) = Some y"
    using y load32_mem_cong [of "tick t" s] by (simp add: regs_onlyD(1) [OF r])
  have d': "operand_addr (tick t) r = Some d" using d by (simp add: operand_addr_regs [OF wf(3) r])
  obtain v where "put32 (now_ms s + a) (tick t) = Some v"
      "wrote load32 4 d (now_ms s + a) (ObjectIp (tick t) + of_nat (length (enc r))) (tick t) v"
    using c32.put_exec [OF c wf(2) d' y'] by blast
  then show ?thesis
    using t wrote_regs [OF now_regs(3) [OF r]] by (simp add: cTimerWait_def vm_exec now_regs(1) [OF r] ip add.assoc)
qed

text \<open>\<open>opTIMER_READY\<close> goes on past its parameter if the stored time has come,
  and otherwise rewinds to the byte code before it and gives up the time slice; that is
  repeated until the clock reads at least the stored time, as an unsigned number.\<close>

theorem timer_ready:
  assumes "code_at s (ObjectIp s) (enc p)" and "wf p" and "operand_value load32 s p = Some a"
  shows "\<exists>t. cTimerReady s = Some t \<and>
    (if a \<le> now_ms s
     then DispatchStatus t = NOBREAK \<and> ObjectIp t = ObjectIp s + of_nat (length (enc p)) \<and> Priority t = Priority s
     else DispatchStatus t = BUSYBREAK \<and> ObjectIp t = ObjectIp s - 1 \<and> Priority t = 0) \<and>
    mem t = mem s \<and> Program t = Program s \<and> ClockNo t = Suc (ClockNo s)"
proof -
  obtain t where t: "get32 s = Some (a, t)" "past p s t"
    using c32.get_exec [OF assms] by blast
  then have r: "regs_only s t" and ip: "ObjectIp t = ObjectIp s + of_nat (length (enc p))"
    by (simp_all add: past_def)
  have pr: "Priority (tick t) = Priority s" "ClockNo t = ClockNo s"
    using r unfolding regs_only_def tick_def by (cases s; cases t; simp)+
  show ?thesis
    using t(1) pr
    by (simp add: cTimerReady_def vm_exec now_regs(1) [OF r] ip GetObjectIp_def SetObjectIp_def
        SetDispatchStatus_def Let_def regs_onlyD [OF r])
qed

lemma over_iff:
  assumes "code_at s (ObjectIp s) (enc p)" and "wf p" and "operand_value load32 s p = Some a"
  shows "(\<exists>t. cTimerReady s = Some t \<and> DispatchStatus t = NOBREAK) \<longleftrightarrow> a \<le> now_ms s"
proof -
  obtain t where t: "get32 s = Some (a, t)" "past p s t"
    using c32.get_exec [OF assms] by blast
  then have r: "regs_only s t" by (simp add: past_def)
  show ?thesis
    using t(1) by (simp add: cTimerReady_def vm_exec now_regs(1) [OF r] SetDispatchStatus_def
        SetObjectIp_def Let_def)
qed

definition wraps :: "ULONG \<Rightarrow> ULONG \<Rightarrow> bool" where
  "wraps x y \<longleftrightarrow> 2 ^ 32 \<le> unat x + unat y"

lemma unat32: "unat (x :: ULONG) < 2 ^ 32"
  by (rule order_less_le_trans [OF unsigned_less]) simp

lemma unat_add: "unat (x + y) = unat x + unat y - (if wraps x y then 2 ^ 32 else 0)" for x y :: ULONG
  using unat32 [of x] unat32 [of y] by (simp add: wraps_def unat_word_ariths mod_if)

lemma wrapped_le: "x + a \<le> x + b \<longleftrightarrow> (if wraps x a = wraps x b then a \<le> b else wraps x a)" for x a b :: ULONG
  using unat32 [of x] unat32 [of a] unat32 [of b]
  unfolding word_le_nat_alt unat_add wraps_def by (simp split: if_splits) linarith

text \<open>C39: a timer set at \<open>start\<close> for \<open>a\<close> milliseconds and polled when \<open>b\<close>
  milliseconds have gone by: if the end of the wait and the clock lie on the same side of the
  wrap-around of the millisecond counter, it is ready exactly when \<open>b\<close> is at least \<open>a\<close>; if
  only the end of the wait is past it, it is ready at once, whatever \<open>a\<close> is; if only the
  clock is past it, it is not.\<close>

theorem timer_accuracy:
  assumes "code_at s (ObjectIp s) (enc p)" and "wf p"
    and "operand_value load32 s p = Some (start + a)" and "now_ms s = start + b"
  shows "(\<exists>t. cTimerReady s = Some t \<and> DispatchStatus t = NOBREAK) \<longleftrightarrow>
    (if wraps start a = wraps start b then a \<le> b else wraps start a)"
  using over_iff [OF assms(1-3)] by (simp add: assms(4) wrapped_le)

text \<open>\<open>opTIMER_READ\<close> stores the milliseconds since the program was started and
  \<open>opTIMER_READ_US\<close> the clock in microseconds, both modulo 32 bits.\<close>

theorem timer_read:
  assumes "code_at s (ObjectIp s) (enc r)" and "wf r" and "operand_addr s r = Some d"
    and "load32 s (PtrMem d) \<noteq> None" and "Program s (ProgramId s) = Some P"
  shows "(\<exists>t. cTimerRead s = Some t \<and>
      wrote load32 4 d (now_ms s - prg_StartTime P) (ObjectIp s + of_nat (length (enc r))) (tick s) t) \<and>
    (\<exists>t. cTimerReaduS s = Some t \<and>
      wrote load32 4 d (now_us s) (ObjectIp s + of_nat (length (enc r))) ((tick s)\<lparr>TimeuS := now_us s\<rparr>) t)"
proof -
  have c: "code_at (tick s) (ObjectIp (tick s)) (enc r)"
    using assms(1) code_at_cong [of "tick s" s] by simp
  have c': "code_at ((tick s)\<lparr>TimeuS := now_us s\<rparr>) (ObjectIp ((tick s)\<lparr>TimeuS := now_us s\<rparr>)) (enc r)"
    using assms(1) code_at_cong [of "(tick s)\<lparr>TimeuS := now_us s\<rparr>" s] by simp
  obtain y where y: "load32 s (PtrMem d) = Some y" using assms(4) by auto
  have y': "load32 (tick s) (PtrMem d) = Some y" "load32 ((tick s)\<lparr>TimeuS := now_us s\<rparr>) (PtrMem d) = Some y"
    using y load32_mem_cong [of "tick s" s] load32_mem_cong [of "(tick s)\<lparr>TimeuS := now_us s\<rparr>" s]
    by simp_all
  show ?thesis
    using c32.put_exec [OF c assms(2) _ y'(1), of "now_ms s - prg_StartTime P"]
      c32.put_exec [OF c' assms(2) _ y'(2), of "now_us s"] assms(3,5)
    by (simp add: cTimerRead_def cTimerReaduS_def vm_exec CurrentProgramId_def)
qed

subsection \<open>Witnesses\<close>

text \<open>The parameters of \<open>opTIMER_WAIT\<close>: 1000 milliseconds, the timer is the global variable 4.\<close>

definition sample_wait :: "UBYTE list" where
  "sample_wait = enc (Const W2 1000) @ enc (Var Global W0 4)"

lemma sample_wait_bytes: "sample_wait = [0x82, 0xE8, 0x03, 0x64]"
  by (simp add: sample_wait_def LC2_def GV0_def primpar_defs byte_of_def)

lemma sample_timer_operands:
  "operands1 load32 load32 (sample_vm sample_wait) (Const W2 1000) (Var Global W0 4) 1000 0x1004"
proof -
  have "code_at (sample_vm sample_wait) 0x100 sample_wait"
    by (simp add: sample_wait_bytes sample_mem_def)
  then show ?thesis
    unfolding operands1_def sample_wait_def [symmetric] sample_vm_sel
    by (simp add: operand_value_def operand_addr_def load32_def sample_mem_def sample_wait_bytes
        byte_of_def)
qed

lemma sample_now: "now_ms (sample_vm c) = 0" "now_us (sample_vm c) = 0"
  by (simp_all add: now_ms_def now_us_def)

theorem timer_wait_witness:
  "\<exists>t. cTimerWait (sample_vm sample_wait) = Some t \<and> load32 t (PtrMem 0x1004) = Some 1000"
  using timer_wait [OF sample_timer_operands] by (auto simp: wrote_def sample_now)

lemma sample_const_operand:
  "code_at (sample_vm sample_wait) (ObjectIp (sample_vm sample_wait)) (enc (Const W2 1000))"
  "operand_value load32 (sample_vm sample_wait) (Const W2 1000) = Some 1000"
  using sample_timer_operands by (auto simp: operands1_def code_at_append simp del: enc.simps)

theorem timer_ready_witness:
  "\<exists>t. cTimerReady (sample_vm sample_wait) = Some t \<and> DispatchStatus t = BUSYBREAK \<and> ObjectIp t = 0xFF"
  using timer_ready [OF sample_const_operand(1) _ sample_const_operand(2)] by (auto simp: sample_now)

theorem timer_accuracy_witness:
  "(\<exists>t. cTimerReady (sample_vm sample_wait) = Some t \<and> DispatchStatus t = NOBREAK) \<longleftrightarrow>
     (if wraps 0 1000 = wraps 0 0 then (1000 :: ULONG) \<le> 0 else wraps 0 1000)"
  using timer_accuracy [OF sample_const_operand(1), where start = 0 and a = 1000 and b = 0] sample_const_operand(2)
  by (simp add: sample_now)

theorem timer_read_witness:
  "\<exists>t. cTimerRead (sample_vm [0x64]) = Some t \<and> load32 t (PtrMem 0x1004) = Some 0"
  using timer_read [of "sample_vm [0x64]" "Var Global W0 4" "0x1004" sample_prg]
  by (auto simp: operand_addr_def GV0_def primpar_defs sample_now wrote_def load32_def sample_mem_def
      sample_prg_def)

end
