(* ===== verification/VM_Objects.thy ===== *)
theory VM_Objects
  imports VM_Timer
begin

text \<open>
  Programs and their objects in \<open>lms2012.c\<close>: switching a program in and out
  (\<open>ProgramInit\<close>, \<open>ProgramExit\<close>), finding the next program (\<open>ProgramExec\<close>), and the same
  for the objects, the VM threads, of the current program (\<open>ObjectInit\<close>, \<open>ObjectExit\<close>,
  \<open>ObjectExec\<close>), which \<open>ObjectReset\<close>, \<open>ObjectEnQueue\<close> and \<open>ObjectDeQueue\<close> start and stop.
  The searches are round robin: the locale \<open>round_robin\<close> states what that promises.
\<close>

subsection \<open>Accessing programs and objects\<close>

definition upd_prg :: "PRGID \<Rightarrow> (PRG \<Rightarrow> PRG) \<Rightarrow> vm \<Rightarrow> vm option" where
  "upd_prg p f s = do { P \<leftarrow> Program s p; Some (s\<lparr>Program := (Program s)(p \<mapsto> f P)\<rparr>) }"

text \<open>\<open>pObjList[ObjId]\<close>, and the object at an address.\<close>

definition obj_ptr :: "vm \<Rightarrow> ULONG \<Rightarrow> OBJID \<Rightarrow> ULONG option" where
  "obj_ptr s L i = load32 s (PtrMem (L + 4 * ucast i))"

definition obj_at :: "vm \<Rightarrow> ULONG \<Rightarrow> OBJ option" where
  "obj_at s a = (if mem s a = None then None else ObjHeap s a)"

definition get_obj :: "vm \<Rightarrow> ULONG \<Rightarrow> OBJID \<Rightarrow> OBJ option" where
  "get_obj s L i = do { a \<leftarrow> obj_ptr s L i; obj_at s a }"

definition upd_obj :: "ULONG \<Rightarrow> OBJID \<Rightarrow> (OBJ \<Rightarrow> OBJ) \<Rightarrow> vm \<Rightarrow> vm option" where
  "upd_obj L i f s = do {
     a \<leftarrow> obj_ptr s L i;
     ob \<leftarrow> obj_at s a;
     Some (s\<lparr>ObjHeap := (ObjHeap s)(a \<mapsto> f ob)\<rparr>)
   }"

text \<open>The fields of an object header, \<open>OBJHEAD\<close>, of 12 bytes.\<close>

definition OffsetToInstructions :: "vm \<Rightarrow> ULONG \<Rightarrow> OBJID \<Rightarrow> ULONG option" where
  "OffsetToInstructions s H i = load32 s (PtrMem (H + sizeof_OBJHEAD * ucast i))"

definition OwnerObjectId :: "vm \<Rightarrow> ULONG \<Rightarrow> OBJID \<Rightarrow> OBJID option" where
  "OwnerObjectId s H i = load16 s (PtrMem (H + sizeof_OBJHEAD * ucast i + 4))"

definition TriggerCount :: "vm \<Rightarrow> ULONG \<Rightarrow> OBJID \<Rightarrow> UWORD option" where
  "TriggerCount s H i = load16 s (PtrMem (H + sizeof_OBJHEAD * ucast i + 6))"

definition LocalBytes :: "vm \<Rightarrow> ULONG \<Rightarrow> OBJID \<Rightarrow> ULONG option" where
  "LocalBytes s H i = load32 s (PtrMem (H + sizeof_OBJHEAD * ucast i + 8))"

definition valid_id :: "vm \<Rightarrow> OBJID \<Rightarrow> bool" where
  "valid_id s i \<longleftrightarrow> i > 0 \<and> i \<le> Objects s"

subsection \<open>The code\<close>

definition ObjectReset :: "OBJID \<Rightarrow> vm \<Rightarrow> vm option" where
  "ObjectReset ObjId s = do {
     off \<leftarrow> OffsetToInstructions s (pObjHead s) ObjId;
     s \<leftarrow> upd_obj (pObjList s) ObjId (\<lambda>ob. ob\<lparr>Ip := pImage s + off\<rparr>) s;
     n \<leftarrow> TriggerCount s (pObjHead s) ObjId;
     upd_obj (pObjList s) ObjId (\<lambda>ob. ob\<lparr>u := n\<rparr>) s
   }"

definition ProgramInit :: "vm \<Rightarrow> vm option" where
  "ProgramInit s =
     (if ProgramId s < MAX_PROGRAMS s then do {
        P \<leftarrow> Program s (ProgramId s);
        Some (if prg_Status P = RUNNING \<or> prg_Status P = WAITING then
          s\<lparr>pGlobal := prg_pGlobal P, pImage := prg_pImage P, pObjHead := prg_pObjHead P,
            pObjList := prg_pObjList P, Objects := prg_Objects P, ObjectId := prg_ObjectId P,
            ObjectIp := prg_ObjectIp P, ObjectLocal := prg_ObjectLocal P, InstrCnt := 0,
            Debug := prg_Debug P\<rparr>
          else s)
      }
      else Some s)"

definition ProgramExit :: "vm \<Rightarrow> vm option" where
  "ProgramExit s =
     (if ProgramId s < MAX_PROGRAMS s then do {
        s \<leftarrow> upd_prg (ProgramId s) (\<lambda>P. P\<lparr>prg_pGlobal := pGlobal s, prg_pImage := pImage s,
            prg_pObjHead := pObjHead s, prg_pObjList := pObjList s, prg_Objects := Objects s,
            prg_ObjectId := ObjectId s, prg_ObjectIp := ObjectIp s, prg_ObjectLocal := ObjectLocal s,
            prg_InstrCnt := prg_InstrCnt P + InstrCnt s, prg_Debug := Debug s\<rparr>) s;
        let s = s\<lparr>InstrCnt := 0\<rparr>;
        upd_prg (ProgramId s) (\<lambda>P. P\<lparr>prg_Debug := Debug s\<rparr>) s
      }
      else Some s)"

fun find_active :: "PRGID list \<Rightarrow> vm \<Rightarrow> RESULT option" where
  "find_active [] s = Some STOP"
| "find_active (TmpId # ids) s = do {
     P \<leftarrow> Program s TmpId;
     if prg_Status P \<noteq> STOPPED then Some OK else find_active ids s
   }"

definition next_program :: "PRGID \<Rightarrow> PRGID \<Rightarrow> PRGID" where
  "next_program n p = (if p + 1 \<ge> n then 0 else p + 1)"

partial_function (option) switch_program :: "vm \<Rightarrow> vm option" where
  "switch_program s = do {
     let s = s\<lparr>ProgramId := next_program (MAX_PROGRAMS s) (ProgramId s)\<rparr>;
     P \<leftarrow> Program s (ProgramId s);
     if prg_Status P = STOPPED then switch_program s else Some s
   }"

definition ProgramExec :: "vm \<Rightarrow> (RESULT \<times> vm) option" where
  "ProgramExec s = do {
     Result \<leftarrow> find_active (map of_nat [0..<unat (MAX_PROGRAMS s)]) s;
     if Result = OK then do { s \<leftarrow> switch_program s; Some (Result, s) }
     else Some (Result, s)
   }"

definition ObjectInit :: "vm \<Rightarrow> (DSPSTAT \<times> vm) option" where
  "ObjectInit s = do {
     (Result, s) \<leftarrow>
       (if valid_id s (ObjectId s) then do {
          ob \<leftarrow> get_obj s (pObjList s) (ObjectId s);
          Some (if ObjStatus ob = RUNNING
                then (NOBREAK, s\<lparr>ObjectIp := Ip ob, ObjectLocal := pLocal ob\<rparr>)
                else (STOPBREAK, s))
        }
        else Some (STOPBREAK, s));
     Some (Result,
       if ProgramId s = GUI_SLOT (Consts s) \<or> ProgramId s = DEBUG_SLOT (Consts s)
       then s\<lparr>Priority := UI_PRIORITY\<rparr> else s\<lparr>Priority := PRG_PRIORITY\<rparr>)
   }"

definition ObjectExit :: "vm \<Rightarrow> vm option" where
  "ObjectExit s =
     (if valid_id s (ObjectId s) then do {
        P \<leftarrow> Program s (ProgramId s);
        if prg_Status P \<noteq> STOPPED then do {
          ob \<leftarrow> get_obj s (pObjList s) (ObjectId s);
          if ObjStatus ob = RUNNING
          then upd_obj (pObjList s) (ObjectId s) (\<lambda>ob. ob\<lparr>Ip := ObjectIp s\<rparr>) s
          else Some s
        }
        else Some s
      }
      else Some s)"

definition next_object :: "OBJID \<Rightarrow> OBJID \<Rightarrow> OBJID" where
  "next_object n i = (if i + 1 > n then 1 else i + 1)"

partial_function (option) switch_object :: "OBJID \<Rightarrow> vm \<Rightarrow> (RESULT \<times> vm) option" where
  "switch_object TmpId s = do {
     let s = s\<lparr>ObjectId := next_object (Objects s) (ObjectId s)\<rparr>;
     let TmpId = TmpId + 1;
     if TmpId > Objects s then Some (STOP, s)
     else do {
       ob \<leftarrow> get_obj s (pObjList s) (ObjectId s);
       if ObjStatus ob \<noteq> RUNNING then switch_object TmpId s else Some (OK, s)
     }
   }"

definition ObjectExec :: "vm \<Rightarrow> (RESULT \<times> vm) option" where
  "ObjectExec s = do {
     user \<leftarrow> Program s (USER_SLOT (Consts s));
     if ProgramId s = GUI_SLOT (Consts s) \<and> prg_Status user \<noteq> STOPPED then do {
       gui \<leftarrow> Program s (GUI_SLOT (Consts s));
       Some (OK,
         if Objects s \<ge> 3 \<and> prg_Status gui \<noteq> STOPPED
         then (if ObjectId s \<noteq> 2 then s\<lparr>ObjectId := 2\<rparr> else s\<lparr>ObjectId := 3\<rparr>)
         else s)
     }
     else switch_object 0 s
   }"

definition ObjectEnQueue :: "OBJID \<Rightarrow> vm \<Rightarrow> vm option" where
  "ObjectEnQueue i s =
     (if valid_id s i then do {
        s \<leftarrow> upd_obj (pObjList s) i (\<lambda>ob. ob\<lparr>ObjStatus := RUNNING\<rparr>) s;
        off \<leftarrow> OffsetToInstructions s (pObjHead s) i;
        s \<leftarrow> upd_obj (pObjList s) i (\<lambda>ob. ob\<lparr>Ip := pImage s + off\<rparr>) s;
        n \<leftarrow> TriggerCount s (pObjHead s) i;
        upd_obj (pObjList s) i (\<lambda>ob. ob\<lparr>u := n\<rparr>) s
      }
      else Some s)"

definition ObjectDeQueue :: "OBJID \<Rightarrow> vm \<Rightarrow> vm option" where
  "ObjectDeQueue i s =
     (if valid_id s i then do {
        s \<leftarrow> upd_obj (pObjList s) i (\<lambda>ob. ob\<lparr>Ip := ObjectIp s\<rparr>) s;
        s \<leftarrow> upd_obj (pObjList s) i (\<lambda>ob. ob\<lparr>ObjStatus := STOPPED\<rparr>) s;
        Some (SetDispatchStatus STOPBREAK s)
      }
      else Some s)"

subsection \<open>Round robin\<close>

text \<open>The contract of a rotation: from any starting point every member of the ring is reached,
  in at most one round. So the first member that satisfies a predicate exists and is found.\<close>

definition first_hit :: "('a \<Rightarrow> 'a) \<Rightarrow> ('a \<Rightarrow> bool) \<Rightarrow> 'a \<Rightarrow> nat \<Rightarrow> bool" where
  "first_hit step P x k \<longleftrightarrow> 0 < k \<and> P ((step ^^ k) x) \<and> (\<forall>j. 0 < j \<longrightarrow> j < k \<longrightarrow> \<not> P ((step ^^ j) x))"

lemma first_hit_Suc:
  "first_hit step P x (Suc k) \<longleftrightarrow> (if P (step x) then k = 0 else first_hit step P (step x) k)"
proof (cases "P (step x)")
  case True
  then show ?thesis
    unfolding first_hit_def by (cases k) (auto intro!: exI [of _ "1 :: nat"])
next
  case False
  have shift: "(step ^^ Suc j) x = (step ^^ j) (step x)" for j by (simp add: funpow_swap1)
  show ?thesis
  proof
    assume h: "first_hit step P x (Suc k)"
    then have "P ((step ^^ k) (step x))" unfolding first_hit_def shift by simp
    moreover have "\<not> P ((step ^^ j) (step x))" if "0 < j" "j < k" for j
      using h that unfolding first_hit_def by (metis shift Suc_less_eq zero_less_Suc)
    ultimately show "if P (step x) then k = 0 else first_hit step P (step x) k"
      using False unfolding first_hit_def by (cases k) auto
  next
    assume "if P (step x) then k = 0 else first_hit step P (step x) k"
    then have h: "first_hit step P (step x) k" using False by simp
    have "\<not> P ((step ^^ j) x)" if "0 < j" "j < Suc k" for j
    proof (cases j)
      case (Suc i)
      then show ?thesis
        using h that False unfolding Suc shift by (cases i) (auto simp: first_hit_def)
    qed (use that in simp)
    with h show "first_hit step P x (Suc k)" unfolding first_hit_def shift by simp
  qed
qed

locale round_robin =
  fixes step :: "'a \<Rightarrow> 'a" and ring :: "'a set" and start :: "'a set"
  assumes step_ring: "x \<in> start \<Longrightarrow> step x \<in> ring"
    and ring_start: "ring \<subseteq> start"
    and reach: "x \<in> start \<Longrightarrow> y \<in> ring \<Longrightarrow> \<exists>k. 0 < k \<and> k \<le> card ring \<and> (step ^^ k) x = y"
begin

lemma steps_ring: "x \<in> start \<Longrightarrow> 0 < k \<Longrightarrow> (step ^^ k) x \<in> ring"
proof (induction k)
  case (Suc k)
  then show ?case using step_ring ring_start by (cases k) auto
qed simp

lemma first_exists:
  assumes "x \<in> start" and "y \<in> ring" and "P y"
  shows "\<exists>k. first_hit step P x k \<and> k \<le> card ring"
proof -
  obtain k where k: "0 < k \<and> P ((step ^^ k) x)" "k \<le> card ring"
    using reach [OF assms(1,2)] assms(3) by auto
  define m where "m = (LEAST k. 0 < k \<and> P ((step ^^ k) x))"
  have m: "0 < m \<and> P ((step ^^ m) x)"
    unfolding m_def by (rule LeastI) (rule k(1))
  have "m \<le> k" unfolding m_def by (rule Least_le) (rule k(1))
  moreover have "\<not> P ((step ^^ j) x)" if "0 < j" "j < m" for j
    using that not_less_Least [of j "\<lambda>k. 0 < k \<and> P ((step ^^ k) x)"] by (auto simp: m_def)
  ultimately show ?thesis using k(2) m unfolding first_hit_def by auto
qed

end

text \<open>Counting up and wrapping around is such a rotation, for the program slots and for the
  objects of a program.\<close>

lemma rotate_reach:
  assumes "(b :: nat) < n"
  shows "\<exists>k. 0 < k \<and> k \<le> n \<and> (a + k) mod n = b"
proof (cases "a mod n < b")
  case True
  have "(a + (b - a mod n)) mod n = (a mod n + (b - a mod n)) mod n" by (simp add: mod_add_left_eq)
  with True assms show ?thesis by (intro exI [of _ "b - a mod n"]) simp
next
  case False
  have "a mod n < n" using assms by simp
  have "(a + (b + n - a mod n)) mod n = (a mod n + (b + n - a mod n)) mod n" by (simp add: mod_add_left_eq)
  then show ?thesis
    using False assms \<open>a mod n < n\<close> by (intro exI [of _ "b + n - a mod n"]) simp
qed

lemma unat16: "unat (x :: UWORD) < 65536"
  by (rule order_less_le_trans [OF unsigned_less]) simp

lemma max16: "unat (- 1 :: UWORD) = 65535"
  by (simp add: unsigned_minus_1_eq_mask mask_eq_exp_minus_1)

lemma unat_of_nat16: "i < 65536 \<Longrightarrow> unat (of_nat i :: UWORD) = i"
  by (simp add: unat_of_nat)

lemma unat_next_program:
  assumes "0 < n"
  shows "unat (next_program n p) = (if unat p < unat n then Suc (unat p) mod unat n else 0)"
proof (cases "unat p = 65535")
  case True
  then have "p = - 1" by (simp only: word_unat_eq_iff max16)
  then show ?thesis using assms unat16 [of n] by (simp add: next_program_def word_less_nat_alt word_le_nat_alt max16)
next
  case False
  then have "unat (p + 1) = Suc (unat p)" using unat16 [of p] by (simp add: unat_word_ariths)
  then show ?thesis using assms by (auto simp: next_program_def word_le_nat_alt mod_if)
qed

lemma unat_programs: "0 < n \<Longrightarrow> p < n \<Longrightarrow> unat ((next_program n ^^ k) p) = (unat p + k) mod unat n"
  by (induction k) (auto simp: unat_next_program word_less_nat_alt mod_Suc_eq)

lemma card_words: "card {p :: PRGID. p < n} = unat n"
proof -
  have "i \<in> unat ` {p :: PRGID. p < n}" if "i < unat n" for i
    using that unat16 [of n] by (intro image_eqI [of _ _ "of_nat i"]) (simp_all add: unat_of_nat16 word_less_nat_alt)
  then have "unat ` {p. p < n} = {..<unat n}"
    by (auto simp: word_less_nat_alt)
  moreover have "inj_on unat {p. p < n}" by (simp add: inj_on_def word_unat_eq_iff)
  ultimately show ?thesis by (metis card_image card_lessThan)
qed

interpretation programs: round_robin "next_program n" "{p. p < n}" "{p. 0 < n}" for n
proof unfold_locales
  fix x y :: PRGID
  have step: "next_program n x < n" if "0 < n"
    using that unat_next_program [OF that, of x] by (simp add: word_less_nat_alt)
  show "x \<in> {p. 0 < n} \<Longrightarrow> next_program n x \<in> {p. p < n}"
    using step by (simp split: if_splits)
  show "{p. p < n} \<subseteq> {p. 0 < n}" by (auto simp: word_less_nat_alt)
  assume x: "x \<in> {p. 0 < n}" and y: "y \<in> {p. p < n}"
  from x have n: "0 < n" by (simp split: if_splits)
  show "\<exists>k. 0 < k \<and> k \<le> card {p. p < n} \<and> (next_program n ^^ k) x = y"
  proof (cases "x < n")
    case True
    obtain k where "0 < k" "k \<le> unat n" "(unat x + k) mod unat n = unat y"
      using rotate_reach [of "unat y" "unat n" "unat x"] y by (auto simp: word_less_nat_alt)
    then show ?thesis
      using unat_programs [OF n True, of k] by (auto simp: card_words word_unat_eq_iff)
  next
    case False
    then have z: "next_program n x = 0"
      using n unat_next_program [of n x] by (simp add: word_less_nat_alt unat_eq_0)
    have "unat ((next_program n ^^ unat y) 0) = unat y"
      using unat_programs [of n 0 "unat y"] n y by (simp add: word_less_nat_alt)
    then have "(next_program n ^^ unat y) (next_program n x) = y" by (simp only: z word_unat_eq_iff)
    then have "(next_program n ^^ Suc (unat y)) x = y" by (simp add: funpow_Suc_right del: funpow.simps)
    then show ?thesis
      using y unfolding card_words
      by (intro exI [of _ "Suc (unat y)"]) (simp add: word_less_nat_alt Suc_le_eq del: funpow.simps)
  qed
qed

lemma unat_next_object:
  assumes "i \<le> n" and "0 < n" and "n \<noteq> - 1"
  shows "unat (next_object n i) = unat i mod unat n + 1"
proof -
  have "unat n \<noteq> 65535" using assms(3) by (simp only: word_unat_eq_iff max16) simp
  then have "unat n < 65535" using unat16 [of n] by simp
  then have "unat (i + 1) = Suc (unat i)"
    using assms(1) by (simp add: unat_word_ariths word_le_nat_alt)
  then show ?thesis using assms by (auto simp: next_object_def word_le_nat_alt word_less_nat_alt mod_if)
qed

lemma unat_objects:
  assumes "i \<le> n" and "0 < n" and "n \<noteq> - 1" and "0 < k"
  shows "unat ((next_object n ^^ k) i) = (unat i + (k - 1)) mod unat n + 1"
  using assms(4)
proof (induction k)
  case (Suc k)
  show ?case
  proof (cases k)
    case 0
    then show ?thesis using unat_next_object [OF assms(1-3)] by simp
  next
    case (Suc m)
    let ?j = "(next_object n ^^ k) i"
    have j: "unat ?j = (unat i + m) mod unat n + 1" using Suc.IH Suc by simp
    have "(unat i + m) mod unat n < unat n" using assms(2) by (simp add: word_less_nat_alt)
    then have le: "?j \<le> n" unfolding word_le_nat_alt j by simp
    have "unat (next_object n ?j) = ((unat i + m) mod unat n + 1) mod unat n + 1"
      using unat_next_object [OF le assms(2,3)] by (simp only: j)
    then show ?thesis by (simp add: Suc mod_Suc_eq)
  qed
qed simp

lemma card_objects: "card {i :: OBJID. 0 < i \<and> i \<le> n} = unat n"
proof -
  have "j \<in> unat ` {i :: OBJID. 0 < i \<and> i \<le> n}" if "1 \<le> j" "j \<le> unat n" for j
    using that unat16 [of n]
    by (intro image_eqI [of _ _ "of_nat j"]) (simp_all add: unat_of_nat16 word_less_nat_alt word_le_nat_alt)
  then have "unat ` {i :: OBJID. 0 < i \<and> i \<le> n} = {1..unat n}"
    by (auto simp: word_less_nat_alt word_le_nat_alt)
  moreover have "inj_on unat {i :: OBJID. 0 < i \<and> i \<le> n}" by (simp add: inj_on_def word_unat_eq_iff)
  then have "card (unat ` {i :: OBJID. 0 < i \<and> i \<le> n}) = card {i :: OBJID. 0 < i \<and> i \<le> n}"
    by (rule card_image)
  ultimately show ?thesis by simp
qed

interpretation objects: round_robin "next_object n" "{i. 0 < i \<and> i \<le> n \<and> n \<noteq> - 1}"
    "{i. i \<le> n \<and> 0 < n \<and> n \<noteq> - 1}" for n
proof unfold_locales
  fix x y :: OBJID
  show "{i. 0 < i \<and> i \<le> n \<and> n \<noteq> - 1} \<subseteq> {i. i \<le> n \<and> 0 < n \<and> n \<noteq> - 1}" by auto
  assume x: "x \<in> {i. i \<le> n \<and> 0 < n \<and> n \<noteq> - 1}"
  then have pos: "0 < unat n" by (simp add: word_less_nat_alt)
  then have "unat x mod unat n < unat n" by simp
  then have "unat (next_object n x) \<le> unat n" "0 < unat (next_object n x)"
    using unat_next_object [of x n] x by simp_all
  with x show "next_object n x \<in> {i. 0 < i \<and> i \<le> n \<and> n \<noteq> - 1}"
    by (simp add: word_less_nat_alt word_le_nat_alt)
  assume y: "y \<in> {i. 0 < i \<and> i \<le> n \<and> n \<noteq> - 1}"
  have "unat y - 1 < unat n" using y by (auto simp: word_less_nat_alt word_le_nat_alt)
  then obtain k where k: "0 < k" "k \<le> unat n" "(unat x + unat n - 1 + k) mod unat n = unat y - 1"
    using rotate_reach [of "unat y - 1" "unat n" "unat x + unat n - 1"] by blast
  have "(unat x + (k - 1)) mod unat n = (unat x + (k - 1) + unat n) mod unat n" by simp
  also have "\<dots> = unat y - 1" using k pos by (simp add: add.commute add.left_commute)
  finally have "(next_object n ^^ k) x = y"
    using unat_objects [of x n k] x y k(1) by (auto simp: word_unat_eq_iff word_less_nat_alt)
  with k(1,2) y show "\<exists>k. 0 < k \<and> k \<le> card {i. 0 < i \<and> i \<le> n \<and> n \<noteq> - 1} \<and> (next_object n ^^ k) x = y"
    by (auto simp: card_objects)
qed

subsection \<open>The next program\<close>

definition programs_ok :: "vm \<Rightarrow> bool" where
  "programs_ok s \<longleftrightarrow> 0 < MAX_PROGRAMS s \<and> (\<forall>p < MAX_PROGRAMS s. Program s p \<noteq> None)"

definition active :: "vm \<Rightarrow> PRGID \<Rightarrow> bool" where
  "active s p \<longleftrightarrow> (\<exists>P. Program s p = Some P \<and> prg_Status P \<noteq> STOPPED)"

lemma find_active_iff:
  "(\<And>p. p \<in> set ps \<Longrightarrow> Program s p \<noteq> None) \<Longrightarrow>
    find_active ps s = Some (if \<exists>p \<in> set ps. active s p then OK else STOP)"
proof (induction ps)
  case (Cons p ps)
  obtain P where P: "Program s p = Some P" using Cons.prems [of p] by auto
  show ?case using P Cons by (auto simp: active_def)
qed simp

lemma all_programs: "set (map of_nat [0..<unat n]) = {p :: PRGID. p < n}"
proof -
  have "p \<in> of_nat ` {0..<unat n}" if "p < n" for p :: PRGID
    using that by (intro image_eqI [of _ _ "unat p"]) (simp_all add: word_less_nat_alt)
  moreover have "(of_nat i :: PRGID) < n" if "i < unat n" for i
    using that unat16 [of n] by (simp add: word_less_nat_alt unat_of_nat16)
  ultimately show ?thesis by auto
qed

lemma switch_program_hit:
  "first_hit (next_program (MAX_PROGRAMS s)) (active s) (ProgramId s) k \<Longrightarrow> programs_ok s \<Longrightarrow>
    switch_program s = Some (s\<lparr>ProgramId := (next_program (MAX_PROGRAMS s) ^^ k) (ProgramId s)\<rparr>)"
proof (induction k arbitrary: s)
  case 0
  then show ?case by (simp add: first_hit_def)
next
  case (Suc k)
  let ?next = "next_program (MAX_PROGRAMS s)" and ?p = "next_program (MAX_PROGRAMS s) (ProgramId s)"
  let ?t = "s\<lparr>ProgramId := ?p\<rparr>"
  have same: "MAX_PROGRAMS ?t = MAX_PROGRAMS s" "active ?t = active s" "programs_ok ?t"
    using Suc.prems(2) by (auto simp: MAX_PROGRAMS_def active_def programs_ok_def fun_eq_iff)
  have "?p < MAX_PROGRAMS s"
    using programs.step_ring [of "ProgramId s" "MAX_PROGRAMS s"] Suc.prems(2) by (simp add: programs_ok_def)
  then obtain P where P: "Program s ?p = Some P" using Suc.prems(2) by (auto simp: programs_ok_def)
  show ?case
  proof (cases "active s ?p")
    case True
    then have "k = 0" using Suc.prems(1) by (simp add: first_hit_Suc)
    with True P show ?thesis by (subst switch_program.simps) (simp add: active_def)
  next
    case False
    then have hit: "first_hit ?next (active s) ?p k" using Suc.prems(1) by (simp add: first_hit_Suc)
    then have "switch_program ?t = Some (s\<lparr>ProgramId := (?next ^^ k) ?p\<rparr>)"
      using Suc.IH [of ?t] same by simp
    with False P show ?thesis
      by (subst switch_program.simps) (simp add: active_def funpow_swap1)
  qed
qed

text \<open>\<open>ProgramExec\<close> always returns; it answers \<open>STOP\<close> and leaves the machine
  alone if every program is stopped, and otherwise switches to the first program after the
  current one, counting round, that is not stopped, so no such program waits for more than
  one round.\<close>

theorem program_exec:
  assumes "programs_ok s"
  shows "if \<exists>p < MAX_PROGRAMS s. active s p
    then \<exists>k. first_hit (next_program (MAX_PROGRAMS s)) (active s) (ProgramId s) k \<and>
      k \<le> unat (MAX_PROGRAMS s) \<and>
      ProgramExec s = Some (OK, s\<lparr>ProgramId := (next_program (MAX_PROGRAMS s) ^^ k) (ProgramId s)\<rparr>)
    else ProgramExec s = Some (STOP, s)"
proof -
  let ?n = "MAX_PROGRAMS s"
  have found: "find_active (map of_nat [0..<unat ?n]) s = Some (if \<exists>p < ?n. active s p then OK else STOP)"
    using find_active_iff [of "map of_nat [0..<unat ?n]" s] assms unfolding all_programs programs_ok_def by auto
  show ?thesis
  proof (cases "\<exists>p < ?n. active s p")
    case True
    then obtain p where "p < ?n" "active s p" by auto
    then obtain k where k: "first_hit (next_program ?n) (active s) (ProgramId s) k" "k \<le> unat ?n"
      using programs.first_exists [of "ProgramId s" ?n p "active s"] assms
      by (auto simp: programs_ok_def card_words)
    then show ?thesis
      using True found switch_program_hit [OF k(1) assms] by (auto simp: ProgramExec_def)
  next
    case False
    then show ?thesis using found by (auto simp: ProgramExec_def)
  qed
qed

subsection \<open>The next object\<close>

text \<open>The objects of the current program are in memory.\<close>

definition objects_ok :: "vm \<Rightarrow> bool" where
  "objects_ok s \<longleftrightarrow> Objects s \<noteq> - 1 \<and> (\<forall>i. valid_id s i \<longrightarrow> get_obj s (pObjList s) i \<noteq> None)"

definition runnable :: "vm \<Rightarrow> OBJID \<Rightarrow> bool" where
  "runnable s i \<longleftrightarrow> (\<exists>ob. get_obj s (pObjList s) i = Some ob \<and> ObjStatus ob = RUNNING)"

lemma get_obj_cong: "mem t = mem s \<Longrightarrow> ObjHeap t = ObjHeap s \<Longrightarrow> get_obj t L i = get_obj s L i"
  unfolding get_obj_def obj_ptr_def using load32_mem_cong [of t s]
  by (intro bind_cong_Some) (auto simp: obj_at_def)

lemma objects_id [simp]:
  "get_obj (s\<lparr>ObjectId := j\<rparr>) L i = get_obj s L i" "valid_id (s\<lparr>ObjectId := j\<rparr>) i = valid_id s i"
  "runnable (s\<lparr>ObjectId := j\<rparr>) i = runnable s i" "objects_ok (s\<lparr>ObjectId := j\<rparr>) = objects_ok s"
proof -
  show g: "get_obj (s\<lparr>ObjectId := j\<rparr>) L i = get_obj s L i" for L i by (rule get_obj_cong) simp_all
  show v: "valid_id (s\<lparr>ObjectId := j\<rparr>) i = valid_id s i" for i by (simp add: valid_id_def)
  show "runnable (s\<lparr>ObjectId := j\<rparr>) i = runnable s i" "objects_ok (s\<lparr>ObjectId := j\<rparr>) = objects_ok s"
    by (simp_all add: runnable_def objects_ok_def g v)
qed

lemma next_object_valid:
  "objects_ok s \<Longrightarrow> 0 < Objects s \<Longrightarrow> i \<le> Objects s \<Longrightarrow> valid_id s (next_object (Objects s) i)"
  using objects.step_ring [of i "Objects s"] by (auto simp: objects_ok_def valid_id_def)

lemma unat_suc_id: "t \<noteq> (- 1 :: OBJID) \<Longrightarrow> unat (t + 1) = Suc (unat t)"
  using unat16 [of t] by (auto simp: unat_word_ariths word_unat_eq_iff max16 mod_if)

lemma switch_object_hit:
  assumes "objects_ok s" and "0 < Objects s"
  shows "first_hit (next_object (Objects s)) (runnable s) (ObjectId s) k \<Longrightarrow> ObjectId s \<le> Objects s \<Longrightarrow>
    unat TmpId + k \<le> unat (Objects s) \<Longrightarrow>
    switch_object TmpId s = Some (OK, s\<lparr>ObjectId := (next_object (Objects s) ^^ k) (ObjectId s)\<rparr>)"
  using assms
proof (induction k arbitrary: s TmpId)
  case 0
  then show ?case by (simp add: first_hit_def)
next
  case (Suc k)
  let ?n = "Objects s" and ?i = "next_object (Objects s) (ObjectId s)"
  let ?t = "s\<lparr>ObjectId := ?i\<rparr>"
  have "unat TmpId \<noteq> 65535" using Suc.prems(3) unat16 [of ?n] by linarith
  then have t1: "unat (TmpId + 1) = Suc (unat TmpId)"
    by (intro unat_suc_id) (metis max16)
  then have go: "\<not> TmpId + 1 > ?n" using Suc.prems(3) by (simp add: word_less_nat_alt)
  have v: "valid_id s ?i" by (rule next_object_valid) (use Suc.prems in auto)
  then obtain ob where ob: "get_obj s (pObjList s) ?i = Some ob"
    using Suc.prems(4) by (auto simp: objects_ok_def)
  show ?case
  proof (cases "runnable s ?i")
    case True
    then have "k = 0" using Suc.prems(1) by (simp add: first_hit_Suc)
    with True ob go show ?thesis by (subst switch_object.simps) (simp add: runnable_def)
  next
    case False
    then have "first_hit (next_object ?n) (runnable s) ?i k" using Suc.prems(1) by (simp add: first_hit_Suc)
    then have "switch_object (TmpId + 1) ?t = Some (OK, s\<lparr>ObjectId := (next_object ?n ^^ k) ?i\<rparr>)"
      using Suc.IH [of ?t "TmpId + 1"] v t1 Suc.prems by (simp add: valid_id_def)
    with False ob go show ?thesis
      by (subst switch_object.simps) (simp add: runnable_def funpow_swap1)
  qed
qed

lemma switch_object_none:
  assumes "objects_ok s" and none: "\<And>i. valid_id s i \<Longrightarrow> \<not> runnable s i" and "ObjectId s \<le> Objects s"
    and "unat TmpId + k = unat (Objects s)"
  shows "\<exists>i. switch_object TmpId s = Some (STOP, s\<lparr>ObjectId := i\<rparr>)"
  using assms
proof (induction k arbitrary: s TmpId)
  case 0
  then have "TmpId = Objects s" by (simp add: word_unat_eq_iff)
  moreover have "unat (Objects s + 1) = Suc (unat (Objects s))"
    using 0 by (intro unat_suc_id) (simp add: objects_ok_def)
  ultimately show ?case
    by (intro exI [of _ "next_object (Objects s) (ObjectId s)"], subst switch_object.simps)
      (simp add: word_less_nat_alt)
next
  case (Suc k)
  let ?i = "next_object (Objects s) (ObjectId s)"
  have "unat TmpId \<noteq> 65535" using Suc.prems(4) unat16 [of "Objects s"] by linarith
  then have t1: "unat (TmpId + 1) = Suc (unat TmpId)"
    by (intro unat_suc_id) (metis max16)
  then have go: "\<not> TmpId + 1 > Objects s" using Suc.prems(4) by (simp add: word_less_nat_alt)
  have "0 < Objects s" using Suc.prems(4) by (simp add: word_less_nat_alt)
  then have v: "valid_id s ?i" by (intro next_object_valid) (use Suc.prems in auto)
  then obtain ob where ob: "get_obj s (pObjList s) ?i = Some ob" "ObjStatus ob \<noteq> RUNNING"
    using Suc.prems(1) Suc.prems(2) [OF v] by (auto simp: objects_ok_def runnable_def)
  have "\<exists>i. switch_object (TmpId + 1) (s\<lparr>ObjectId := ?i\<rparr>) = Some (STOP, s\<lparr>ObjectId := i\<rparr>)"
    using Suc.IH [of "s\<lparr>ObjectId := ?i\<rparr>" "TmpId + 1"] v t1 Suc.prems by (simp add: valid_id_def)
  with ob go show ?case by (subst switch_object.simps) simp
qed

text \<open>\<open>ObjectExec\<close> returns for every program of fewer than 65535 objects (with
  65535 the counter of its loop cannot exceed the number of objects). If the current program
  is the user interface and the user program runs, objects 2 and 3 alternate; otherwise the
  next object, counting round, whose status is \<open>RUNNING\<close> is chosen, and the answer is \<open>STOP\<close>
  when there is none.\<close>

definition ui_background :: "vm \<Rightarrow> bool" where
  "ui_background s \<longleftrightarrow> ProgramId s = GUI_SLOT (Consts s) \<and> active s (USER_SLOT (Consts s))"

theorem object_exec:
  assumes "programs_ok s" and "objects_ok s" and "ObjectId s \<le> Objects s"
    and "USER_SLOT (Consts s) < MAX_PROGRAMS s" and "GUI_SLOT (Consts s) < MAX_PROGRAMS s"
  shows "if ui_background s
    then ObjectExec s = Some (OK, if Objects s \<ge> 3 \<and> active s (GUI_SLOT (Consts s))
      then s\<lparr>ObjectId := (if ObjectId s = 2 then 3 else 2)\<rparr> else s)
    else if \<exists>i. valid_id s i \<and> runnable s i
    then \<exists>k. first_hit (next_object (Objects s)) (runnable s) (ObjectId s) k \<and> k \<le> unat (Objects s) \<and>
      ObjectExec s = Some (OK, s\<lparr>ObjectId := (next_object (Objects s) ^^ k) (ObjectId s)\<rparr>)
    else \<exists>i. ObjectExec s = Some (STOP, s\<lparr>ObjectId := i\<rparr>)"
proof -
  obtain U G where P: "Program s (USER_SLOT (Consts s)) = Some U" "Program s (GUI_SLOT (Consts s)) = Some G"
    using assms(1,4,5) unfolding programs_ok_def by blast
  show ?thesis
  proof (cases "ui_background s")
    case True
    then show ?thesis using P by (simp add: ObjectExec_def ui_background_def active_def)
  next
    case ui: False
    then have ex: "ObjectExec s = switch_object 0 s"
      using P by (auto simp: ObjectExec_def ui_background_def active_def)
    show ?thesis
    proof (cases "\<exists>i. valid_id s i \<and> runnable s i")
      case True
      then obtain i where i: "valid_id s i" "runnable s i" by auto
      then have pos: "0 < Objects s" by (auto simp: valid_id_def)
      obtain k where k: "first_hit (next_object (Objects s)) (runnable s) (ObjectId s) k" "k \<le> unat (Objects s)"
        using objects.first_exists [of "ObjectId s" "Objects s" i "runnable s"] i pos assms(2,3)
        by (auto simp: objects_ok_def valid_id_def card_objects)
      then show ?thesis
        using ui True ex switch_object_hit [OF assms(2) pos k(1) assms(3), of 0] by auto
    next
      case False
      then show ?thesis
        using ui ex switch_object_none [OF assms(2) _ assms(3), of 0 "unat (Objects s)"] by auto
    qed
  qed
qed

subsection \<open>Switching programs and objects\<close>

text \<open>What \<open>ProgramInit\<close> loads for a program.\<close>

definition context_of :: "PRG \<Rightarrow> vm \<Rightarrow> vm" where
  "context_of P s = s\<lparr>pGlobal := prg_pGlobal P, pImage := prg_pImage P, pObjHead := prg_pObjHead P,
     pObjList := prg_pObjList P, Objects := prg_Objects P, ObjectId := prg_ObjectId P,
     ObjectIp := prg_ObjectIp P, ObjectLocal := prg_ObjectLocal P, InstrCnt := 0, Debug := prg_Debug P\<rparr>"

text \<open>The registers of the current program in two states are the same.\<close>

definition same_context :: "vm \<Rightarrow> vm \<Rightarrow> bool" where
  "same_context s t \<longleftrightarrow> pGlobal t = pGlobal s \<and> pImage t = pImage s \<and> pObjHead t = pObjHead s \<and>
     pObjList t = pObjList s \<and> Objects t = Objects s \<and> ObjectId t = ObjectId s \<and>
     ObjectIp t = ObjectIp s \<and> ObjectLocal t = ObjectLocal s \<and> Debug t = Debug s"

text \<open>C13: \<open>ProgramExit\<close> saves the context of the current program, so that whatever
  happens to the machine while other programs run, \<open>ProgramInit\<close> restores it, provided that
  the program's entry is left alone but for its status, which is still running or waiting;
  the instructions executed are added to the program's count.\<close>

theorem program_switch:
  assumes "ProgramId s < MAX_PROGRAMS s" and "Program s (ProgramId s) = Some P"
  shows "\<exists>t Q. ProgramExit s = Some t \<and> Program t (ProgramId s) = Some Q \<and>
    prg_InstrCnt Q = prg_InstrCnt P + InstrCnt s \<and> prg_Status Q = prg_Status P \<and> InstrCnt t = 0 \<and>
    (\<forall>p. p \<noteq> ProgramId s \<longrightarrow> Program t p = Program s p) \<and>
    (\<forall>v st. ProgramId v = ProgramId s \<and> Consts v = Consts s \<and>
       Program v (ProgramId s) = Some (Q\<lparr>prg_Status := st\<rparr>) \<and> (st = RUNNING \<or> st = WAITING) \<longrightarrow>
       (\<exists>w. ProgramInit v = Some w \<and> same_context s w \<and> mem w = mem v \<and> Program w = Program v))"
  using assms
  by (simp add: ProgramExit_def upd_prg_def MAX_PROGRAMS_def ProgramInit_def same_context_def Let_def)


text \<open>\<open>ObjectEnQueue\<close> makes an object run from its first instruction with a
  fresh trigger count, and touches no other object; an invalid id is ignored.\<close>

theorem object_enqueue:
  assumes "get_obj s (pObjList s) i = Some ob" and "OffsetToInstructions s (pObjHead s) i = Some off"
    and "TriggerCount s (pObjHead s) i = Some n"
  shows "\<exists>t a. ObjectEnQueue i s = Some t \<and> obj_ptr s (pObjList s) i = Some a \<and>
    (if valid_id s i
     then t = s\<lparr>ObjHeap := (ObjHeap s)(a \<mapsto> ob\<lparr>ObjStatus := RUNNING, Ip := pImage s + off, u := n\<rparr>)\<rparr>
     else t = s)"
proof -
  obtain a b where a: "obj_ptr s (pObjList s) i = Some a" "mem s a = Some b" "ObjHeap s a = Some ob"
    using assms(1) by (auto simp: get_obj_def obj_at_def bind_conv split: if_splits)
  have same: "obj_ptr (s\<lparr>ObjHeap := h\<rparr>) L i = obj_ptr s L i"
    "OffsetToInstructions (s\<lparr>ObjHeap := h\<rparr>) H i = OffsetToInstructions s H i"
    "TriggerCount (s\<lparr>ObjHeap := h\<rparr>) H i = TriggerCount s H i" for h L H
    using load32_mem_cong [of "s\<lparr>ObjHeap := h\<rparr>" s] load16_mem_cong [of "s\<lparr>ObjHeap := h\<rparr>" s]
    by (simp_all add: obj_ptr_def OffsetToInstructions_def TriggerCount_def)
  show ?thesis
    using a assms(2,3) by (simp add: ObjectEnQueue_def upd_obj_def obj_at_def same)
qed

subsection \<open>Witnesses\<close>

text \<open>A program of two objects, both in memory: the first is running and current, the second
  waits to be triggered.\<close>

definition sample_heads :: "UBYTE list" where
  "sample_heads = [40, 0, 0, 0, 0, 0, 0, 0, 4, 0, 0, 0, 44, 0, 0, 0, 0, 0, 2, 0, 8, 0, 0, 0]"

definition sample_obj1 :: OBJ where
  "sample_obj1 = \<lparr>Ip = 0x128, pLocal = 0x200C, ObjStatus = RUNNING, Blocked = 0, u = 0\<rparr>"

definition sample_obj2 :: OBJ where
  "sample_obj2 = \<lparr>Ip = 0x12C, pLocal = 0x201C, ObjStatus = STOPPED, Blocked = 0, u = 2\<rparr>"

definition sample_threads :: vm where
  "sample_threads = (sample_vm sample_heads)\<lparr>
     mem := (sample_mem sample_heads)(0x1005 \<mapsto> 0x20, 0x1008 \<mapsto> 0x10, 0x1009 \<mapsto> 0x20),
     ObjHeap := [0x2000 \<mapsto> sample_obj1, 0x2010 \<mapsto> sample_obj2],
     Program := (\<lambda>p. if p < 5 then Some (sample_prg\<lparr>prg_Status := (if p = 1 then RUNNING else STOPPED)\<rparr>) else None),
     Objects := 2, ObjectId := 1, pObjList := 0x1000, pObjHead := 0xF4\<rparr>"

lemma sample_threads_sel [simp]:
  "Consts sample_threads = sample_consts" "ProgramId sample_threads = 1" "Objects sample_threads = 2"
  "ObjectId sample_threads = 1" "pObjList sample_threads = 0x1000" "pObjHead sample_threads = 0xF4"
  "pImage sample_threads = 0x100" "ObjectIp sample_threads = 0x100"
  "MAX_PROGRAMS sample_threads = 5" "ObjHeap sample_threads = [0x2000 \<mapsto> sample_obj1, 0x2010 \<mapsto> sample_obj2]"
  by (simp_all add: sample_threads_def MAX_PROGRAMS_def)

lemma sample_threads_objs:
  "get_obj sample_threads 0x1000 1 = Some sample_obj1" "get_obj sample_threads 0x1000 2 = Some sample_obj2"
  "OffsetToInstructions sample_threads 0xF4 2 = Some 44" "TriggerCount sample_threads 0xF4 2 = Some 2"
  "obj_ptr sample_threads 0x1000 2 = Some 0x2010"
  by (simp_all add: sample_threads_def get_obj_def obj_ptr_def obj_at_def load32_def load16_def sample_mem_def
      sample_heads_def OffsetToInstructions_def TriggerCount_def sizeof_OBJHEAD_def)

lemma sample_threads_programs:
  "programs_ok sample_threads" "active sample_threads p \<longleftrightarrow> p = 1"
  "Program sample_threads 1 = Some (sample_prg\<lparr>prg_Status := RUNNING\<rparr>)"
  by (auto simp: programs_ok_def active_def sample_threads_def sample_prg_def MAX_PROGRAMS_def)

lemma sample_valid: "valid_id sample_threads i \<longleftrightarrow> i = 1 \<or> i = 2"
proof -
  have "0 < i \<and> i \<le> 2 \<longleftrightarrow> unat i = 1 \<or> unat i = 2"
    by (auto simp: word_less_nat_alt word_le_nat_alt)
  also have "\<dots> \<longleftrightarrow> i = 1 \<or> i = 2" by (simp add: word_unat_eq_iff)
  finally show ?thesis by (simp add: valid_id_def)
qed

lemma sample_threads_ok: "objects_ok sample_threads"
  by (auto simp: objects_ok_def sample_valid sample_threads_objs)

theorem program_exec_witness:
  "\<exists>t. ProgramExec sample_threads = Some (OK, t)"
  using program_exec [OF sample_threads_programs(1)] by (auto simp: sample_threads_programs split: if_splits)

theorem object_exec_witness:
  "\<exists>t. ObjectExec sample_threads = Some (OK, t)"
  using object_exec [OF sample_threads_programs(1) sample_threads_ok]
  by (auto simp: ui_background_def runnable_def sample_valid sample_threads_objs sample_obj1_def split: if_splits)

theorem program_switch_witness:
  "\<exists>t Q. ProgramExit sample_threads = Some t \<and> Program t 1 = Some Q \<and> prg_Status Q = RUNNING \<and> InstrCnt t = 0"
  using program_switch [of sample_threads "sample_prg\<lparr>prg_Status := RUNNING\<rparr>"]
  by (auto simp: sample_threads_programs(3))


theorem object_enqueue_witness:
  "\<exists>t. ObjectEnQueue 2 sample_threads = Some t \<and> ObjHeap t 0x2010 = Some (sample_obj2\<lparr>ObjStatus := RUNNING, Ip := 0x12C, u := 2\<rparr>)"
  using object_enqueue [of sample_threads 2 sample_obj2 44 2]
  by (auto simp: sample_valid sample_threads_objs)

end
