(* ===== verification/VM_Program.thy ===== *)
theory VM_Program
  imports VM_Objects
begin

text \<open>
  Loading and ending a program, \<open>GetAmountOfRamForImage\<close>, \<open>ProgramReset\<close> and
  \<open>ProgramEnd\<close> of \<open>lms2012.c\<close>. An image is the bytes at an address: the header
  \<open>IMGHEAD\<close> (16 bytes), the object headers \<open>OBJHEAD\<close> (12 bytes each) and the byte codes.
  \<open>ProgramReset\<close> lays out one block of memory: the global variables, the list of object
  pointers and the objects with their local variables. The validator is a parameter of the
  machine (the field \<open>Validate\<close>), since its tables are generated; it answers a
  result and the program's labels and may complete the object headers.
\<close>

subsection \<open>The code\<close>

text \<open>The fields of \<open>IMGHEAD\<close>.\<close>

definition NumberOfObjects :: "vm \<Rightarrow> ULONG \<Rightarrow> OBJID option" where
  "NumberOfObjects s pI = load16 s (PtrMem (pI + 10))"

definition GlobalBytes :: "vm \<Rightarrow> ULONG \<Rightarrow> ULONG option" where
  "GlobalBytes s pI = load32 s (PtrMem (pI + 12))"

definition align4 :: "ULONG \<Rightarrow> ULONG" where
  "align4 x = (x + 3) AND 0xFFFFFFFC"

definition sizeof_pointer :: ULONG where "sizeof_pointer = 4"

text \<open>The two loops of \<open>GetAmountOfRamForImage\<close>; the sum of the first is discarded.\<close>

partial_function (option) count_objects :: "vm \<Rightarrow> OBJID \<Rightarrow> ULONG \<Rightarrow> OBJID \<Rightarrow> ULONG \<Rightarrow> ULONG option" where
  "count_objects s NoOfObj pHead ObjId Bytes =
     (if ObjId \<le> NoOfObj then do {
        n \<leftarrow> load32 s (PtrMem (pHead + 8));
        count_objects s NoOfObj (pHead + sizeof_OBJHEAD) (ObjId + 1) (align4 Bytes + (sizeof_OBJ + n))
      }
      else Some Bytes)"

partial_function (option) sum_objects :: "vm \<Rightarrow> OBJID \<Rightarrow> ULONG \<Rightarrow> OBJID \<Rightarrow> ULONG \<Rightarrow> ULONG option" where
  "sum_objects s NoOfObj pHead ObjId Bytes =
     (if ObjId \<le> NoOfObj then do {
        n \<leftarrow> LocalBytes s pHead ObjId;
        sum_objects s NoOfObj pHead (ObjId + 1) (align4 Bytes + (sizeof_OBJ + n))
      }
      else Some Bytes)"

definition GetAmountOfRamForImage :: "ULONG \<Rightarrow> vm \<Rightarrow> ULONG option" where
  "GetAmountOfRamForImage pI s = do {
     NoOfObj \<leftarrow> NumberOfObjects s pI;
     g \<leftarrow> GlobalBytes s pI;
     _ \<leftarrow> count_objects s NoOfObj (pI + sizeof_IMGHEAD) 1
           (align4 g + sizeof_pointer * (ucast NoOfObj + 1));
     sum_objects s NoOfObj (pI + sizeof_IMGHEAD - sizeof_OBJHEAD) 1
       (align4 g + sizeof_pointer * (ucast NoOfObj + 1))
   }"

text \<open>\<open>cValidateProgram\<close>, which \<open>ProgramReset\<close> gives the program's labels to fill in.\<close>

definition cValidateProgram :: "PRGID \<Rightarrow> ULONG \<Rightarrow> vm \<Rightarrow> (RESULT \<times> vm) option" where
  "cValidateProgram PrgId pI s = do {
     P \<leftarrow> Program s PrgId;
     (Result, labels, m) \<leftarrow> Validate s (mem s) pI (prg_Label P);
     s \<leftarrow> upd_prg PrgId (\<lambda>P. P\<lparr>prg_Label := labels\<rparr>) (s\<lparr>mem := m\<rparr>);
     Some (Result, s)
   }"

fun clear_memory :: "nat \<Rightarrow> ULONG \<Rightarrow> vm \<Rightarrow> vm option" where
  "clear_memory 0 a s = Some s"
| "clear_memory (Suc n) a s = do { s \<leftarrow> store8 s (PtrMem a) 0; clear_memory n (a + 1) s }"

text \<open>An object whose bytes have just been cleared: its fields become the fields of a record.\<close>

definition place_object :: "ULONG \<Rightarrow> vm \<Rightarrow> vm option" where
  "place_object a s =
     (if mem s a = None \<or> mem s (a + (sizeof_OBJ - 1)) = None then None
      else Some (s\<lparr>ObjHeap := (ObjHeap s)(a \<mapsto>
        \<lparr>Ip = 0, pLocal = 0, ObjStatus = STATUS0, Blocked = 0, u = 0\<rparr>)\<rparr>))"

text \<open>\<open>(*pObjList[i]).Local\<close>, the bytes that follow the object.\<close>

definition local_of :: "vm \<Rightarrow> ULONG \<Rightarrow> OBJID \<Rightarrow> ULONG option" where
  "local_of s L i = map_option (\<lambda>a. a + sizeof_OBJ) (obj_ptr s L i)"

text \<open>One round of the loop over the objects, with \<open>pData\<close> already aligned; it returns the
  advanced \<open>pData\<close>.\<close>

definition reset_object :: "PRGID \<Rightarrow> ULONG \<Rightarrow> UBYTE \<Rightarrow> OBJID \<Rightarrow> ULONG \<Rightarrow> vm \<Rightarrow> (ULONG \<times> vm) option" where
  "reset_object PrgId pI Deb ObjIndex pData s = do {
     P \<leftarrow> Program s PrgId;
     let L = prg_pObjList P;
     let H = prg_pObjHead P;
     s \<leftarrow> store32 s (PtrMem (L + 4 * ucast ObjIndex)) pData;
     s \<leftarrow> place_object pData s;
     off \<leftarrow> OffsetToInstructions s H ObjIndex;
     s \<leftarrow> upd_obj L ObjIndex (\<lambda>ob. ob\<lparr>Ip := pI + off\<rparr>) s;
     n \<leftarrow> TriggerCount s H ObjIndex;
     s \<leftarrow> upd_obj L ObjIndex (\<lambda>ob. ob\<lparr>u := n\<rparr>) s;
     s \<leftarrow> upd_obj L ObjIndex (\<lambda>ob. ob\<lparr>ObjStatus :=
            (if u ob \<noteq> 0 \<or> ObjIndex > 1 then STOPPED
             else if Deb = 2 then WAITING else RUNNING)\<rparr>) s;
     s \<leftarrow> upd_obj L ObjIndex (\<lambda>ob. ob\<lparr>Blocked := 0\<rparr>) s;
     owner \<leftarrow> OwnerObjectId s H ObjIndex;
     loc \<leftarrow> local_of s L (if owner \<noteq> 0 then owner else ObjIndex);
     s \<leftarrow> upd_obj L ObjIndex (\<lambda>ob. ob\<lparr>pLocal := loc\<rparr>) s;
     k \<leftarrow> LocalBytes s H ObjIndex;
     Some (pData + (sizeof_OBJ + k), s)
   }"

partial_function (option) reset_objects ::
    "PRGID \<Rightarrow> ULONG \<Rightarrow> UBYTE \<Rightarrow> OBJID \<Rightarrow> ULONG \<Rightarrow> vm \<Rightarrow> vm option" where
  "reset_objects PrgId pI Deb ObjIndex pData s = do {
     P \<leftarrow> Program s PrgId;
     if ObjIndex \<le> prg_Objects P then do {
       (pData, s) \<leftarrow> reset_object PrgId pI Deb ObjIndex (align4 pData) s;
       reset_objects PrgId pI Deb (ObjIndex + 1) pData s
     }
     else Some s
   }"

text \<open>The opening functions all return \<open>OK\<close>.\<close>

definition open_modules :: "vm \<Rightarrow> vm" where
  "open_modules s = s\<lparr>Trace := CallSoundOpen # CallComOpen # CallInputOpen # CallOutputOpen # CallUiOpen # Trace s\<rparr>"

definition close_modules :: "vm \<Rightarrow> vm" where
  "close_modules s = s\<lparr>Trace := CallDynLoadVMClose # CallUiClose # CallOutputClose # CallInputClose
     # CallSoundClose # Trace s\<rparr>"

definition layout_program :: "PRGID \<Rightarrow> ULONG \<Rightarrow> ULONG \<Rightarrow> UBYTE \<Rightarrow> ULONG \<Rightarrow> vm \<Rightarrow> vm option" where
  "layout_program PrgId pI pG Deb pData s = do {
     n \<leftarrow> NumberOfObjects s pI;
     s \<leftarrow> upd_prg PrgId (\<lambda>P. P\<lparr>
            prg_Brkp := (\<lambda>No. if No < MAX_BREAKPOINTS then \<lparr>BrkpAddr = 0, BrkpOpCode = 0\<rparr> else prg_Brkp P No),
            prg_Objects := n, prg_pData := pData, prg_pGlobal := (if pG \<noteq> 0 then pG else pData)\<rparr>) s;
     g \<leftarrow> GlobalBytes s pI;
     let pData = align4 (pData + g);
     s \<leftarrow> upd_prg PrgId (\<lambda>P. P\<lparr>prg_pObjList := pData,
            prg_pObjHead := pI + (sizeof_IMGHEAD - sizeof_OBJHEAD)\<rparr>) s;
     reset_objects PrgId pI Deb 1 (pData + sizeof_pointer * (ucast n + 1)) s
   }"

definition count_user :: "vm \<Rightarrow> vm" where
  "count_user s = (let s = (if RefCount s = 0 then open_modules s else s) in s\<lparr>RefCount := RefCount s + 1\<rparr>)"

definition start_program :: "PRGID \<Rightarrow> vm \<Rightarrow> vm option" where
  "start_program PrgId s = do {
     s \<leftarrow> upd_prg PrgId (\<lambda>P. P\<lparr>prg_ObjectId := 1, prg_Status := RUNNING,
            prg_StatusChange := RUNNING, prg_Result := BUSY\<rparr>) s;
     let s = (if PrgId = USER_SLOT (Consts s) then count_user s else s);
     let (ms, s) = GetTimeMS s;
     s \<leftarrow> upd_prg PrgId (\<lambda>P. P\<lparr>prg_InstrCnt := 0, prg_StartTime := ms\<rparr>) s;
     let (us, s) = cTimerGetuS s;
     upd_prg PrgId (\<lambda>P. P\<lparr>prg_RunTime := us\<rparr>) s
   }"

definition ProgramReset :: "PRGID \<Rightarrow> ULONG \<Rightarrow> ULONG \<Rightarrow> UBYTE \<Rightarrow> vm \<Rightarrow> (RESULT \<times> vm) option" where
  "ProgramReset PrgId pI pG Deb s = do {
     s \<leftarrow> upd_prg PrgId (\<lambda>P. P\<lparr>prg_Status := STOPPED, prg_StatusChange := STOPPED, prg_Result := FAIL\<rparr>) s;
     if pI \<noteq> 0 then do {
       RamSize \<leftarrow> GetAmountOfRamForImage pI s;
       (r, s) \<leftarrow> cMemoryOpen PrgId RamSize s;
       case r of
         None \<Rightarrow> Some (FAIL, s)
       | Some pData \<Rightarrow> do {
           s \<leftarrow> upd_prg PrgId (\<lambda>P. P\<lparr>prg_Debug := (if Deb = 1 then 1 else 0), prg_pImage := pI\<rparr>) s;
           (valid, s) \<leftarrow> cValidateProgram PrgId pI s;
           if valid \<noteq> OK then
             Some (FAIL, if PrgId \<noteq> CMD_SLOT (Consts s) then LogErrorNumber VM_PROGRAM_VALIDATION s else s)
           else do {
             s \<leftarrow> clear_memory (unat RamSize) pData s;
             s \<leftarrow> layout_program PrgId pI pG Deb pData s;
             s \<leftarrow> start_program PrgId s;
             Some (OK, s)
           }
         }
     }
     else Some (FAIL, s)
   }"

definition ProgramEnd :: "PRGID \<Rightarrow> vm \<Rightarrow> vm option" where
  "ProgramEnd PrgId s = do {
     P \<leftarrow> Program s PrgId;
     if prg_Status P \<noteq> STOPPED then do {
       let (us, s) = cTimerGetuS s;
       s \<leftarrow> upd_prg PrgId (\<lambda>P. P\<lparr>prg_InstrTime := us - prg_RunTime P, prg_Objects := 0,
              prg_Status := STOPPED, prg_StatusChange := STOPPED,
              prg_InstrCnt := (if PrgId \<noteq> 0 \<and> PrgId \<noteq> ProgramId s
                then prg_InstrCnt P + InstrCnt s else prg_InstrCnt P)\<rparr>) s;
       let s = (if PrgId = USER_SLOT (Consts s) then
                  (let s = (if RefCount s \<noteq> 0 then s\<lparr>RefCount := RefCount s - 1\<rparr> else s) in
                   if RefCount s = 0 then close_modules s else s)
                else s);
       s \<leftarrow> cMemoryClose PrgId s;
       let s = (if PrgId = ProgramId s then SetDispatchStatus PRGBREAK s else s);
       upd_prg PrgId (\<lambda>P. P\<lparr>prg_Result := OK\<rparr>) s
     }
     else Some s
   }"

subsection \<open>Ending a program\<close>

lemma upd_prg_eq: "Program s p = Some P \<Longrightarrow> upd_prg p f s = Some (s\<lparr>Program := (Program s)(p \<mapsto> f P)\<rparr>)"
  by (simp add: upd_prg_def)

lemma free_program_frame:
  "cMemoryFreeProgram p s = Some t \<Longrightarrow>
    Program t = Program s \<and> ProgramId t = ProgramId s \<and> RefCount t = RefCount s \<and> Trace t = Trace s \<and>
    Priority t = Priority s \<and> DispatchStatus t = DispatchStatus s"
proof -
  have handle: "Program v = Program w \<and> ProgramId v = ProgramId w \<and> RefCount v = RefCount w \<and> Trace v = Trace w \<and>
      Priority v = Priority w \<and> DispatchStatus v = DispatchStatus w"
    if "cMemoryFreeHandle p h w = Some (r, v)" for h r v w
    using that by (auto simp: FreeHandle_eq release_file_def set_pool_def cMemoryFree_def free_def
        unmap_block_def bind_conv split: if_splits option.splits)
  have handles: "Program v = Program w \<and> ProgramId v = ProgramId w \<and> RefCount v = RefCount w \<and> Trace v = Trace w \<and>
      Priority v = Priority w \<and> DispatchStatus v = DispatchStatus w"
    if "free_handles p hs w = Some v" for hs v w
    using that by (induction hs arbitrary: w) (auto simp: bind_conv dest: handle)
  assume "cMemoryFreeProgram p s = Some t"
  then show ?thesis by (auto simp: cMemoryFreeProgram_def bind_conv dest: handles)
qed

text \<open>The state in which \<open>ProgramEnd\<close> gives back the memory.\<close>

definition ended_prg :: "PRGID \<Rightarrow> PRG \<Rightarrow> vm \<Rightarrow> PRG" where
  "ended_prg PrgId P s = P\<lparr>prg_InstrTime := now_us s - prg_RunTime P, prg_Objects := 0,
     prg_Status := STOPPED, prg_StatusChange := STOPPED,
     prg_InstrCnt := (if PrgId \<noteq> 0 \<and> PrgId \<noteq> ProgramId s
       then prg_InstrCnt P + InstrCnt s else prg_InstrCnt P)\<rparr>"

definition ended :: "PRGID \<Rightarrow> PRG \<Rightarrow> vm \<Rightarrow> vm" where
  "ended PrgId P s = (let s' = ((tick s)\<lparr>TimeuS := now_us s\<rparr>)\<lparr>Program := (Program s)(PrgId \<mapsto> ended_prg PrgId P s)\<rparr> in
     if PrgId = USER_SLOT (Consts s) then
       (let s' = (if RefCount s' \<noteq> 0 then s'\<lparr>RefCount := RefCount s' - 1\<rparr> else s') in
        if RefCount s' = 0 then close_modules s' else s')
     else s')"

lemma word_le_1: "x \<le> 1 \<longleftrightarrow> x = 0 \<or> x = (1 :: UWORD)"
  using unat16 [of x] by (auto simp: word_le_nat_alt word_unat_eq_iff)

lemma ended_sel:
  "pPoolList (ended p P s) = pPoolList s" "mem (ended p P s) = mem s" "Blocks (ended p P s) = Blocks s"
  "Consts (ended p P s) = Consts s" "ProgramId (ended p P s) = ProgramId s"
  "RefCount (ended p P s) = (if p = USER_SLOT (Consts s) then RefCount s - (if RefCount s = 0 then 0 else 1)
     else RefCount s)"
  "Program (ended p P s) = (Program s)(p \<mapsto> ended_prg p P s)"
  "Trace (ended p P s) = Trace (if p = USER_SLOT (Consts s) \<and> RefCount s \<le> 1 then close_modules s else s)"
  "Priority (ended p P s) = Priority s" "DispatchStatus (ended p P s) = DispatchStatus s"
proof -
  have one: "RefCount s - 1 = 0 \<longleftrightarrow> RefCount s = 1" by (metis diff_self eq_iff_diff_eq_0)
  show "Trace (ended p P s) = Trace (if p = USER_SLOT (Consts s) \<and> RefCount s \<le> 1 then close_modules s else s)"
    unfolding word_le_1 using one by (auto simp: ended_def tick_def close_modules_def Let_def)
qed (simp_all add: ended_def tick_def close_modules_def Let_def)

lemma ProgramEnd_eq:
  assumes "Program s p = Some P"
  shows "ProgramEnd p s = (if prg_Status P = STOPPED then Some s else do {
     s \<leftarrow> cMemoryClose p (ended p P s);
     let s = (if p = ProgramId s then SetDispatchStatus PRGBREAK s else s);
     upd_prg p (\<lambda>P. P\<lparr>prg_Result := OK\<rparr>) s
   })"
proof -
  have i: "InstrCnt ((tick s)\<lparr>TimeuS := v\<rparr>) = InstrCnt s" for v by (simp add: tick_def)
  show ?thesis using assms by (simp add: ProgramEnd_def vm_exec upd_prg_eq ended_def ended_prg_def i Let_def)
qed

definition gave_back :: "PRGID \<Rightarrow> PRG \<Rightarrow> vm \<Rightarrow> vm \<Rightarrow> vm" where
  "gave_back p P s w = (if p = ProgramId s then SetDispatchStatus PRGBREAK w else w)
     \<lparr>Program := (Program s)(p \<mapsto> (ended_prg p P s)\<lparr>prg_Result := OK\<rparr>)\<rparr>"

lemma gave_back_sel:
  "Program (gave_back p P s w) = (Program s)(p \<mapsto> (ended_prg p P s)\<lparr>prg_Result := OK\<rparr>)"
  "mem (gave_back p P s w) = mem w" "Blocks (gave_back p P s w) = Blocks w"
  "pPoolList (gave_back p P s w) = pPoolList w" "Consts (gave_back p P s w) = Consts w"
  "RefCount (gave_back p P s w) = RefCount w" "Trace (gave_back p P s w) = Trace w"
  "DispatchStatus (gave_back p P s w) = (if p = ProgramId s then PRGBREAK else DispatchStatus w)"
  "Priority (gave_back p P s w) = (if p = ProgramId s then 0 else Priority w)"
  "ProgramId (gave_back p P s w) = ProgramId w"
  by (simp_all add: gave_back_def SetDispatchStatus_def Let_def)

lemma ProgramEnd_run:
  assumes "pool_ok s" and "files_ok s" and "Program s p = Some P" and "prg_Status P \<noteq> STOPPED"
  obtains w where "ProgramEnd p s = Some (gave_back p P s w)" "pool_ok w" "files_ok w" "Consts w = Consts s"
    "\<And>p' h'. pool w p' h' = (if p' = p then 0 else pool s p' h')"
    "RefCount w = RefCount (ended p P s)" "Trace w = Trace (ended p P s)"
    "Priority w = Priority s" "DispatchStatus w = DispatchStatus s" "ProgramId w = ProgramId s"
    "cMemoryFreeProgram p (ended p P s) = Some w"
proof -
  let ?e = "ended p P s"
  have ok: "pool_ok ?e" by (rule pool_ok_frame [OF assms(1)]) (simp_all add: ended_sel)
  have f: "files_ok ?e" using assms(2) by (simp add: files_ok_def pool_def ended_sel)
  obtain w where w: "cMemoryFreeProgram p ?e = Some w" "pool_ok w" "files_ok w" "Consts w = Consts s"
      "\<And>p' h'. pool w p' h' = (if p' = p then 0 else pool s p' h')"
    using free_program_ok [OF ok f, of p] by (auto simp: ended_sel pool_def)
  note frame = free_program_frame [OF w(1)]
  have Q: "Program w = (Program s)(p \<mapsto> ended_prg p P s)" "ProgramId w = ProgramId s"
    using frame by (simp_all add: ended_sel)
  have "ProgramEnd p s = Some (gave_back p P s w)"
    using assms(4) w(1) Q unfolding ProgramEnd_eq [OF assms(3)] gave_back_def
    by (simp add: cMemoryClose_def ended_sel(5) upd_prg_def SetDispatchStatus_def Let_def)
  with w frame show thesis by (intro that [of w]) (simp_all add: ended_sel(5,8-))
qed

text \<open>\<open>ProgramEnd\<close> of a program that is not stopped always returns: it stops the
  program, frees every handle of the program and no other, leaves the other programs alone,
  and makes the dispatcher leave the program if it is the current one; of a stopped program
  it does nothing.\<close>

theorem program_end:
  assumes "pool_ok s" and "files_ok s" and "Program s p = Some P"
  shows "if prg_Status P = STOPPED then ProgramEnd p s = Some s
    else \<exists>t Q. ProgramEnd p s = Some t \<and> pool_ok t \<and> files_ok t \<and>
      Program t = (Program s)(p \<mapsto> Q) \<and> prg_Status Q = STOPPED \<and> prg_StatusChange Q = STOPPED \<and>
      prg_Result Q = OK \<and> prg_Objects Q = 0 \<and>
      (\<forall>p' h. pool t p' h = (if p' = p then 0 else pool s p' h)) \<and>
      (if p = ProgramId s then DispatchStatus t = PRGBREAK \<and> Priority t = 0
       else DispatchStatus t = DispatchStatus s \<and> Priority t = Priority s)"
proof (cases "prg_Status P = STOPPED")
  case True
  then show ?thesis using ProgramEnd_eq [OF assms(3)] by simp
next
  case False
  obtain w where w: "ProgramEnd p s = Some (gave_back p P s w)" "pool_ok w" "files_ok w" "Consts w = Consts s"
    "\<And>p' h'. pool w p' h' = (if p' = p then 0 else pool s p' h')"
    "Priority w = Priority s" "DispatchStatus w = DispatchStatus s"
    using ProgramEnd_run [OF assms False] by metis
  have "pool_ok (gave_back p P s w)" by (rule pool_ok_frame [OF w(2)]) (simp_all add: gave_back_sel)
  moreover have "files_ok (gave_back p P s w)" using w(3) by (simp add: files_ok_def pool_def gave_back_sel)
  moreover have "pool (gave_back p P s w) p' h' = pool w p' h'" for p' h' by (simp add: pool_def gave_back_sel)
  ultimately show ?thesis
    unfolding if_not_P [OF False] using w
    by (intro exI [of _ "gave_back p P s w"] exI [of _ "(ended_prg p P s)\<lparr>prg_Result := OK\<rparr>"])
      (simp add: gave_back_sel ended_prg_def)
qed

subsection \<open>Opening and closing the modules\<close>

text \<open>A module has been opened once more than closed exactly while programs in the user slot are
  counted. The communication module is opened with the others, but \<open>ProgramEnd\<close> leaves it open.\<close>

definition balanced :: "event \<Rightarrow> event \<Rightarrow> vm \<Rightarrow> bool" where
  "balanced open close s \<longleftrightarrow>
     count_list (Trace s) open = count_list (Trace s) close + (if RefCount s = 0 then 0 else 1)"

definition modules_balanced :: "vm \<Rightarrow> bool" where
  "modules_balanced s \<longleftrightarrow> balanced CallUiOpen CallUiClose s \<and> balanced CallOutputOpen CallOutputClose s \<and>
     balanced CallInputOpen CallInputClose s \<and> balanced CallSoundOpen CallSoundClose s \<and>
     count_list (Trace s) CallComOpen = count_list (Trace s) CallUiOpen"

lemma upd_prg_frame:
  "upd_prg p f s = Some t \<Longrightarrow> Consts t = Consts s \<and> RefCount t = RefCount s \<and> Trace t = Trace s"
  by (auto simp: upd_prg_def bind_conv)

lemma clock_frame:
  "Consts (snd (GetTimeMS s)) = Consts s" "RefCount (snd (GetTimeMS s)) = RefCount s"
  "Trace (snd (GetTimeMS s)) = Trace s"
  "Consts (snd (cTimerGetuS s)) = Consts s" "RefCount (snd (cTimerGetuS s)) = RefCount s"
  "Trace (snd (cTimerGetuS s)) = Trace s"
  by (simp_all add: GetTimeMS_def vm_exec tick_def)

lemma count_user_sel:
  "Consts (count_user s) = Consts s" "RefCount (count_user s) = RefCount s + 1"
  "Trace (count_user s) = Trace (if RefCount s = 0 then open_modules s else s)"
  by (simp_all add: count_user_def open_modules_def Let_def)

lemma open_modules_Trace: "Trace t = Trace s \<Longrightarrow> Trace (open_modules t) = Trace (open_modules s)"
  by (simp add: open_modules_def)

lemma start_program_modules:
  assumes run: "start_program p s = Some t"
  shows "RefCount t = (if p = USER_SLOT (Consts s) then RefCount s + 1 else RefCount s)"
    and "Trace t = Trace (if p = USER_SLOT (Consts s) \<and> RefCount s = 0 then open_modules s else s)"
proof -
  obtain f g h v1 v2 where v1: "upd_prg p f s = Some v1"
    and v2: "upd_prg p g (snd (GetTimeMS (if p = USER_SLOT (Consts v1) then count_user v1 else v1))) = Some v2"
    and t: "upd_prg p h (snd (cTimerGetuS v2)) = Some t"
    using run by (auto simp: start_program_def Let_def split_def elim!: bind_SomeE)
  note fr = upd_prg_frame [OF v1] upd_prg_frame [OF v2] upd_prg_frame [OF t]
  show "RefCount t = (if p = USER_SLOT (Consts s) then RefCount s + 1 else RefCount s)"
    using fr by (simp add: clock_frame count_user_sel split: if_splits)
  show "Trace t = Trace (if p = USER_SLOT (Consts s) \<and> RefCount s = 0 then open_modules s else s)"
    using fr open_modules_Trace [of v1 s] by (simp add: clock_frame count_user_sel split: if_splits)
qed

lemma balanced_start:
  assumes "balanced op cl s" and "count_list (Trace t) cl = count_list (Trace s) cl"
    and "count_list (Trace t) op = count_list (Trace s) op + (if c \<and> RefCount s = 0 then 1 else 0)"
    and "RefCount t = (if c then RefCount s + 1 else RefCount s)"
  shows "balanced op cl t \<longleftrightarrow> \<not> (c \<and> RefCount s = - 1)"
proof (cases "c \<and> RefCount s = 0")
  case True
  then show ?thesis using assms by (simp add: balanced_def)
next
  case False
  have "RefCount s + 1 = 0 \<longleftrightarrow> RefCount s = - 1" by (simp add: eq_neg_iff_add_eq_0)
  with False show ?thesis using assms by (simp add: balanced_def split: if_splits)
qed

lemma balanced_end:
  assumes "balanced op cl s" and "count_list (Trace t) op = count_list (Trace s) op"
    and "count_list (Trace t) cl = count_list (Trace s) cl + (if c \<and> RefCount s \<le> 1 then 1 else 0)"
    and "RefCount t = (if c then RefCount s - (if RefCount s = 0 then 0 else 1) else RefCount s)"
  shows "balanced op cl t \<longleftrightarrow> \<not> (c \<and> RefCount s = 0)"
proof (cases "c \<and> RefCount s \<le> 1")
  case True
  then show ?thesis using assms unfolding word_le_1 by (auto simp: balanced_def)
next
  case False
  have "RefCount s - 1 = 0 \<longleftrightarrow> RefCount s = 1" by simp
  with False show ?thesis using assms unfolding word_le_1 by (auto simp: balanced_def)
qed

text \<open>C40: let the UI, output, input and sound modules have been opened once more than closed
  while \<open>RefCount\<close> counts a program of the user slot, and as often otherwise; the
  communication module is opened as often as the UI and never closed. Starting a program keeps
  this, except for the user slot when \<open>RefCount\<close> is 65535: the counter wraps to 0 with the
  modules open. Ending a program keeps it too, except for a program of the user slot that is not
  stopped although \<open>RefCount\<close> is 0: the modules are closed a second time.\<close>

theorem modules_start_end:
  assumes "modules_balanced s" and "pool_ok s" and "files_ok s" and "Program s q = Some Q"
  shows "(start_program p s = Some t \<longrightarrow>
      (modules_balanced t \<longleftrightarrow> \<not> (p = USER_SLOT (Consts s) \<and> RefCount s = - 1))) \<and>
    (\<exists>v. ProgramEnd q s = Some v \<and>
      (modules_balanced v \<longleftrightarrow> \<not> (q = USER_SLOT (Consts s) \<and> RefCount s = 0 \<and> prg_Status Q \<noteq> STOPPED)))"
proof (intro conjI impI)
  assume "start_program p s = Some t"
  note run = start_program_modules [OF this]
  let ?c = "p = USER_SLOT (Consts s)"
  have "balanced op cl t \<longleftrightarrow> \<not> (?c \<and> RefCount s = - 1)"
    if "balanced op cl s" "(op, cl) \<in> {(CallUiOpen, CallUiClose), (CallOutputOpen, CallOutputClose),
      (CallInputOpen, CallInputClose), (CallSoundOpen, CallSoundClose)}" for op cl
    using that(2) by (intro balanced_start [OF that(1)]) (auto simp: run open_modules_def)
  moreover have "count_list (Trace t) CallComOpen = count_list (Trace t) CallUiOpen"
    using assms(1) by (auto simp: run open_modules_def modules_balanced_def)
  ultimately show "modules_balanced t \<longleftrightarrow> \<not> (?c \<and> RefCount s = - 1)"
    using assms(1) unfolding modules_balanced_def by blast
next
  show "\<exists>v. ProgramEnd q s = Some v \<and>
      (modules_balanced v \<longleftrightarrow> \<not> (q = USER_SLOT (Consts s) \<and> RefCount s = 0 \<and> prg_Status Q \<noteq> STOPPED))"
  proof (cases "prg_Status Q = STOPPED")
    case True
    then show ?thesis using assms(1) ProgramEnd_eq [OF assms(4)] by simp
  next
    case False
    obtain w where w: "ProgramEnd q s = Some (gave_back q Q s w)"
        "RefCount w = RefCount (ended q Q s)" "Trace w = Trace (ended q Q s)"
      using ProgramEnd_run [OF assms(2-4) False] by metis
    have each: "balanced op cl (ended q Q s) \<longleftrightarrow> \<not> (q = USER_SLOT (Consts s) \<and> RefCount s = 0)"
      if "balanced op cl s" "(op, cl) \<in> {(CallUiOpen, CallUiClose), (CallOutputOpen, CallOutputClose),
        (CallInputOpen, CallInputClose), (CallSoundOpen, CallSoundClose)}" for op cl
      using that(2) by (intro balanced_end [OF that(1)]) (auto simp: ended_sel close_modules_def)
    have "count_list (Trace (ended q Q s)) CallComOpen = count_list (Trace (ended q Q s)) CallUiOpen"
      using assms(1) by (auto simp: ended_sel close_modules_def modules_balanced_def)
    then have "modules_balanced (ended q Q s) \<longleftrightarrow> \<not> (q = USER_SLOT (Consts s) \<and> RefCount s = 0)"
      using assms(1) each unfolding modules_balanced_def by blast
    moreover have "modules_balanced (gave_back q Q s w) \<longleftrightarrow> modules_balanced (ended q Q s)"
      by (simp only: modules_balanced_def balanced_def gave_back_sel w)
    ultimately show ?thesis using w(1) False by simp
  qed
qed

subsection \<open>Witnesses\<close>

lemma sample_pools: "pool_ok sample_threads" "files_ok sample_threads" "modules_balanced (sample_threads\<lparr>RefCount := 0\<rparr>)"
  by (simp_all add: sample_threads_def pool_ok_def heap_ok_def files_ok_def pool_def modules_balanced_def balanced_def)

lemma sample_balanced: "modules_balanced sample_threads"
  by (simp add: sample_threads_def modules_balanced_def balanced_def)

theorem program_end_witness:
  "\<exists>t. ProgramEnd 1 sample_threads = Some t \<and> DispatchStatus t = PRGBREAK"
  using program_end [OF sample_pools(1,2) sample_threads_programs(3)] by auto

text \<open>A program of the user slot is started, and ended when it is counted and when it is not.\<close>

lemma sample_counted:
  "pool_ok (count_user sample_threads)" "files_ok (count_user sample_threads)"
  "modules_balanced (count_user sample_threads)" "RefCount (count_user sample_threads) = 1"
  "Program (count_user sample_threads) = Program sample_threads"
  by (simp_all add: count_user_def open_modules_def sample_threads_def pool_ok_def heap_ok_def files_ok_def
      pool_def modules_balanced_def balanced_def MAX_PROGRAMS_def Let_def)

lemma sample_starts: "start_program 1 sample_threads \<noteq> None"
  by (simp add: start_program_def upd_prg_def Let_def split_def sample_threads_programs count_user_def open_modules_def
      GetTimeMS_def vm_exec tick_def)

theorem modules_start_end_witness:
  "(\<exists>w. start_program 1 sample_threads = Some w \<and> modules_balanced w) \<and>
   (\<exists>v. ProgramEnd 1 (count_user sample_threads) = Some v \<and> modules_balanced v) \<and>
   (\<exists>u. ProgramEnd 1 sample_threads = Some u \<and> \<not> modules_balanced u)"
proof -
  note none = modules_start_end [OF sample_balanced sample_pools(1,2) sample_threads_programs(3)]
  obtain w where w: "start_program 1 sample_threads = Some w" using sample_starts by auto
  with none [of 1 w] have "modules_balanced w" by (simp add: sample_threads_def)
  moreover have "\<exists>u. ProgramEnd 1 sample_threads = Some u \<and> \<not> modules_balanced u"
    using none [of 1 w] by (auto simp: sample_threads_def)
  moreover have "\<exists>v. ProgramEnd 1 (count_user sample_threads) = Some v \<and> modules_balanced v"
    using modules_start_end [OF sample_counted(3,1,2), of 1 "sample_prg\<lparr>prg_Status := RUNNING\<rparr>" 1 w]
    by (auto simp: sample_counted(4,5) sample_threads_programs(3))
  ultimately show ?thesis using w by blast
qed

end
