(* ===== verification/VM_Calls.thy ===== *)
theory VM_Calls
  imports VM_Program
begin

text \<open>
  The byte codes of \<open>lms2012.c\<close> that start, stop, trigger and call objects and programs:
  \<open>Error\<close> to \<open>Sleep\<close>, \<open>DefLabel\<close> and \<open>Do\<close>, with the copying of parameters between a
  caller and the sub call it calls (\<open>CopyParsToLocals\<close>, \<open>CopyLocalsToPars\<close>). A sub call's
  byte codes begin with a preamble: the number of its parameters and one byte for each with
  its direction and type (for a string, a second byte with its size).
\<close>

subsection \<open>Copying parameters\<close>

definition align2 :: "ULONG \<Rightarrow> ULONG" where
  "align2 x = (x + 1) AND NOT 1"

text \<open>The loop that copies a string of at most \<open>Size\<close> bytes and fills up with zeros, from
  \<open>src\<close> to \<open>dst\<close>; it returns the advanced pointers.\<close>

fun copy_string :: "nat \<Rightarrow> UBYTE \<Rightarrow> ptr \<Rightarrow> ptr \<Rightarrow> vm \<Rightarrow> (ptr \<times> ptr \<times> vm) option" where
  "copy_string 0 Flag src dst s = Some (src, dst, s)"
| "copy_string (Suc n) Flag src dst s = do {
     Flag \<leftarrow> (if Flag \<noteq> 0 then load8 s src else Some Flag);
     s \<leftarrow> store8 s dst Flag;
     copy_string n Flag (ptr_add src 1) (ptr_add dst 1) s
   }"

text \<open>Skipping a parameter's place among the local variables: both directions do it, for
  outputs and inputs respectively.\<close>

definition skip_local :: "UBYTE \<Rightarrow> ULONG \<Rightarrow> ULONG \<Rightarrow> vm \<Rightarrow> (ULONG \<times> ULONG) option" where
  "skip_local Type TypeIp pLocals s =
     (let t = Type AND CALLPAR_TYPE in
      if t = DATA_8 then Some (TypeIp, pLocals + 1)
      else if t = DATA_16 then Some (TypeIp, align2 pLocals + 2)
      else if t = DATA_32 then Some (TypeIp, align4 pLocals + 4)
      else if t = DATA_F then Some (TypeIp, align4 pLocals + 4)
      else if t = DATA_S then do {
        Size \<leftarrow> mem s TypeIp;
        Some (TypeIp + 1, pLocals + ucast Size)
      }
      else Some (TypeIp, pLocals))"

definition copy_cell :: "(vm \<Rightarrow> ptr \<Rightarrow> 'a option) \<Rightarrow> (vm \<Rightarrow> ptr \<Rightarrow> 'a \<Rightarrow> vm option) \<Rightarrow> ptr \<Rightarrow> ptr \<Rightarrow> vm \<Rightarrow> vm option" where
  "copy_cell ld st src dst s = do { x \<leftarrow> ld s src; st s dst x }"

text \<open>The bodies of the two loops, for one parameter at \<open>Result\<close>; they return \<open>TypeIp\<close>,
  \<open>pLocals\<close> and the state.\<close>

definition par_to_local :: "UBYTE \<Rightarrow> ULONG \<Rightarrow> ULONG \<Rightarrow> ptr \<Rightarrow> vm \<Rightarrow> (ULONG \<times> ULONG \<times> vm) option" where
  "par_to_local Type TypeIp pLocals Result s =
     (let t = Type AND CALLPAR_TYPE in
      if Type AND CALLPAR_IN \<noteq> 0 then
        (if t = DATA_8 then do {
           s \<leftarrow> copy_cell load8 store8 Result (PtrMem pLocals) s;
           Some (TypeIp, pLocals + 1, s)
         }
         else if t = DATA_16 then do {
           let pLocals = align2 pLocals;
           s \<leftarrow> copy_cell load16 store16 Result (PtrMem pLocals) s;
           Some (TypeIp, pLocals + 2, s)
         }
         else if t = DATA_32 \<or> t = DATA_F then do {
           let pLocals = align4 pLocals;
           s \<leftarrow> copy_cell load32 store32 Result (PtrMem pLocals) s;
           Some (TypeIp, pLocals + 4, s)
         }
         else if t = DATA_S then do {
           Size \<leftarrow> mem s TypeIp;
           (_, _, s) \<leftarrow> copy_string (unat Size) 1 Result (PtrMem pLocals) s;
           let pLocals = pLocals + ucast Size;
           s \<leftarrow> store8 s (PtrMem (pLocals - 1)) 0;
           Some (TypeIp + 1, pLocals, s)
         }
         else Some (TypeIp, pLocals, s))
      else if Type AND CALLPAR_OUT \<noteq> 0 then do {
        (TypeIp, pLocals) \<leftarrow> skip_local Type TypeIp pLocals s;
        Some (TypeIp, pLocals, s)
      }
      else Some (TypeIp, pLocals, s))"

definition local_to_par :: "UBYTE \<Rightarrow> ULONG \<Rightarrow> ULONG \<Rightarrow> ptr \<Rightarrow> vm \<Rightarrow> (ULONG \<times> ULONG \<times> vm) option" where
  "local_to_par Type TypeIp pLocals Result s =
     (let t = Type AND CALLPAR_TYPE in
      if Type AND CALLPAR_OUT \<noteq> 0 then
        (if t = DATA_8 then do {
           s \<leftarrow> copy_cell load8 store8 (PtrMem pLocals) Result s;
           Some (TypeIp, pLocals + 1, s)
         }
         else if t = DATA_16 then do {
           let pLocals = align2 pLocals;
           s \<leftarrow> copy_cell load16 store16 (PtrMem pLocals) Result s;
           Some (TypeIp, pLocals + 2, s)
         }
         else if t = DATA_32 \<or> t = DATA_F then do {
           let pLocals = align4 pLocals;
           s \<leftarrow> copy_cell load32 store32 (PtrMem pLocals) Result s;
           Some (TypeIp, pLocals + 4, s)
         }
         else if t = DATA_S then do {
           Size \<leftarrow> mem s TypeIp;
           (_, dst, s) \<leftarrow> copy_string (unat Size) 1 (PtrMem pLocals) Result s;
           s \<leftarrow> store8 s (ptr_add dst (- 1)) 0;
           Some (TypeIp + 1, pLocals + ucast Size, s)
         }
         else Some (TypeIp, pLocals, s))
      else if Type AND CALLPAR_IN \<noteq> 0 then do {
        (TypeIp, pLocals) \<leftarrow> skip_local Type TypeIp pLocals s;
        Some (TypeIp, pLocals, s)
      }
      else Some (TypeIp, pLocals, s))"

text \<open>The loops over the parameters, and the functions around them.\<close>

fun copy_pars :: "(UBYTE \<Rightarrow> ULONG \<Rightarrow> ULONG \<Rightarrow> ptr \<Rightarrow> vm \<Rightarrow> (ULONG \<times> ULONG \<times> vm) option) \<Rightarrow>
    nat \<Rightarrow> ULONG \<Rightarrow> ULONG \<Rightarrow> vm \<Rightarrow> (ULONG \<times> vm) option" where
  "copy_pars body 0 TypeIp pLocals s = Some (TypeIp, s)"
| "copy_pars body (Suc NoOfPars) TypeIp pLocals s = do {
     Type \<leftarrow> mem s TypeIp;
     (Result, s) \<leftarrow> PrimParPointer s;
     (TypeIp, pLocals, s) \<leftarrow> body Type (TypeIp + 1) pLocals Result s;
     copy_pars body NoOfPars TypeIp pLocals s
   }"

definition CopyParsToLocals :: "OBJID \<Rightarrow> vm \<Rightarrow> vm option" where
  "CopyParsToLocals i s = do {
     let TmpIp = ObjectIp s;
     P \<leftarrow> Program s (ProgramId s);
     off \<leftarrow> OffsetToInstructions s (pObjHead s) i;
     let TypeIp = prg_pImage P + off;
     ob \<leftarrow> get_obj s (pObjList s) i;
     NoOfPars \<leftarrow> mem s TypeIp;
     (TypeIp, s) \<leftarrow> copy_pars par_to_local (unat NoOfPars) (TypeIp + 1) (pLocal ob) s;
     s \<leftarrow> upd_obj (pObjList s) i (\<lambda>ob. ob\<lparr>Ip := TypeIp\<rparr>) s;
     Some (s\<lparr>ObjectIp := TmpIp\<rparr>)
   }"

definition CopyLocalsToPars :: "OBJID \<Rightarrow> vm \<Rightarrow> vm option" where
  "CopyLocalsToPars i s = do {
     let TmpIp = ObjectIp s;
     caller \<leftarrow> get_obj s (pObjList s) i;
     let s = s\<lparr>ObjectIp := Ip caller\<rparr>;
     P \<leftarrow> Program s (ProgramId s);
     off \<leftarrow> OffsetToInstructions s (pObjHead s) (ObjectId s);
     let TypeIp = prg_pImage P + off;
     ob \<leftarrow> get_obj s (pObjList s) (ObjectId s);
     NoOfPars \<leftarrow> mem s TypeIp;
     (_, s) \<leftarrow> copy_pars local_to_par (unat NoOfPars) (TypeIp + 1) (pLocal ob) s;
     s \<leftarrow> upd_obj (pObjList s) i (\<lambda>ob. ob\<lparr>Ip := ObjectIp s\<rparr>) s;
     Some (s\<lparr>ObjectIp := TmpIp\<rparr>)
   }"

subsection \<open>Byte codes for programs\<close>

definition Error :: "vm \<Rightarrow> vm option" where
  "Error s = do {
     s \<leftarrow> ProgramEnd (ProgramId s) s;
     s \<leftarrow> upd_prg (ProgramId s) (\<lambda>P. P\<lparr>prg_Result := FAIL\<rparr>) s;
     Some (SetDispatchStatus INSTRBREAK s)
   }"

definition Nop :: "vm \<Rightarrow> vm option" where
  "Nop s = Some s"

fun end_programs :: "nat \<Rightarrow> vm \<Rightarrow> vm option" where
  "end_programs 0 s = Some s"
| "end_programs (Suc PrgId) s = do { s \<leftarrow> ProgramEnd (of_nat PrgId) s; end_programs PrgId s }"

definition ProgramStop :: "vm \<Rightarrow> vm option" where
  "ProgramStop s = do {
     (PrgId, s) \<leftarrow> get16 s;
     if PrgId = GUI_SLOT (Consts s) then end_programs (unat (MAX_PROGRAMS s)) s
     else ProgramEnd (if PrgId = CURRENT_SLOT (Consts s) then CurrentProgramId s else PrgId) s
   }"

definition ProgramStart :: "vm \<Rightarrow> vm option" where
  "ProgramStart s = do {
     (PrgId, s) \<leftarrow> get16 s;
     (_, s) \<leftarrow> get32 s;
     (pI, s) \<leftarrow> get32 s;
     (DB, s) \<leftarrow> get8 s;
     P \<leftarrow> Program s PrgId;
     if prg_Status P = STOPPED then do {
       let TmpPrgId = CurrentProgramId s;
       if TmpPrgId = CMD_SLOT (Consts s) \<or> TmpPrgId = TERM_SLOT (Consts s) then do {
         user \<leftarrow> Program s (USER_SLOT (Consts s));
         debug \<leftarrow> Program s (DEBUG_SLOT (Consts s));
         if prg_Status user = STOPPED \<and> prg_Status debug = STOPPED
         then map_option snd (ProgramReset PrgId pI 0 DB s)
         else Some s
       }
       else map_option snd (ProgramReset PrgId pI 0 DB s)
     }
     else Some s
   }"

definition Do :: "vm \<Rightarrow> vm option" where
  "Do s = do {
     (PrgId, s) \<leftarrow> get16 s;
     (image, s) \<leftarrow> get32 s;
     (globals, s) \<leftarrow> get32 s;
     status \<leftarrow> ProgramStatus PrgId s;
     s \<leftarrow> (if status \<noteq> STOPPED then ProgramEnd PrgId s else Some s);
     status \<leftarrow> ProgramStatus PrgId s;
     s \<leftarrow> (if status = STOPPED then do {
            (Result, s) \<leftarrow> ProgramReset PrgId image globals 0 s;
            Some (if Result \<noteq> OK \<and> PrgId \<noteq> CMD_SLOT (Consts s)
                  then LogErrorNumber VM_PROGRAM_NOT_STARTED s else s)
          }
          else Some s);
     Some (s\<lparr>Trace := CallUiAlive # Trace s\<rparr>)
   }"

subsection \<open>Byte codes for objects\<close>

definition ObjectStop :: "vm \<Rightarrow> vm option" where
  "ObjectStop s = do { (i, s) \<leftarrow> get16 s; ObjectDeQueue i s }"

definition ObjectStart :: "vm \<Rightarrow> vm option" where
  "ObjectStart s = do { (i, s) \<leftarrow> get16 s; ObjectEnQueue i s }"

definition ObjectTrig :: "vm \<Rightarrow> vm option" where
  "ObjectTrig s = do {
     (TmpId, s) \<leftarrow> get16 s;
     s \<leftarrow> upd_obj (pObjList s) TmpId (\<lambda>ob. ob\<lparr>ObjStatus := WAITING\<rparr>) s;
     ob \<leftarrow> get_obj s (pObjList s) TmpId;
     if u ob \<noteq> 0 then do {
       s \<leftarrow> upd_obj (pObjList s) TmpId (\<lambda>ob. ob\<lparr>u := u ob - 1\<rparr>) s;
       ob \<leftarrow> get_obj s (pObjList s) TmpId;
       if u ob = 0 then do {
         s \<leftarrow> ObjectReset TmpId s;
         ObjectEnQueue TmpId s
       }
       else Some s
     }
     else Some s
   }"

definition ObjectWait :: "vm \<Rightarrow> vm option" where
  "ObjectWait s = do {
     let TmpIp = ObjectIp s;
     (TmpId, s) \<leftarrow> get16 s;
     ob \<leftarrow> get_obj s (pObjList s) TmpId;
     Some (if ObjStatus ob \<noteq> STOPPED
       then SetDispatchStatus BUSYBREAK (s\<lparr>ObjectIp := TmpIp - 1\<rparr>) else s)
   }"

text \<open>The end of a call: the current object is halted and the called one started.\<close>

definition start_called :: "OBJID \<Rightarrow> vm \<Rightarrow> vm option" where
  "start_called ObjectIdToCall s = do {
     s \<leftarrow> upd_obj (pObjList s) (ObjectId s) (\<lambda>ob. ob\<lparr>Ip := ObjectIp s\<rparr>) s;
     s \<leftarrow> upd_obj (pObjList s) (ObjectId s) (\<lambda>ob. ob\<lparr>ObjStatus := HALTED\<rparr>) s;
     let s = s\<lparr>ObjectId := ObjectIdToCall\<rparr>;
     s \<leftarrow> upd_obj (pObjList s) (ObjectId s) (\<lambda>ob. ob\<lparr>ObjStatus := RUNNING\<rparr>) s;
     ob \<leftarrow> get_obj s (pObjList s) (ObjectId s);
     Some (s\<lparr>ObjectIp := Ip ob, ObjectLocal := pLocal ob\<rparr>)
   }"

definition ObjectCall :: "vm \<Rightarrow> vm option" where
  "ObjectCall s = do {
     let TmpIp = GetObjectIp s;
     (ObjectIdToCall, s) \<leftarrow> get16 s;
     ob \<leftarrow> get_obj s (pObjList s) ObjectIdToCall;
     if ObjStatus ob = STOPPED then do {
       (_, s) \<leftarrow> PrimParPointer s;
       s \<leftarrow> ObjectReset ObjectIdToCall s;
       s \<leftarrow> upd_obj (pObjList s) ObjectIdToCall (\<lambda>ob. ob\<lparr>u := ObjectId s\<rparr>) s;
       s \<leftarrow> CopyParsToLocals ObjectIdToCall s;
       start_called ObjectIdToCall s
     }
     else
       upd_obj (pObjList s) ObjectIdToCall (\<lambda>ob. ob\<lparr>Blocked := 1\<rparr>)
         (SetDispatchStatus BUSYBREAK (SetObjectIp (TmpIp - 1) s))
   }"

text \<open>The end of a return: the current object is stopped and its caller resumed.\<close>

definition stop_called :: "OBJID \<Rightarrow> vm \<Rightarrow> vm option" where
  "stop_called ObjectIdCaller s = do {
     s \<leftarrow> upd_obj (pObjList s) (ObjectId s) (\<lambda>ob. ob\<lparr>Ip := ObjectIp s\<rparr>) s;
     s \<leftarrow> upd_obj (pObjList s) (ObjectId s) (\<lambda>ob. ob\<lparr>ObjStatus := STOPPED\<rparr>) s;
     ob \<leftarrow> get_obj s (pObjList s) (ObjectId s);
     s \<leftarrow> (if Blocked ob \<noteq> 0 then do {
            s \<leftarrow> upd_obj (pObjList s) (ObjectId s) (\<lambda>ob. ob\<lparr>Blocked := 0\<rparr>) s;
            Some (SetDispatchStatus STOPBREAK s)
          }
          else Some s);
     let s = s\<lparr>ObjectId := ObjectIdCaller\<rparr>;
     s \<leftarrow> upd_obj (pObjList s) (ObjectId s) (\<lambda>ob. ob\<lparr>ObjStatus := RUNNING\<rparr>) s;
     ob \<leftarrow> get_obj s (pObjList s) (ObjectId s);
     Some (s\<lparr>ObjectIp := Ip ob, ObjectLocal := pLocal ob\<rparr>)
   }"

definition ObjectReturn :: "vm \<Rightarrow> vm option" where
  "ObjectReturn s = do {
     ob \<leftarrow> get_obj s (pObjList s) (ObjectId s);
     let ObjectIdCaller = u ob;
     caller \<leftarrow> get_obj s (pObjList s) ObjectIdCaller;
     let s = s\<lparr>ObjectLocal := pLocal caller\<rparr>;
     s \<leftarrow> CopyLocalsToPars ObjectIdCaller s;
     stop_called ObjectIdCaller s
   }"

definition ObjectEnd :: "vm \<Rightarrow> vm option" where
  "ObjectEnd s = do {
     P \<leftarrow> Program s (ProgramId s);
     off \<leftarrow> OffsetToInstructions s (prg_pObjHead P) (ObjectId s);
     s \<leftarrow> upd_obj (pObjList s) (ObjectId s) (\<lambda>ob. ob\<lparr>Ip := prg_pImage P + off\<rparr>) s;
     s \<leftarrow> upd_obj (pObjList s) (ObjectId s) (\<lambda>ob. ob\<lparr>ObjStatus := STOPPED\<rparr>) s;
     Some (SetDispatchStatus STOPBREAK s)
   }"

definition Sleep :: "vm \<Rightarrow> vm option" where
  "Sleep s = Some (SetDispatchStatus SLEEPBREAK s)"

definition DefLabel :: "vm \<Rightarrow> vm option" where
  "DefLabel s = map_option snd (PrimParPointer s)"


subsection \<open>Loads see only the bytes they cover\<close>

locale framed_cell = cell +
  assumes ld_span: "(\<And>b. b \<in> span a size \<Longrightarrow> mem s b = mem t b) \<Longrightarrow> ld s (PtrMem a) = ld t (PtrMem a)"
    and ld_mapped: "span a size \<subseteq> dom (mem s) \<Longrightarrow> \<exists>x. ld s (PtrMem a) = Some x"
    and size_pos: "0 < size" and size_le: "size \<le> 4"

interpretation f8: framed_cell load8 store8 1
  by unfold_locales (auto simp: span_1)

interpretation f16: framed_cell load16 store16 2
  by unfold_locales (auto simp: span_2 load16_def)

interpretation f32: framed_cell load32 store32 4
  by unfold_locales (auto simp: span_4 load32_def)

text \<open>\<open>writes R s t\<close>: from \<open>s\<close> to \<open>t\<close> only bytes in the region \<open>R\<close> and the registers of the
  decoder changed.\<close>

definition writes :: "ULONG set \<Rightarrow> vm \<Rightarrow> vm \<Rightarrow> bool" where
  "writes R s t \<longleftrightarrow>
     t = s\<lparr>mem := mem t, ObjectIp := ObjectIp t, Value := Value t, Handle := Handle t\<rparr> \<and>
     (\<forall>b. b \<notin> R \<longrightarrow> mem t b = mem s b) \<and> dom (mem t) = dom (mem s)"

lemma writes_refl: "writes R s s"
  by (simp add: writes_def)

lemma writes_trans: "writes R s t \<Longrightarrow> writes R t v \<Longrightarrow> writes R s v"
  unfolding writes_def by (cases s; cases t; cases v) auto

lemma writes_mono: "writes R s t \<Longrightarrow> R \<subseteq> R' \<Longrightarrow> writes R' s t"
  unfolding writes_def by blast

lemma writes_regs: "regs_only s t \<Longrightarrow> writes R s t"
  unfolding writes_def regs_only_def by (cases s; cases t) auto

lemma wrote_writes: "wrote ld n d x ip s t \<Longrightarrow> writes (span d n) s t \<and> ObjectIp t = ip"
  unfolding wrote_def writes_def by (cases s; cases t) auto

lemma writesD:
  assumes "writes R s t"
  shows "pGlobal t = pGlobal s" "ObjectLocal t = ObjectLocal s" "Consts t = Consts s"
    "ProgramId t = ProgramId s" "Program t = Program s" "pImage t = pImage s" "ObjHeap t = ObjHeap s"
    "pObjList t = pObjList s" "pObjHead t = pObjHead s" "ObjectId t = ObjectId s" "dom (mem t) = dom (mem s)"
    "DispatchStatus t = DispatchStatus s" "Objects t = Objects s"
  using assms unfolding writes_def by (cases s; cases t; simp)+

lemma writes_mem: "writes R s t \<Longrightarrow> b \<notin> R \<Longrightarrow> mem t b = mem s b"
  by (simp add: writes_def)

lemma writes_set_ip: "writes R s t \<Longrightarrow> writes R s (t\<lparr>ObjectIp := i\<rparr>)"
  unfolding writes_def by (cases s; cases t) simp

lemma span_shift: "span a (Suc n) = insert a (span (a + 1) n)"
  unfolding span_def lessThan_Suc_eq_insert_0 image_insert
  by (simp add: image_image add.assoc)

lemma span_append: "span a (m + n) = span a m \<union> span (a + of_nat m) n"
  by (induction m arbitrary: a) (simp_all add: span_shift add.assoc)

lemma code_at_writes:
  assumes w: "writes R s t" and "span a (length bs) \<inter> R = {}" and "code_at s a bs"
  shows "code_at t a bs"
  using assms(2,3)
proof (induction bs arbitrary: a)
  case (Cons b bs)
  then show ?case using writes_mem [OF w, of a] by (auto simp: span_shift)
qed simp

text \<open>The parameters considered are constants and variables.\<close>

fun plain :: "operand \<Rightarrow> bool" where
  "plain (Const w v) = True"
| "plain (Var sc w i) = True"
| "plain _ = False"

lemma plain_numeric: "plain p \<Longrightarrow> numeric p"
  by (cases p) auto

text \<open>The bytes a plain parameter of \<open>n\<close> bytes refers to.\<close>

definition refers :: "vm \<Rightarrow> operand \<Rightarrow> nat \<Rightarrow> ULONG set" where
  "refers s p n = (case p of Var sc w i \<Rightarrow> span (base sc s + i) n | _ \<Rightarrow> {})"

lemma base_writes: "writes R s t \<Longrightarrow> base sc t = base sc s"
  by (cases sc) (simp_all add: writesD)

lemma refers_writes: "writes R s t \<Longrightarrow> refers t p n = refers s p n"
  by (simp add: refers_def base_writes split: operand.split)

context framed_cell
begin

lemma value_writes:
  assumes w: "writes R s t" and p: "plain p" and d: "refers s p size \<inter> R = {}"
  shows "operand_value ld t p = operand_value ld s p"
proof (cases p)
  case (Const v x)
  then show ?thesis by (simp add: operand_value_def ld_value)
next
  case (Var sc v i)
  note b = base_writes [OF w, of sc]
  have "ld (t\<lparr>Value := i\<rparr>) (PtrMem (base sc s + i)) = ld (s\<lparr>Value := i\<rparr>) (PtrMem (base sc s + i))"
    using writes_mem [OF w] d by (intro ld_span) (auto simp: Var refers_def)
  then show ?thesis by (simp add: operand_value_def Var b)
qed (use p in auto)

text \<open>One parameter: decoding it and copying it to the local variable at \<open>a\<close>, or back.\<close>

lemma copy_in:
  assumes c: "code_at s (ObjectIp s) (enc p)" and wf: "wf p" and p: "plain p"
    and x: "operand_value ld s p = Some x" and a: "span a size \<subseteq> dom (mem s)"
  shows "\<exists>q v t. PrimParPointer s = Some (q, v) \<and> copy_cell ld st q (PtrMem a) v = Some t \<and>
    writes (span a size) s t \<and> ObjectIp t = ObjectIp s + of_nat (length (enc p)) \<and> ld t (PtrMem a) = Some x"
proof -
  obtain q v h where q: "denote s p = Some (q, v, h)" "ld (s\<lparr>Value := v\<rparr>) q = Some x"
    using x by (auto simp: operand_value_def bind_conv)
  let ?v = "s\<lparr>ObjectIp := ObjectIp s + of_nat (length (enc p)), Value := v, Handle := h\<rparr>"
  have l: "ld ?v q = Some x" using q(2) ld_cong [of ?v "s\<lparr>Value := v\<rparr>" q] by simp
  obtain y where "ld ?v (PtrMem a) = Some y" using ld_mapped [of a ?v] a by auto
  then obtain t where t: "st ?v (PtrMem a) x = Some t" using st_ok by blast
  obtain m where "t = ?v\<lparr>mem := m\<rparr>" "\<forall>b. b \<notin> span a size \<longrightarrow> m b = mem s b" "dom m = dom (mem s)"
    using st_mem [OF t] by auto
  then have "writes (span a size) s t" "ObjectIp t = ObjectIp s + of_nat (length (enc p))"
    by (simp_all add: writes_def)
  moreover have "PrimParPointer s = Some (q, ?v)" using decode [OF c wf] q(1) by simp
  ultimately show ?thesis using l t st_ld [OF t] by (auto simp: copy_cell_def)
qed

lemma copy_out:
  assumes c: "code_at s (ObjectIp s) (enc (Var sc w i))" and wf: "wf (Var sc w i)"
    and x: "ld s (PtrMem a) = Some x" and m: "refers s (Var sc w i) size \<subseteq> dom (mem s)"
  shows "\<exists>q v t. PrimParPointer s = Some (q, v) \<and> copy_cell ld st (PtrMem a) q v = Some t \<and>
    writes (refers s (Var sc w i) size) s t \<and> ObjectIp t = ObjectIp s + of_nat (length (enc (Var sc w i))) \<and>
    operand_value ld t (Var sc w i) = Some x"
proof -
  let ?d = "base sc s + i"
  let ?v = "s\<lparr>ObjectIp := ObjectIp s + of_nat (length (enc (Var sc w i))), Value := i, Handle := - 1\<rparr>"
  have l: "ld ?v (PtrMem a) = Some x" using x ld_mem_cong [of ?v s a] by simp
  obtain y where "ld ?v (PtrMem ?d) = Some y" using ld_mapped [of ?d ?v] m by (auto simp: refers_def)
  then obtain t where t: "st ?v (PtrMem ?d) x = Some t" using st_ok by blast
  obtain k where k: "t = ?v\<lparr>mem := k\<rparr>" "\<forall>b. b \<notin> span ?d size \<longrightarrow> k b = mem s b" "dom k = dom (mem s)"
    using st_mem [OF t] by auto
  then have "writes (span ?d size) s t" by (simp add: writes_def)
  moreover have "base sc t = base sc s" using k(1) by (cases sc) simp_all
  then have "operand_value ld t (Var sc w i) = Some x"
    using st_ld [OF t] ld_mem_cong [of "t\<lparr>Value := i\<rparr>" t ?d] by (simp add: operand_value_def)
  moreover have "PrimParPointer s = Some (PtrMem ?d, ?v)" using decode [OF c wf] by simp
  ultimately show ?thesis using l t k(1) by (auto simp: copy_cell_def refers_def)
qed

end

subsection \<open>Signatures and frames\<close>

text \<open>A parameter of a sub call: its direction and type, which stand in the preamble, and the
  argument of the call. Strings are not considered here.\<close>

datatype dirn = In | Out | InOut
datatype ptype = P8 | P16 | P32 | PF
datatype param = Param (p_dir: dirn) (p_type: ptype) (p_arg: operand)

definition IN_8 :: UBYTE where "IN_8 = CALLPAR_IN OR DATA_8"
definition IN_16 :: UBYTE where "IN_16 = CALLPAR_IN OR DATA_16"
definition IN_32 :: UBYTE where "IN_32 = CALLPAR_IN OR DATA_32"
definition IN_F :: UBYTE where "IN_F = CALLPAR_IN OR DATA_F"
definition OUT_8 :: UBYTE where "OUT_8 = CALLPAR_OUT OR DATA_8"
definition OUT_16 :: UBYTE where "OUT_16 = CALLPAR_OUT OR DATA_16"
definition OUT_32 :: UBYTE where "OUT_32 = CALLPAR_OUT OR DATA_32"
definition OUT_F :: UBYTE where "OUT_F = CALLPAR_OUT OR DATA_F"
definition IO_8 :: UBYTE where "IO_8 = IN_8 OR OUT_8"
definition IO_16 :: UBYTE where "IO_16 = IN_16 OR OUT_16"
definition IO_32 :: UBYTE where "IO_32 = IN_32 OR OUT_32"
definition IO_F :: UBYTE where "IO_F = IN_F OR OUT_F"

lemmas par_code_defs = IN_8_def IN_16_def IN_32_def IN_F_def OUT_8_def OUT_16_def OUT_32_def OUT_F_def
  IO_8_def IO_16_def IO_32_def IO_F_def callpar_defs data_type_defs

fun par_code :: "dirn \<Rightarrow> ptype \<Rightarrow> UBYTE" where
  "par_code In P8 = IN_8" | "par_code In P16 = IN_16" | "par_code In P32 = IN_32" | "par_code In PF = IN_F"
| "par_code Out P8 = OUT_8" | "par_code Out P16 = OUT_16" | "par_code Out P32 = OUT_32" | "par_code Out PF = OUT_F"
| "par_code InOut P8 = IO_8" | "par_code InOut P16 = IO_16" | "par_code InOut P32 = IO_32" | "par_code InOut PF = IO_F"

fun psize :: "ptype \<Rightarrow> nat" where
  "psize P8 = 1" | "psize P16 = 2" | "psize P32 = 4" | "psize PF = 4"

text \<open>The address of a local variable of a type that is placed at \<open>l\<close> or after it, and the
  address after it; the frame of a list of parameters and the places in it.\<close>

fun pcell :: "ptype \<Rightarrow> ULONG \<Rightarrow> ULONG" where
  "pcell P8 l = l" | "pcell P16 l = align2 l" | "pcell P32 l = align4 l" | "pcell PF l = align4 l"

definition pnext :: "ptype \<Rightarrow> ULONG \<Rightarrow> ULONG" where
  "pnext ty l = pcell ty l + of_nat (psize ty)"

fun places :: "ULONG \<Rightarrow> param list \<Rightarrow> (param \<times> ULONG) list" where
  "places l [] = []"
| "places l (p # ps) = (p, pcell (p_type p) l) # places (pnext (p_type p) l) ps"

fun frame_end :: "ULONG \<Rightarrow> param list \<Rightarrow> ULONG" where
  "frame_end l [] = l"
| "frame_end l (p # ps) = frame_end (pnext (p_type p) l) ps"

definition frame :: "ULONG \<Rightarrow> param list \<Rightarrow> ULONG set" where
  "frame l ps = {l..<frame_end l ps}"

text \<open>The value of an argument and of a local variable, as a 32-bit word.\<close>

fun value_of :: "ptype \<Rightarrow> vm \<Rightarrow> operand \<Rightarrow> ULONG option" where
  "value_of P8 s p = map_option ucast (operand_value load8 s p)"
| "value_of P16 s p = map_option ucast (operand_value load16 s p)"
| "value_of P32 s p = operand_value load32 s p"
| "value_of PF s p = operand_value load32 s p"

fun local_value :: "ptype \<Rightarrow> vm \<Rightarrow> ULONG \<Rightarrow> ULONG option" where
  "local_value P8 s a = map_option ucast (load8 s (PtrMem a))"
| "local_value P16 s a = map_option ucast (load16 s (PtrMem a))"
| "local_value P32 s a = load32 s (PtrMem a)"
| "local_value PF s a = load32 s (PtrMem a)"

fun copy_value :: "ptype \<Rightarrow> ptr \<Rightarrow> ptr \<Rightarrow> vm \<Rightarrow> vm option" where
  "copy_value P8 = copy_cell load8 store8"
| "copy_value P16 = copy_cell load16 store16"
| "copy_value P32 = copy_cell load32 store32"
| "copy_value PF = copy_cell load32 store32"


lemma copy_value_in:
  assumes "code_at s (ObjectIp s) (enc p)" and "wf p" and "plain p"
    and "value_of ty s p = Some x" and "span a (psize ty) \<subseteq> dom (mem s)"
  shows "\<exists>q v t. PrimParPointer s = Some (q, v) \<and> copy_value ty q (PtrMem a) v = Some t \<and>
    writes (span a (psize ty)) s t \<and> ObjectIp t = ObjectIp s + of_nat (length (enc p)) \<and>
    local_value ty t a = Some x"
proof (cases ty)
  case P8
  then obtain y where "operand_value load8 s p = Some y" "x = ucast y" using assms(4) by auto
  then show ?thesis using f8.copy_in [OF assms(1-3), of y a] assms(5) P8 by auto
next
  case P16
  then obtain y where "operand_value load16 s p = Some y" "x = ucast y" using assms(4) by auto
  then show ?thesis using f16.copy_in [OF assms(1-3), of y a] assms(5) P16 by auto
next
  case P32
  then show ?thesis using f32.copy_in [OF assms(1-3), of x a] assms(4,5) by auto
next
  case PF
  then show ?thesis using f32.copy_in [OF assms(1-3), of x a] assms(4,5) by auto
qed

lemma copy_value_out:
  assumes "code_at s (ObjectIp s) (enc (Var sc w i))" and "wf (Var sc w i)"
    and "local_value ty s a = Some x" and "refers s (Var sc w i) (psize ty) \<subseteq> dom (mem s)"
  shows "\<exists>q v t. PrimParPointer s = Some (q, v) \<and> copy_value ty (PtrMem a) q v = Some t \<and>
    writes (refers s (Var sc w i) (psize ty)) s t \<and>
    ObjectIp t = ObjectIp s + of_nat (length (enc (Var sc w i))) \<and> value_of ty t (Var sc w i) = Some x"
proof (cases ty)
  case P8
  then obtain y where "load8 s (PtrMem a) = Some y" "x = ucast y" using assms(3) by auto
  then show ?thesis using f8.copy_out [OF assms(1,2), of a y] assms(4) P8 by auto
next
  case P16
  then obtain y where "load16 s (PtrMem a) = Some y" "x = ucast y" using assms(3) by auto
  then show ?thesis using f16.copy_out [OF assms(1,2), of a y] assms(4) P16 by auto
next
  case P32
  then show ?thesis using f32.copy_out [OF assms(1,2), of a x] assms(3,4) by auto
next
  case PF
  then show ?thesis using f32.copy_out [OF assms(1,2), of a x] assms(3,4) by auto
qed

lemma value_of_writes:
  assumes "writes R s t" and "plain p" and "refers s p (psize ty) \<inter> R = {}"
  shows "value_of ty t p = value_of ty s p"
  using assms f8.value_writes [of R s t p] f16.value_writes [of R s t p] f32.value_writes [of R s t p]
  by (cases ty) simp_all

lemma local_value_writes:
  assumes w: "writes R s t" and d: "span a (psize ty) \<inter> R = {}"
  shows "local_value ty t a = local_value ty s a"
proof -
  have m: "mem t b = mem s b" if "b \<in> span a (psize ty)" for b
    using writes_mem [OF w] d that by auto
  show ?thesis
    using m f8.ld_span [of a t s] f16.ld_span [of a t s] f32.ld_span [of a t s] by (cases ty) simp_all
qed

lemma local_value_mapped: "span a (psize ty) \<subseteq> dom (mem s) \<Longrightarrow> \<exists>x. local_value ty s a = Some x"
  using f8.ld_mapped [of a s] f16.ld_mapped [of a s] f32.ld_mapped [of a s] by (cases ty) auto

text \<open>The bodies of the two loops, on the signature bytes.\<close>

lemma par_to_local_code:
  "par_to_local (par_code d ty) T l q s =
     (if d = Out then Some (T, pnext ty l, s)
      else map_option (\<lambda>t. (T, pnext ty l, t)) (copy_value ty q (PtrMem (pcell ty l)) s))"
  by (cases d; cases ty) (simp_all add: par_to_local_def skip_local_def par_code_defs pnext_def Let_def
      map_option_case split: option.split)

lemma local_to_par_code:
  "local_to_par (par_code d ty) T l q s =
     (if d = In then Some (T, pnext ty l, s)
      else map_option (\<lambda>t. (T, pnext ty l, t)) (copy_value ty (PtrMem (pcell ty l)) q s))"
  by (cases d; cases ty) (simp_all add: local_to_par_def skip_local_def par_code_defs pnext_def Let_def
      map_option_case split: option.split)

text \<open>Places do not overlap, as long as the addresses do not wrap around.\<close>

lemma unat_clear_low: "unat (x AND NOT (mask n)) = unat x div 2 ^ n * 2 ^ n" for x :: ULONG
proof -
  have "x AND NOT (mask n) = push_bit n (drop_bit n x)"
    by (rule bit_word_eqI) (auto simp: bit_simps)
  moreover have "take_bit 32 (unat x) = unat x"
    using unsigned_less [of x] by (intro take_bit_nat_eq_self) simp
  ultimately have "unat (x AND NOT (mask n)) = take_bit 32 (push_bit n (drop_bit n (unat x)))"
    by (simp add: unsigned_push_bit_eq unsigned_drop_bit_eq)
  also have "push_bit n (drop_bit n (unat x)) = unat x div 2 ^ n * 2 ^ n"
    by (simp add: push_bit_eq_mult drop_bit_eq_div)
  also have "take_bit 32 (unat x div 2 ^ n * 2 ^ n) = unat x div 2 ^ n * 2 ^ n"
    using unsigned_less [of x] le_less_trans [OF div_times_less_eq_dividend, of "unat x" "2 ^ 32"]
    by (intro take_bit_nat_eq_self) simp
  finally show ?thesis .
qed

lemma unat_plus_small: "unat l + n < 2 ^ 32 \<Longrightarrow> unat (l + of_nat n) = unat l + n" for l :: ULONG
  by (simp add: unat_word_ariths unat_of_nat)

lemma unat_align2: "unat l + 1 < 2 ^ 32 \<Longrightarrow> unat (align2 l) = (unat l + 1) div 2 * 2"
  using unat_clear_low [of "l + 1" 1] unat_plus_small [of l 1] by (simp add: align2_def)

lemma unat_align4: "unat l + 3 < 2 ^ 32 \<Longrightarrow> unat (align4 l) = (unat l + 3) div 4 * 4"
proof -
  assume a: "unat l + 3 < 2 ^ 32"
  have m: "(0xFFFFFFFC :: ULONG) = NOT (mask 2)" by (simp add: mask_eq_exp_minus_1)
  show ?thesis using unat_clear_low [of "l + 3" 2] unat_plus_small [of l 3] a by (simp add: align4_def m)
qed

definition room :: "ULONG \<Rightarrow> param list \<Rightarrow> bool" where
  "room l ps \<longleftrightarrow> unat l + 8 * length ps < 2 ^ 32"

lemma pcell_bounds:
  assumes "unat l + 8 < 2 ^ 32"
  shows "unat l \<le> unat (pcell ty l)" and "unat (pnext ty l) = unat (pcell ty l) + psize ty"
    and "unat (pnext ty l) \<le> unat l + 8"
proof -
  have c: "unat l \<le> unat (pcell ty l) \<and> unat (pcell ty l) \<le> unat l + 3"
    using assms unat_align2 [of l] unat_align4 [of l] by (cases ty) (simp_all, linarith+)
  moreover have "psize ty \<le> 4" by (cases ty) simp_all
  ultimately show "unat l \<le> unat (pcell ty l)" "unat (pnext ty l) = unat (pcell ty l) + psize ty"
    "unat (pnext ty l) \<le> unat l + 8"
    using assms unat_plus_small [of "pcell ty l" "psize ty"] by (simp_all add: pnext_def)
qed

lemma room_Cons: "room l (p # ps) \<Longrightarrow> unat l + 8 < 2 ^ 32 \<and> room (pnext ty l) ps"
  using pcell_bounds(3) [of l ty] by (auto simp: room_def)

lemma frame_end_ge: "room l ps \<Longrightarrow> unat l \<le> unat (frame_end l ps)"
proof (induction ps arbitrary: l)
  case (Cons p ps)
  let ?ty = "p_type p"
  have r: "unat l + 8 < 2 ^ 32" "room (pnext ?ty l) ps" using room_Cons [OF Cons.prems] by auto
  have "unat (pnext ?ty l) \<le> unat (frame_end (pnext ?ty l) ps)" by (rule Cons.IH [OF r(2)])
  then show ?case using pcell_bounds(1,2) [OF r(1), of ?ty] by simp
qed simp

lemma span_bounds: "unat a + n < 2 ^ 32 \<Longrightarrow> b \<in> span a n \<Longrightarrow> unat a \<le> unat b \<and> unat b < unat a + n"
  by (auto simp: span_def unat_plus_small)

lemma frame_Cons:
  assumes "room l (p # ps)"
  defines "c \<equiv> span (pcell (p_type p) l) (psize (p_type p))"
    and "rest \<equiv> frame (pnext (p_type p) l) ps"
  shows "c \<subseteq> frame l (p # ps)" and "rest \<subseteq> frame l (p # ps)" and "c \<inter> rest = {}"
proof -
  let ?ty = "p_type p"
  have r: "unat l + 8 < 2 ^ 32" "room (pnext ?ty l) ps" using room_Cons [OF assms(1)] by auto
  note b = pcell_bounds [OF r(1), of ?ty] and e = frame_end_ge [OF r(2)]
  have n: "unat (pcell ?ty l) + psize ?ty < 2 ^ 32" using b r(1) by linarith
  have c: "unat (pcell ?ty l) \<le> unat x \<and> unat x < unat (pnext ?ty l)" if "x \<in> c" for x
    using span_bounds [OF n] that b(2) unfolding c_def by auto
  show "c \<subseteq> frame l (p # ps)" using c b e by (fastforce simp: frame_def word_le_nat_alt word_less_nat_alt)
  show "rest \<subseteq> frame l (p # ps)" using b e by (auto simp: rest_def frame_def word_le_nat_alt word_less_nat_alt)
  show "c \<inter> rest = {}" using c by (fastforce simp: rest_def frame_def word_le_nat_alt)
qed

subsection \<open>The loops over the parameters\<close>

definition preamble :: "param list \<Rightarrow> UBYTE list" where
  "preamble ps = map (\<lambda>p. par_code (p_dir p) (p_type p)) ps"

definition arguments :: "param list \<Rightarrow> UBYTE list" where
  "arguments ps = concat (map (\<lambda>p. enc (p_arg p)) ps)"

abbreviation cell_of :: "vm \<Rightarrow> param \<Rightarrow> ULONG set" where
  "cell_of s p \<equiv> refers s (p_arg p) (psize (p_type p))"

text \<open>An argument can be passed if it is a constant or variable that has a value and, unless
  it is for output only, lies outside the region \<open>R\<close>.\<close>

definition in_ok :: "ULONG set \<Rightarrow> vm \<Rightarrow> param \<Rightarrow> bool" where
  "in_ok R s p \<longleftrightarrow> wf (p_arg p) \<and> plain (p_arg p) \<and>
     (p_dir p \<noteq> Out \<longrightarrow> value_of (p_type p) s (p_arg p) \<noteq> None \<and> cell_of s p \<inter> R = {})"

definition passed :: "vm \<Rightarrow> vm \<Rightarrow> (param \<times> ULONG) list \<Rightarrow> bool" where
  "passed s t pl \<longleftrightarrow> (\<forall>(p, a) \<in> set pl. p_dir p \<noteq> Out \<longrightarrow>
     local_value (p_type p) t a = value_of (p_type p) s (p_arg p))"

lemma plain_decode:
  assumes "code_at s (ObjectIp s) (enc p)" and "wf p" and "plain p"
  shows "\<exists>q v. PrimParPointer s = Some (q, v) \<and> regs_only s v \<and> ObjectIp v = ObjectIp s + of_nat (length (enc p))"
  using decode [OF assms(1,2)] assms(3) by (cases p) auto

text \<open>One round of the loop that passes parameters.\<close>

lemma in_step:
  assumes "code_at s (ObjectIp s) (enc (p_arg p))" and "in_ok R s p"
    and "span (pcell (p_type p) l) (psize (p_type p)) \<subseteq> dom (mem s)"
  shows "\<exists>q v t. PrimParPointer s = Some (q, v) \<and>
    par_to_local (par_code (p_dir p) (p_type p)) T l q v = Some (T, pnext (p_type p) l, t) \<and>
    writes (span (pcell (p_type p) l) (psize (p_type p))) s t \<and>
    ObjectIp t = ObjectIp s + of_nat (length (enc (p_arg p))) \<and> passed s t [(p, pcell (p_type p) l)]"
proof (cases "p_dir p = Out")
  case True
  then show ?thesis
    using plain_decode [OF assms(1)] assms(2) by (auto simp: in_ok_def par_to_local_code passed_def intro: writes_regs)
next
  case False
  then obtain x where "value_of (p_type p) s (p_arg p) = Some x" using assms(2) by (auto simp: in_ok_def)
  then show ?thesis
    using copy_value_in [OF assms(1) _ _ _ assms(3)] assms(2) False
    by (fastforce simp: in_ok_def par_to_local_code passed_def)
qed

lemma in_ok_writes:
  assumes w: "writes R s t" and ok: "in_ok R s p"
  shows "in_ok R t p" and "p_dir p \<noteq> Out \<Longrightarrow> value_of (p_type p) t (p_arg p) = value_of (p_type p) s (p_arg p)"
  using assms value_of_writes [OF w, of "p_arg p" "p_type p"] refers_writes [OF w]
  by (auto simp: in_ok_def)

text \<open>At \<open>T\<close> stand the type bytes of the preamble, at the instruction pointer the arguments,
  both outside \<open>R\<close>.\<close>

definition call_site :: "ULONG set \<Rightarrow> ULONG \<Rightarrow> param list \<Rightarrow> vm \<Rightarrow> bool" where
  "call_site R T ps s \<longleftrightarrow> code_at s T (preamble ps) \<and> code_at s (ObjectIp s) (arguments ps) \<and>
     span T (length ps) \<inter> R = {} \<and> span (ObjectIp s) (length (arguments ps)) \<inter> R = {}"

lemma call_site_first:
  assumes "call_site R T (p # ps) s"
  shows "mem s T = Some (par_code (p_dir p) (p_type p))" and "code_at s (ObjectIp s) (enc (p_arg p))"
  using assms by (auto simp: call_site_def preamble_def arguments_def code_at_append)

lemma call_site_next:
  assumes site: "call_site R T (p # ps) s" and w: "writes R s t"
    and ip: "ObjectIp t = ObjectIp s + of_nat (length (enc (p_arg p)))"
  shows "call_site R (T + 1) ps t"
proof -
  have len: "span (ObjectIp s) (length (arguments (p # ps))) =
      span (ObjectIp s) (length (enc (p_arg p))) \<union> span (ObjectIp t) (length (arguments ps))"
    by (simp add: arguments_def span_append ip)
  have "code_at s (T + 1) (preamble ps)" "code_at s (ObjectIp t) (arguments ps)"
    using site by (simp_all add: call_site_def preamble_def arguments_def code_at_append ip)
  moreover have "span (T + 1) (length ps) \<inter> R = {}" "span (ObjectIp t) (length (arguments ps)) \<inter> R = {}"
    using site len by (auto simp: call_site_def span_shift)
  ultimately show ?thesis
    using code_at_writes [OF w] by (auto simp: call_site_def preamble_def)
qed

lemma places_param: "(p, a) \<in> set (places l ps) \<Longrightarrow> p \<in> set ps"
  by (induction ps arbitrary: l) auto

lemma in_loop:
  assumes "call_site R T ps s" and "room l ps" and "frame l ps \<subseteq> R" and "R \<subseteq> dom (mem s)"
    and "\<forall>p \<in> set ps. in_ok R s p"
  shows "\<exists>t. copy_pars par_to_local (length ps) T l s = Some (T + of_nat (length ps), t) \<and>
    writes (frame l ps) s t \<and> ObjectIp t = ObjectIp s + of_nat (length (arguments ps)) \<and>
    passed s t (places l ps)"
  using assms
proof (induction ps arbitrary: T l s)
  case Nil
  then show ?case by (simp add: arguments_def passed_def writes_refl)
next
  case (Cons p ps)
  let ?ty = "p_type p"
  let ?c = "span (pcell ?ty l) (psize ?ty)"
  note first = call_site_first [OF Cons.prems(1)]
  note fr = frame_Cons [OF Cons.prems(2)]
  have cR: "?c \<subseteq> R" and rR: "frame (pnext ?ty l) ps \<subseteq> R" using fr Cons.prems(3) by auto
  have okp: "in_ok R s p" and cd: "?c \<subseteq> dom (mem s)" using Cons.prems(4,5) cR by auto
  obtain q v t where one: "PrimParPointer s = Some (q, v)"
      "par_to_local (par_code (p_dir p) ?ty) (T + 1) l q v = Some (T + 1, pnext ?ty l, t)"
      "writes ?c s t" "ObjectIp t = ObjectIp s + of_nat (length (enc (p_arg p)))"
      "passed s t [(p, pcell ?ty l)]"
    using in_step [OF first(2) okp cd, of "T + 1"] by blast
  have wR: "writes R s t" by (rule writes_mono [OF one(3) cR])
  have ok: "\<forall>p \<in> set ps. in_ok R t p" using Cons.prems(5) in_ok_writes(1) [OF wR] by simp
  have room: "room (pnext ?ty l) ps" using room_Cons [OF Cons.prems(2)] by simp
  have R: "R \<subseteq> dom (mem t)" using writesD(11) [OF wR] Cons.prems(4) by simp
  obtain w where w: "copy_pars par_to_local (length ps) (T + 1) (pnext ?ty l) t = Some (T + 1 + of_nat (length ps), w)"
      "writes (frame (pnext ?ty l) ps) t w" "ObjectIp w = ObjectIp t + of_nat (length (arguments ps))"
      "passed t w (places (pnext ?ty l) ps)"
    using Cons.IH [OF call_site_next [OF Cons.prems(1) wR one(4)] room rR R ok] by blast
  have run: "copy_pars par_to_local (length (p # ps)) T l s = Some (T + of_nat (length (p # ps)), w)"
    using first(1) one(1,2) w(1) by (simp add: add.assoc)
  have "local_value ?ty w (pcell ?ty l) = local_value ?ty t (pcell ?ty l)"
    using local_value_writes [OF w(2)] fr(3) by blast
  moreover have "value_of (p_type p') t (p_arg p') = value_of (p_type p') s (p_arg p')"
    if "(p', a) \<in> set (places (pnext ?ty l) ps)" "p_dir p' \<noteq> Out" for p' a
    using in_ok_writes(2) [OF wR _ that(2)] Cons.prems(5) places_param [OF that(1)] by simp
  ultimately have "passed s w (places l (p # ps))"
    using one(5) w(4) by (fastforce simp: passed_def)
  moreover have "writes (frame l (p # ps)) s w"
    by (rule writes_trans [OF writes_mono [OF one(3) fr(1)] writes_mono [OF w(2) fr(2)]])
  ultimately show ?case
    using run w(3) one(4) by (auto simp: arguments_def add.assoc)
qed

text \<open>Passing results back. A result is kept if no later result is written to an overlapping
  cell.\<close>

definition out_cells :: "vm \<Rightarrow> param list \<Rightarrow> ULONG set" where
  "out_cells s ps = (\<Union>p \<in> {p \<in> set ps. p_dir p \<noteq> In}. cell_of s p)"

definition out_ok :: "vm \<Rightarrow> param \<Rightarrow> bool" where
  "out_ok s p \<longleftrightarrow> wf (p_arg p) \<and> plain (p_arg p) \<and>
     (p_dir p \<noteq> In \<longrightarrow> (\<exists>sc w i. p_arg p = Var sc w i) \<and> cell_of s p \<subseteq> dom (mem s))"

fun returned :: "vm \<Rightarrow> vm \<Rightarrow> (param \<times> ULONG) list \<Rightarrow> bool" where
  "returned s t [] = True"
| "returned s t ((p, a) # pl) = ((p_dir p \<noteq> In \<and> cell_of s p \<inter> out_cells s (map fst pl) = {} \<longrightarrow>
     value_of (p_type p) t (p_arg p) = local_value (p_type p) s a) \<and> returned s t pl)"

lemma map_places: "map fst (places l ps) = ps"
  by (induction ps arbitrary: l) auto

lemma out_step:
  assumes c: "code_at s (ObjectIp s) (enc (p_arg p))" and ok: "out_ok s p"
    and m: "span (pcell (p_type p) l) (psize (p_type p)) \<subseteq> dom (mem s)"
  shows "\<exists>q v t. PrimParPointer s = Some (q, v) \<and>
    local_to_par (par_code (p_dir p) (p_type p)) T l q v = Some (T, pnext (p_type p) l, t) \<and>
    writes (out_cells s [p]) s t \<and> ObjectIp t = ObjectIp s + of_nat (length (enc (p_arg p))) \<and>
    returned s t [(p, pcell (p_type p) l)]"
proof (cases "p_dir p = In")
  case True
  then show ?thesis
    using plain_decode [OF c] ok by (auto simp: out_ok_def local_to_par_code intro: writes_regs)
next
  case False
  then obtain sc w i where v: "p_arg p = Var sc w i" using ok by (auto simp: out_ok_def)
  obtain x where "local_value (p_type p) s (pcell (p_type p) l) = Some x" using local_value_mapped [OF m] by blast
  then obtain q r t where "PrimParPointer s = Some (q, r)"
      "copy_value (p_type p) (PtrMem (pcell (p_type p) l)) q r = Some t"
      "writes (cell_of s p) s t" "ObjectIp t = ObjectIp s + of_nat (length (enc (p_arg p)))"
      "value_of (p_type p) t (p_arg p) = local_value (p_type p) s (pcell (p_type p) l)"
    using copy_value_out [of s sc w i "p_type p" "pcell (p_type p) l" x] c ok False v
    unfolding out_ok_def by auto
  moreover have "out_cells s [p] = cell_of s p" using False by (auto simp: out_cells_def)
  ultimately show ?thesis
    using False by (simp add: local_to_par_code)
qed

lemma out_ok_writes: "writes R s t \<Longrightarrow> out_ok s p \<Longrightarrow> out_ok t p"
  by (auto simp: out_ok_def refers_writes writesD(11))

lemma out_cells_writes: "writes R s t \<Longrightarrow> out_cells t ps = out_cells s ps"
  by (simp add: out_cells_def refers_writes)

lemma out_cells_Cons: "out_cells s (p # ps) = out_cells s [p] \<union> out_cells s ps"
  by (auto simp: out_cells_def)

lemma returned_from:
  assumes w: "writes W s r" and "returned r t pl"
    and "\<forall>(p, a) \<in> set pl. span a (psize (p_type p)) \<inter> W = {}"
  shows "returned s t pl"
  using assms(2,3)
proof (induction pl)
  case (Cons x pl)
  obtain p a where x: "x = (p, a)" by force
  then show ?case
    using Cons local_value_writes [OF w, of a "p_type p"]
    by (auto simp: refers_writes [OF w] out_cells_writes [OF w])
qed simp

lemma places_frame:
  assumes "room l ps" and "(p, a) \<in> set (places l ps)"
  shows "span a (psize (p_type p)) \<subseteq> frame l ps"
  using assms
proof (induction ps arbitrary: l)
  case (Cons q ps)
  note fr = frame_Cons [OF Cons.prems(1)]
  show ?case
  proof (cases "(p, a) = (q, pcell (p_type q) l)")
    case False
    then have "span a (psize (p_type p)) \<subseteq> frame (pnext (p_type q) l) ps"
      using Cons.IH room_Cons [OF Cons.prems(1)] Cons.prems(2) by auto
    then show ?thesis using fr(2) by blast
  qed (use fr(1) in auto)
qed simp

lemma out_loop:
  assumes "call_site W T ps s" and "room l ps" and "frame l ps \<subseteq> dom (mem s)" and "frame l ps \<inter> W = {}"
    and "out_cells s ps \<subseteq> W" and "\<forall>p \<in> set ps. out_ok s p"
  shows "\<exists>t. copy_pars local_to_par (length ps) T l s = Some (T + of_nat (length ps), t) \<and>
    writes (out_cells s ps) s t \<and> ObjectIp t = ObjectIp s + of_nat (length (arguments ps)) \<and>
    returned s t (places l ps)"
  using assms
proof (induction ps arbitrary: T l s)
  case Nil
  then show ?case by (simp add: arguments_def writes_refl)
next
  case (Cons p ps)
  let ?ty = "p_type p"
  note first = call_site_first [OF Cons.prems(1)]
  note fr = frame_Cons [OF Cons.prems(2)] and oc = out_cells_Cons [of s p ps]
  have okp: "out_ok s p" and cd: "span (pcell ?ty l) (psize ?ty) \<subseteq> dom (mem s)"
    using Cons.prems(3,6) fr(1) by auto
  obtain q v t where one: "PrimParPointer s = Some (q, v)"
      "local_to_par (par_code (p_dir p) ?ty) (T + 1) l q v = Some (T + 1, pnext ?ty l, t)"
      "writes (out_cells s [p]) s t" "ObjectIp t = ObjectIp s + of_nat (length (enc (p_arg p)))"
      "returned s t [(p, pcell ?ty l)]"
    using out_step [OF first(2) okp cd, of "T + 1"] by blast
  have wW: "writes W s t" using writes_mono [OF one(3)] Cons.prems(5) oc by auto
  have ok: "\<forall>p \<in> set ps. out_ok t p" using Cons.prems(6) out_ok_writes [OF wW] by simp
  have room: "room (pnext ?ty l) ps" using room_Cons [OF Cons.prems(2)] by simp
  have f: "frame (pnext ?ty l) ps \<subseteq> dom (mem t)" "frame (pnext ?ty l) ps \<inter> W = {}"
    using fr(2) Cons.prems(3,4) writesD(11) [OF wW] by auto
  have cells: "out_cells t ps \<subseteq> W" using Cons.prems(5) oc out_cells_writes [OF wW] by auto
  obtain w where w: "copy_pars local_to_par (length ps) (T + 1) (pnext ?ty l) t = Some (T + 1 + of_nat (length ps), w)"
      "writes (out_cells t ps) t w" "ObjectIp w = ObjectIp t + of_nat (length (arguments ps))"
      "returned t w (places (pnext ?ty l) ps)"
    using Cons.IH [OF call_site_next [OF Cons.prems(1) wW one(4)] room f cells ok] by blast
  have run: "copy_pars local_to_par (length (p # ps)) T l s = Some (T + of_nat (length (p # ps)), w)"
    using first(1) one(1,2) w(1) by (simp add: add.assoc)
  have "value_of ?ty w (p_arg p) = value_of ?ty t (p_arg p)" if "cell_of s p \<inter> out_cells s ps = {}"
    using value_of_writes [OF w(2), of "p_arg p" ?ty] okp that
    by (simp add: refers_writes [OF wW] out_cells_writes [OF wW] out_ok_def)
  then have "returned s w (places l (p # ps))"
    using one(5) returned_from [OF wW w(4)] places_frame [OF room] f(2)
    by (fastforce simp: map_places out_cells_def)
  moreover have "writes (out_cells s (p # ps)) s w"
    using writes_trans [OF writes_mono [OF one(3)] writes_mono [OF w(2)]] oc out_cells_writes [OF wW] by auto
  ultimately show ?case
    using run w(3) one(4) by (auto simp: arguments_def add.assoc)
qed

subsection \<open>Calling and returning\<close>

lemma object_table_cong:
  "mem t = mem s \<Longrightarrow> obj_ptr t L i = obj_ptr s L i"
  "mem t = mem s \<Longrightarrow> OffsetToInstructions t H i = OffsetToInstructions s H i"
  "mem t = mem s \<Longrightarrow> TriggerCount t H i = TriggerCount s H i"
  using load32_mem_cong [of t s] load16_mem_cong [of t s]
  by (simp_all add: obj_ptr_def OffsetToInstructions_def TriggerCount_def)

lemma object_table_upd [simp]:
  "obj_ptr (s\<lparr>ObjHeap := h\<rparr>) L i = obj_ptr s L i" "obj_ptr (s\<lparr>ObjectIp := a\<rparr>) L i = obj_ptr s L i"
  "obj_ptr (s\<lparr>ObjectId := j\<rparr>) L i = obj_ptr s L i" "obj_ptr (s\<lparr>ObjectLocal := a\<rparr>) L i = obj_ptr s L i"
  "OffsetToInstructions (s\<lparr>ObjHeap := h\<rparr>) H i = OffsetToInstructions s H i"
  "OffsetToInstructions (s\<lparr>ObjectIp := a\<rparr>) H i = OffsetToInstructions s H i"
  "OffsetToInstructions (s\<lparr>ObjectLocal := a\<rparr>) H i = OffsetToInstructions s H i"
  "TriggerCount (s\<lparr>ObjHeap := h\<rparr>) H i = TriggerCount s H i"
  "obj_ptr (s\<lparr>DispatchStatus := d\<rparr>) L i = obj_ptr s L i" "obj_ptr (s\<lparr>Priority := r\<rparr>) L i = obj_ptr s L i"
  "get_obj (s\<lparr>ObjectIp := a\<rparr>) L i = get_obj s L i" "get_obj (s\<lparr>ObjectLocal := a\<rparr>) L i = get_obj s L i"
  by (simp_all cong: object_table_cong get_obj_cong)

lemma obj_ptr_writes:
  assumes w: "writes R s t" and d: "span (L + 4 * ucast i) 4 \<inter> R = {}"
  shows "obj_ptr t L i = obj_ptr s L i"
  using f32.ld_span [of "L + 4 * ucast i" t s] writes_mem [OF w] d by (auto simp: obj_ptr_def)

text \<open>The object \<open>i\<close> is at \<open>a\<close>, and the list entry that refers to it is outside \<open>R\<close>.\<close>

definition object_is :: "ULONG set \<Rightarrow> vm \<Rightarrow> OBJID \<Rightarrow> ULONG \<Rightarrow> OBJ \<Rightarrow> bool" where
  "object_is R s i a ob \<longleftrightarrow> obj_ptr s (pObjList s) i = Some a \<and> mem s a \<noteq> None \<and> ObjHeap s a = Some ob \<and>
     span (pObjList s + 4 * ucast i) 4 \<inter> R = {}"

lemma object_is_get: "object_is R s i a ob \<Longrightarrow> get_obj s (pObjList s) i = Some ob"
  by (simp add: object_is_def get_obj_def obj_at_def)

lemma upd_at:
  "obj_ptr s L i = Some a \<Longrightarrow> mem s a \<noteq> None \<Longrightarrow> ObjHeap s a = Some ob \<Longrightarrow>
    upd_obj L i f s = Some (s\<lparr>ObjHeap := (ObjHeap s)(a \<mapsto> f ob)\<rparr>)"
  by (simp add: upd_obj_def obj_at_def)

lemma get_at:
  "obj_ptr s L i = Some a \<Longrightarrow> mem s a \<noteq> None \<Longrightarrow> get_obj s L i = ObjHeap s a"
  by (auto simp: get_obj_def obj_at_def)

lemma object_is_upd:
  "object_is R s i a ob \<Longrightarrow> L = pObjList s \<Longrightarrow> upd_obj L i f s = Some (s\<lparr>ObjHeap := (ObjHeap s)(a \<mapsto> f ob)\<rparr>)"
  by (simp add: object_is_def upd_obj_def obj_at_def)

lemma object_is_writes:
  assumes w: "writes R s t" and o: "object_is R s i a ob"
  shows "object_is R t i a ob"
proof -
  have "obj_ptr t (pObjList s) i = obj_ptr s (pObjList s) i"
    using obj_ptr_writes [OF w] o by (simp add: object_is_def)
  moreover have "mem t a \<noteq> None" using o writesD(11) [OF w] by (auto simp: object_is_def)
  ultimately show ?thesis
    using o writesD(7,8) [OF w] by (simp add: object_is_def)
qed

text \<open>The code of a sub call: \<open>i\<close> is the object, \<open>e\<close> the address of its preamble.\<close>

definition sub_at :: "vm \<Rightarrow> OBJID \<Rightarrow> ULONG \<Rightarrow> nat \<Rightarrow> bool" where
  "sub_at s i e n \<longleftrightarrow> (\<exists>P off. Program s (ProgramId s) = Some P \<and> prg_pImage P = pImage s \<and>
     OffsetToInstructions s (pObjHead s) i = Some off \<and> e = pImage s + off) \<and>
     mem s e = Some (of_nat n) \<and> n < 256"

lemma CopyParsToLocals_exec:
  assumes sub: "sub_at s i e (length ps)" and ob: "object_is R s i a ob" and R: "R = frame (pLocal ob) ps"
    and site: "call_site R (e + 1) ps s" and room: "room (pLocal ob) ps"
    and m: "R \<subseteq> dom (mem s)" and ok: "\<forall>p \<in> set ps. in_ok R s p"
  shows "\<exists>t. CopyParsToLocals i s = Some (t\<lparr>ObjHeap := (ObjHeap s)(a \<mapsto> ob\<lparr>Ip := e + 1 + of_nat (length ps)\<rparr>),
      ObjectIp := ObjectIp s\<rparr>) \<and> writes R s t \<and> passed s t (places (pLocal ob) ps)"
proof -
  obtain t where t: "copy_pars par_to_local (length ps) (e + 1) (pLocal ob) s = Some (e + 1 + of_nat (length ps), t)"
      "writes R s t" "passed s t (places (pLocal ob) ps)"
    using in_loop [OF site room _ m ok] R by blast
  have n: "unat (of_nat (length ps) :: UBYTE) = length ps"
    using sub by (simp add: sub_at_def unat_of_nat)
  obtain P off where P: "Program s (ProgramId s) = Some P" "prg_pImage P = pImage s"
      "OffsetToInstructions s (pObjHead s) i = Some off" "e = pImage s + off" "mem s e = Some (of_nat (length ps))"
    using sub unfolding sub_at_def by blast
  have "upd_obj (pObjList t) i f t = Some (t\<lparr>ObjHeap := (ObjHeap s)(a \<mapsto> f ob)\<rparr>)" for f
    using object_is_upd [OF object_is_writes [OF t(2) ob] refl] writesD(7) [OF t(2)] by simp
  then have "CopyParsToLocals i s = Some (t\<lparr>ObjHeap := (ObjHeap s)(a \<mapsto> ob\<lparr>Ip := e + 1 + of_nat (length ps)\<rparr>),
      ObjectIp := ObjectIp s\<rparr>)"
    using P n t(1) object_is_get [OF ob] by (simp add: CopyParsToLocals_def)
  with t(2,3) show ?thesis by blast
qed

text \<open>The loops look only at memory and at the bases of the variables.\<close>

definition sees_same :: "vm \<Rightarrow> vm \<Rightarrow> bool" where
  "sees_same s t \<longleftrightarrow> mem t = mem s \<and> pGlobal t = pGlobal s \<and> ObjectLocal t = ObjectLocal s"

lemma sees_base: "sees_same s t \<Longrightarrow> base sc t = base sc s"
  by (cases sc) (simp_all add: sees_same_def)

context cell
begin

lemma value_same:
  assumes "sees_same s t" and "plain p"
  shows "operand_value ld t p = operand_value ld s p"
proof (cases p)
  case (Const w v)
  then show ?thesis by (simp add: operand_value_def ld_value)
next
  case (Var sc w i)
  then show ?thesis
    using assms(1) sees_base [OF assms(1), of sc] ld_mem_cong [of "t\<lparr>Value := i\<rparr>" "s\<lparr>Value := i\<rparr>" "base sc s + i"]
    by (simp add: operand_value_def sees_same_def)
qed (use assms(2) in auto)

end

lemma value_of_same: "sees_same s t \<Longrightarrow> plain p \<Longrightarrow> value_of ty t p = value_of ty s p"
  using c8.value_same [of s t p] c16.value_same [of s t p] c32.value_same [of s t p] by (cases ty) simp_all

lemma refers_same: "sees_same s t \<Longrightarrow> refers t p n = refers s p n"
  by (simp add: refers_def sees_base split: operand.split)

lemma in_ok_same: "sees_same s t \<Longrightarrow> in_ok R t p = in_ok R s p"
  using value_of_same [of s t "p_arg p" "p_type p"] refers_same [of s t] by (auto simp: in_ok_def)

lemma call_site_same: "sees_same s t \<Longrightarrow> ObjectIp t = ObjectIp s \<Longrightarrow> call_site R T ps t = call_site R T ps s"
  using code_at_cong [of t s] by (simp add: call_site_def sees_same_def)

lemma sees_regs: "regs_only s t \<Longrightarrow> sees_same s t"
  by (simp add: sees_same_def regs_onlyD)

text \<open>The parameters of the byte code \<open>CALL\<close>: the object, the number of arguments, the
  arguments.\<close>

definition past_header :: "operand \<Rightarrow> operand \<Rightarrow> vm \<Rightarrow> vm" where
  "past_header i n s = s\<lparr>ObjectIp := ObjectIp s + of_nat (length (enc i @ enc n))\<rparr>"

definition call_header :: "vm \<Rightarrow> operand \<Rightarrow> operand \<Rightarrow> OBJID \<Rightarrow> bool" where
  "call_header s i n c \<longleftrightarrow> code_at s (ObjectIp s) (enc i @ enc n) \<and> wf i \<and> wf n \<and> plain n \<and>
     operand_value load16 s i = Some c"

lemma call_header_run:
  assumes "call_header s i n c"
  shows "\<exists>r v q. get16 s = Some (c, r) \<and> regs_only s r \<and> PrimParPointer r = Some (q, v) \<and> regs_only s v \<and>
    ObjectIp v = ObjectIp (past_header i n s)"
proof -
  obtain r where r: "get16 s = Some (c, r)" "past i s r"
    using c16.get_exec [of s i c] assms by (auto simp: call_header_def code_at_append)
  then have "code_at r (ObjectIp r) (enc n)"
    using assms code_regs [of s r] by (auto simp: call_header_def code_at_append past_def)
  then obtain q v where "PrimParPointer r = Some (q, v)" "regs_only r v"
      "ObjectIp v = ObjectIp r + of_nat (length (enc n))"
    using plain_decode [of r n] assms by (auto simp: call_header_def)
  with r show ?thesis
    using regs_only_trans [of s r v] by (auto simp: past_def past_header_def add.assoc)
qed

lemma returned_same:
  assumes "returned s t pl" and "mem t' = mem t" "ObjectLocal t' = ObjectLocal t" "pGlobal t' = pGlobal t"
    and "\<And>p a. (p, a) \<in> set pl \<Longrightarrow> plain (p_arg p)"
  shows "returned s t' pl"
  using assms(1,5)
proof (induction pl)
  case (Cons x pl)
  obtain p a where x: "x = (p, a)" by force
  have "plain (p_arg p)" using Cons.prems(2) [of p a] x by simp
  then have "value_of (p_type p) t' (p_arg p) = value_of (p_type p) t (p_arg p)"
    using value_of_same [of t t'] assms(2-4) by (simp add: sees_same_def)
  moreover have "returned s t pl" "\<And>p a. (p, a) \<in> set pl \<Longrightarrow> plain (p_arg p)"
    using Cons.prems by (auto simp: x)
  then have "returned s t' pl" by (rule Cons.IH)
  ultimately show ?case using Cons.prems(1) by (simp add: x)
qed simp

lemma passed_same:
  assumes "passed s t pl" and "mem t' = mem t" and "\<And>p a. (p, a) \<in> set pl \<Longrightarrow> p_dir p \<noteq> Out \<Longrightarrow>
    value_of (p_type p) s' (p_arg p) = value_of (p_type p) s (p_arg p)"
  shows "passed s' t' pl"
proof -
  have "local_value ty t' a = local_value ty t a" for ty a
    using assms(2) by (cases ty) (simp_all add: load16_mem_cong [of t' t] load32_mem_cong [of t' t])
  then show ?thesis using assms(1,3) by (fastforce simp: passed_def)
qed

lemma ObjectReset_exec:
  assumes "object_is R s i a ob" and "OffsetToInstructions s (pObjHead s) i = Some off"
    and "TriggerCount s (pObjHead s) i = Some n"
  shows "ObjectReset i s = Some (s\<lparr>ObjHeap := (ObjHeap s)(a \<mapsto> ob\<lparr>Ip := pImage s + off, u := n\<rparr>)\<rparr>)"
  using assms by (simp add: ObjectReset_def object_is_def upd_at)

lemma start_called_exec:
  assumes "object_is R s c a ob" and "object_is R' s (ObjectId s) b me" and "a \<noteq> b"
  shows "start_called c s = Some (s\<lparr>ObjHeap := (ObjHeap s)(b \<mapsto> me\<lparr>Ip := ObjectIp s, ObjStatus := HALTED\<rparr>,
      a \<mapsto> ob\<lparr>ObjStatus := RUNNING\<rparr>), ObjectId := c, ObjectIp := Ip ob, ObjectLocal := pLocal ob\<rparr>)"
  using assms by (simp add: start_called_def object_is_def upd_at get_at)

text \<open>A call up to the copying of its arguments.\<close>

lemma ObjectCall_prepare:
  assumes hd: "call_header s i n c"
    and callee: "object_is R s c a ob" "ObjStatus ob = STOPPED"
    and caller: "object_is R s (ObjectId s) b me" "a \<noteq> b"
    and sub: "sub_at s c e k" "TriggerCount s (pObjHead s) c \<noteq> None"
  defines "ob' \<equiv> ob\<lparr>Ip := e, u := ObjectId s\<rparr>"
  shows "\<exists>w. ObjectCall s = Option.bind (CopyParsToLocals c w) (start_called c) \<and>
    sees_same s w \<and> ObjectIp w = ObjectIp (past_header i n s) \<and> ObjectId w = ObjectId s \<and>
    sub_at w c e k \<and> object_is R w c a ob' \<and> object_is R w (ObjectId s) b me \<and>
    ObjHeap w = (ObjHeap s)(a \<mapsto> ob')"
proof -
  obtain r v q where run: "get16 s = Some (c, r)" "regs_only s r" "PrimParPointer r = Some (q, v)"
      "regs_only s v" "ObjectIp v = ObjectIp (past_header i n s)"
    using call_header_run [OF hd] by blast
  have wr: "writes R s r" "writes R s v" using run(2,4) by (simp_all add: writes_regs)
  obtain off m where off: "OffsetToInstructions s (pObjHead s) c = Some off" "e = pImage s + off"
      "TriggerCount s (pObjHead s) c = Some m"
    using sub unfolding sub_at_def by blast
  have vs: "mem v = mem s" "pObjHead v = pObjHead s" "pImage v = pImage s" "ObjHeap v = ObjHeap s"
      "ObjectId v = ObjectId s" "pObjList v = pObjList s" "ProgramId v = ProgramId s" "Program v = Program s"
    using wr(2) run(4) by (simp_all add: writesD regs_onlyD)
  define w where "w = v\<lparr>ObjHeap := (ObjHeap s)(a \<mapsto> ob')\<rparr>"
  have reset: "ObjectReset c v = Some (v\<lparr>ObjHeap := (ObjHeap s)(a \<mapsto> ob\<lparr>Ip := e, u := m\<rparr>)\<rparr>)"
    using ObjectReset_exec [OF object_is_writes [OF wr(2) callee(1)]] off vs object_table_cong(2,3) [OF vs(1)] by simp
  have prep: "upd_obj (pObjList s) c (\<lambda>ob. ob\<lparr>u := ObjectId s\<rparr>)
      (v\<lparr>ObjHeap := (ObjHeap s)(a \<mapsto> ob\<lparr>Ip := e, u := m\<rparr>)\<rparr>) = Some w"
    using object_is_writes [OF wr(2) callee(1)] by (simp add: object_is_def upd_at vs w_def ob'_def)
  have "ObjectCall s = Option.bind (CopyParsToLocals c w) (start_called c)"
    using run(1,3) object_is_get [OF object_is_writes [OF wr(1) callee(1)]] callee(2) reset prep
    by (simp add: ObjectCall_def vs)
  moreover have "sees_same s w" "ObjectIp w = ObjectIp (past_header i n s)"
    using sees_regs [OF run(4)] run(5) by (simp_all add: sees_same_def w_def)
  moreover have "sub_at w c e k" "object_is R w c a ob'" "object_is R w (ObjectId s) b me"
    using sub(1) callee(1) caller vs object_table_cong(1,2) [OF vs(1)] by (auto simp: sub_at_def w_def object_is_def)
  ultimately show ?thesis using vs by (intro exI [of _ w]) (simp add: w_def)
qed

text \<open>C10: a call of a stopped object makes it the current object, running after its
  preamble, with each input argument in its place among the local variables; the caller is
  halted at the first argument, which the return decodes again. Memory changes only in the
  called object's parameters.\<close>

theorem object_call:
  assumes hd: "call_header s i n c"
    and callee: "object_is R s c a ob" "ObjStatus ob = STOPPED"
    and caller: "object_is R s (ObjectId s) b me" "a \<noteq> b"
    and sub: "sub_at s c e (length ps)" "TriggerCount s (pObjHead s) c \<noteq> None"
    and R: "R = frame (pLocal ob) ps" "room (pLocal ob) ps" "R \<subseteq> dom (mem s)"
    and site: "call_site R (e + 1) ps (past_header i n s)" and ok: "\<forall>p \<in> set ps. in_ok R s p"
  shows "\<exists>t. ObjectCall s = Some t \<and>
    ObjectId t = c \<and> ObjectIp t = e + 1 + of_nat (length ps) \<and> ObjectLocal t = pLocal ob \<and>
    ObjHeap t = (ObjHeap s)(b \<mapsto> me\<lparr>Ip := ObjectIp (past_header i n s), ObjStatus := HALTED\<rparr>,
      a \<mapsto> ob\<lparr>u := ObjectId s, Ip := ObjectIp t, ObjStatus := RUNNING\<rparr>) \<and>
    passed s t (places (pLocal ob) ps) \<and> (\<forall>x. x \<notin> R \<longrightarrow> mem t x = mem s x)"
proof -
  define ob' where "ob' = ob\<lparr>Ip := e, u := ObjectId s\<rparr>"
  obtain w where w: "ObjectCall s = Option.bind (CopyParsToLocals c w) (start_called c)"
      "sees_same s w" "ObjectIp w = ObjectIp (past_header i n s)" "ObjectId w = ObjectId s"
      "sub_at w c e (length ps)" "object_is R w c a ob'" "object_is R w (ObjectId s) b me"
      "ObjHeap w = (ObjHeap s)(a \<mapsto> ob')"
    using ObjectCall_prepare [OF hd callee caller sub] unfolding ob'_def by blast
  have wsite: "call_site R (e + 1) ps w"
    using site call_site_same [of "past_header i n s" w] w(2,3) by (simp add: sees_same_def past_header_def)
  have wok: "\<forall>p \<in> set ps. in_ok R w p" using ok in_ok_same [OF w(2)] by simp
  have loc: "R = frame (pLocal ob') ps" "room (pLocal ob') ps" "R \<subseteq> dom (mem w)"
    using R w(2) by (simp_all add: ob'_def sees_same_def)
  obtain t where t: "CopyParsToLocals c w = Some (t\<lparr>ObjHeap := (ObjHeap w)(a \<mapsto> ob'\<lparr>Ip := e + 1 + of_nat (length ps)\<rparr>),
      ObjectIp := ObjectIp w\<rparr>)" "writes R w t" "passed w t (places (pLocal ob') ps)"
    using CopyParsToLocals_exec [OF w(5,6) loc(1) wsite loc(2,3) wok] by blast
  let ?ob = "ob'\<lparr>Ip := e + 1 + of_nat (length ps)\<rparr>"
  let ?t = "t\<lparr>ObjHeap := (ObjHeap s)(a \<mapsto> ?ob), ObjectIp := ObjectIp w\<rparr>"
  have "object_is R ?t c a ?ob" "object_is R ?t (ObjectId ?t) b me"
    using object_is_writes [OF t(2) w(6)] object_is_writes [OF t(2) w(7)] w(4,8) writesD(7,10) [OF t(2)] caller(2)
    by (simp_all add: object_is_def)
  from start_called_exec [OF this caller(2)]
  have "ObjectCall s = Some (?t\<lparr>ObjHeap := (ObjHeap s)(b \<mapsto> me\<lparr>Ip := ObjectIp w, ObjStatus := HALTED\<rparr>,
      a \<mapsto> ?ob\<lparr>ObjStatus := RUNNING\<rparr>), ObjectId := c, ObjectIp := Ip ?ob, ObjectLocal := pLocal ob\<rparr>)"
    using caller(2) w(1,8) t(1) by (simp add: fun_upd_twist ob'_def)
  moreover have "passed s (?t\<lparr>ObjHeap := h, ObjectId := c, ObjectIp := ip, ObjectLocal := l\<rparr>) (places (pLocal ob) ps)" for h ip l
    by (rule passed_same [OF t(3) [unfolded ob'_def, simplified]])
      (use ok value_of_same [OF w(2)] places_param in \<open>auto simp: in_ok_def\<close>)
  ultimately show ?thesis
    using writes_mem [OF t(2)] w(2,3) by (simp add: sees_same_def ob'_def)
qed

lemma stop_called_exec:
  assumes "object_is R s (ObjectId s) a ob" and "object_is R' s c b me" and "a \<noteq> b"
  defines "t \<equiv> s\<lparr>ObjHeap := (ObjHeap s)(a \<mapsto> ob\<lparr>Ip := ObjectIp s, ObjStatus := STOPPED, Blocked := 0\<rparr>,
      b \<mapsto> me\<lparr>ObjStatus := RUNNING\<rparr>), ObjectId := c, ObjectIp := Ip me, ObjectLocal := pLocal me\<rparr>"
  shows "stop_called c s = Some (if Blocked ob \<noteq> 0 then SetDispatchStatus STOPBREAK t else t)"
proof (cases "Blocked ob = 0")
  case True
  then have "ob\<lparr>Ip := x, ObjStatus := y, Blocked := 0\<rparr> = ob\<lparr>Ip := x, ObjStatus := y\<rparr>" for x y
    by (cases ob) simp
  then have t: "t = s\<lparr>ObjHeap := (ObjHeap s)(a \<mapsto> ob\<lparr>Ip := ObjectIp s, ObjStatus := STOPPED\<rparr>,
      b \<mapsto> me\<lparr>ObjStatus := RUNNING\<rparr>), ObjectId := c, ObjectIp := Ip me, ObjectLocal := pLocal me\<rparr>"
    unfolding t_def by (simp only:)
  from True assms(1-3) show ?thesis
    by (simp add: stop_called_def object_is_def upd_at get_at t)
next
  case False
  with assms(1-3) show ?thesis
    by (simp add: stop_called_def object_is_def upd_at get_at SetDispatchStatus_def t_def)
qed

text \<open>C11: a return resumes the caller after its arguments, with the values of the
  output parameters in the variables the caller passed (where two outputs overlap, the later
  one wins). The called object is stopped; a thread that found it busy in the meantime makes
  the return end the time slice. Memory changes only in the output variables.\<close>

theorem object_return:
  assumes callee: "object_is W s (ObjectId s) a ob" and caller: "object_is W s (u ob) b me" "a \<noteq> b"
    and sub: "sub_at s (ObjectId s) e (length ps)"
  defines "s0 \<equiv> s\<lparr>ObjectLocal := pLocal me, ObjectIp := Ip me\<rparr>"
  assumes W: "W = out_cells s0 ps" and site: "call_site W (e + 1) ps s0"
    and frame: "room (pLocal ob) ps" "frame (pLocal ob) ps \<subseteq> dom (mem s)" "frame (pLocal ob) ps \<inter> W = {}"
    and ok: "\<forall>p \<in> set ps. out_ok s0 p"
  shows "\<exists>t. ObjectReturn s = Some t \<and>
    ObjectId t = u ob \<and> ObjectIp t = Ip me + of_nat (length (arguments ps)) \<and> ObjectLocal t = pLocal me \<and>
    ObjHeap t = (ObjHeap s)(a \<mapsto> ob\<lparr>Ip := ObjectIp s, ObjStatus := STOPPED, Blocked := 0\<rparr>,
      b \<mapsto> me\<lparr>Ip := ObjectIp t, ObjStatus := RUNNING\<rparr>) \<and>
    DispatchStatus t = (if Blocked ob \<noteq> 0 then STOPBREAK else DispatchStatus s) \<and>
    returned s0 t (places (pLocal ob) ps) \<and> (\<forall>x. x \<notin> W \<longrightarrow> mem t x = mem s x)"
proof -
  have s0: "object_is W s0 (ObjectId s) a ob" "object_is W s0 (u ob) b me" "mem s0 = mem s" "ObjHeap s0 = ObjHeap s"
    using callee caller by (simp_all add: object_is_def s0_def)
  have fr: "frame (pLocal ob) ps \<subseteq> dom (mem s0)" using frame(2) by (simp add: s0_def)
  obtain t where t: "copy_pars local_to_par (length ps) (e + 1) (pLocal ob) s0 = Some (e + 1 + of_nat (length ps), t)"
      "writes W s0 t" "ObjectIp t = Ip me + of_nat (length (arguments ps))" "returned s0 t (places (pLocal ob) ps)"
    using out_loop [OF site frame(1) fr frame(3) _ ok] W by (auto simp: s0_def)
  note T = object_is_writes [OF t(2) s0(1)] object_is_writes [OF t(2) s0(2)]
  have ts: "pObjList t = pObjList s" "ObjectId t = ObjectId s" "ObjHeap t = ObjHeap s" "ObjectLocal t = pLocal me"
      "DispatchStatus t = DispatchStatus s"
    using writesD [OF t(2)] by (simp_all add: s0_def)
  let ?t = "t\<lparr>ObjHeap := (ObjHeap s)(b \<mapsto> me\<lparr>Ip := ObjectIp t\<rparr>), ObjectIp := ObjectIp s\<rparr>"
  obtain P off where P: "Program s (ProgramId s) = Some P" "prg_pImage P = pImage s"
      "OffsetToInstructions s (pObjHead s) (ObjectId s) = Some off" "e = pImage s + off"
      "mem s e = Some (of_nat (length ps))" "length ps < 256"
    using sub unfolding sub_at_def by blast
  have "CopyLocalsToPars (u ob) (s\<lparr>ObjectLocal := pLocal me\<rparr>) = Some ?t"
    using P object_is_get [OF callee] object_is_get [OF caller(1)] t(1) T
    by (simp add: CopyLocalsToPars_def Let_def s0_def unat_of_nat object_is_def upd_at ts)
  moreover have loc: "object_is W ?t (ObjectId ?t) a ob" "object_is W ?t (u ob) b (me\<lparr>Ip := ObjectIp t\<rparr>)"
    using T caller by (simp_all add: object_is_def ts)
  ultimately have "ObjectReturn s = stop_called (u ob) ?t"
    using object_is_get [OF callee] object_is_get [OF caller(1)] by (simp add: ObjectReturn_def Let_def)
  with stop_called_exec [OF loc caller(2)] obtain v where v: "ObjectReturn s = Some v"
      "v = (if Blocked ob \<noteq> 0 then SetDispatchStatus STOPBREAK (?t\<lparr>ObjHeap := (ObjHeap s)(a \<mapsto> ob\<lparr>Ip := ObjectIp s,
        ObjStatus := STOPPED, Blocked := 0\<rparr>, b \<mapsto> me\<lparr>Ip := ObjectIp t, ObjStatus := RUNNING\<rparr>),
        ObjectId := u ob, ObjectIp := ObjectIp t, ObjectLocal := pLocal me\<rparr>)
      else ?t\<lparr>ObjHeap := (ObjHeap s)(a \<mapsto> ob\<lparr>Ip := ObjectIp s, ObjStatus := STOPPED, Blocked := 0\<rparr>,
        b \<mapsto> me\<lparr>Ip := ObjectIp t, ObjStatus := RUNNING\<rparr>), ObjectId := u ob, ObjectIp := ObjectIp t,
        ObjectLocal := pLocal me\<rparr>)"
    using caller(2) by (simp add: fun_upd_twist)
  have m: "mem v = mem t" "ObjectLocal v = ObjectLocal t" "pGlobal v = pGlobal t"
    by (simp_all add: v(2) SetDispatchStatus_def ts)
  have "returned s0 v (places (pLocal ob) ps)"
    by (rule returned_same [OF t(4) m]) (use ok in \<open>auto simp: out_ok_def dest: places_param\<close>)
  then show ?thesis
    using v(1) writes_mem [OF t(2)] s0(3) t(3)
    by (intro exI [of _ v]) (simp add: v(2) SetDispatchStatus_def ts m)
qed

subsection \<open>Busy objects and triggers\<close>

lemma get16_exec:
  assumes "code_at s (ObjectIp s) (enc i)" and "wf i" and "operand_value load16 s i = Some c"
  shows "\<exists>r. get16 s = Some (c, r) \<and> regs_only s r \<and> ObjectIp r = ObjectIp s + of_nat (length (enc i))"
  using c16.get_exec [OF assms] by (auto simp: past_def)

text \<open>\<open>CALL\<close> and \<open>OBJECT_WAIT\<close> on an object that is not stopped end the time
  slice with the instruction pointer back on the byte code, so that it is executed again;
  \<open>CALL\<close> also marks the object, so that its return ends the time slice.\<close>

theorem object_busy:
  assumes "code_at s (ObjectIp s) (enc i)" and "wf i" and "operand_value load16 s i = Some c"
    and "object_is {} s c a ob" and "ObjStatus ob \<noteq> STOPPED"
  shows "\<exists>t v. ObjectCall s = Some t \<and> ObjectIp t = ObjectIp s - 1 \<and> DispatchStatus t = BUSYBREAK \<and>
    Priority t = 0 \<and> mem t = mem s \<and> ObjHeap t = (ObjHeap s)(a \<mapsto> ob\<lparr>Blocked := 1\<rparr>) \<and>
    ObjectWait s = Some v \<and> ObjectIp v = ObjectIp s - 1 \<and> DispatchStatus v = BUSYBREAK \<and>
    Priority v = 0 \<and> mem v = mem s \<and> ObjHeap v = ObjHeap s"
proof -
  obtain r where r: "get16 s = Some (c, r)" "regs_only s r" using get16_exec [OF assms(1-3)] by blast
  have w: "writes {} s r" by (rule writes_regs [OF r(2)])
  have o: "object_is {} r c a ob" by (rule object_is_writes [OF w assms(4)])
  then have g: "get_obj r (pObjList r) c = Some ob" "obj_ptr r (pObjList r) c = Some a" "mem r a \<noteq> None"
    "ObjHeap r a = Some ob"
    by (auto simp: object_is_def get_obj_def obj_at_def)
  show ?thesis
    using assms(5) r g writesD(7) [OF w] regs_onlyD(1) [OF r(2)]
    by (simp add: ObjectCall_def ObjectWait_def Let_def upd_at SetDispatchStatus_def SetObjectIp_def GetObjectIp_def)
qed


subsection \<open>Witnesses\<close>

text \<open>A caller, object 1, that calls object 2 with a constant, a 16-bit global variable and a
  32-bit global variable for the result; its code is at \<open>0x128\<close>, the preamble of object 2 at
  \<open>0x130\<close>, its local variables at \<open>0x201C\<close>.\<close>

definition sample_pars :: "param list" where
  "sample_pars = [Param In P8 (Const W0 5), Param In P16 (Var Global W0 16), Param Out P32 (Var Global W0 20)]"

definition sample_image :: "UBYTE list" where
  "sample_image = [40, 0, 0, 0, 0, 0, 0, 0, 4, 0, 0, 0, 48, 0, 0, 0, 0, 0, 0, 0, 8, 0, 0, 0]
     @ replicate 16 0 @ [0x02, 0x03, 0x05, 0x70, 0x74, 0, 0, 0] @ [3, 0x80, 0x81, 0x42]"

definition sample_ob1 :: OBJ where
  "sample_ob1 = \<lparr>Ip = 0x12A, pLocal = 0x200C, ObjStatus = RUNNING, Blocked = 0, u = 0\<rparr>"

definition sample_ob2 :: "OBJSTAT \<Rightarrow> OBJ" where
  "sample_ob2 st = \<lparr>Ip = 0x134, pLocal = 0x201C, ObjStatus = st, Blocked = 0, u = 1\<rparr>"

definition sample_caller :: vm where
  "sample_caller = (sample_vm sample_image)\<lparr>
     mem := (sample_mem sample_image)(0x1005 \<mapsto> 0x20, 0x1008 \<mapsto> 0x10, 0x1009 \<mapsto> 0x20),
     ObjHeap := [0x2000 \<mapsto> sample_ob1, 0x2010 \<mapsto> sample_ob2 STOPPED],
     Objects := 2, ObjectId := 1, pObjList := 0x1000, pObjHead := 0xF4, ObjectIp := 0x128\<rparr>"

definition sample_callee :: vm where
  "sample_callee = sample_caller\<lparr>ObjHeap := [0x2000 \<mapsto> sample_ob1\<lparr>ObjStatus := HALTED\<rparr>, 0x2010 \<mapsto> sample_ob2 RUNNING],
     ObjectId := 2, ObjectIp := 0x134\<rparr>"

lemmas sample_call_defs = sample_caller_def sample_callee_def sample_ob1_def sample_ob2_def sample_mem_def sample_image_def nth_append

lemma sample_caller_sel:
  "ObjectId sample_caller = 1" "pObjList sample_caller = 0x1000" "pObjHead sample_caller = 0xF4"
  "pImage sample_caller = 0x100" "ObjectIp sample_caller = 0x128" "pGlobal sample_caller = 0x1000"
  "ObjectId sample_callee = 2" "pObjList sample_callee = 0x1000" "pGlobal sample_callee = 0x1000"
  "ObjectIp sample_callee = 0x134" "mem sample_callee = mem sample_caller" "pImage sample_callee = 0x100"
  by (simp_all add: sample_caller_def sample_callee_def)

lemma sample_frame: "frame 0x201C sample_pars = {0x201C..<0x2024}" "room 0x201C sample_pars" "length sample_pars = 3"
  by (simp_all add: frame_def sample_pars_def pnext_def align2_def align4_def room_def)

lemma unat_ULONG: "unat (x :: ULONG) < 4294967296"
  by (rule order_less_le_trans [OF unsigned_less]) simp

lemma span_frame:
  "unat a + n \<le> unat l \<Longrightarrow> span a n \<inter> {l..<e} = {}"
  "unat e \<le> unat a \<Longrightarrow> unat a + n < 2 ^ 32 \<Longrightarrow> span a n \<inter> {l..<e} = {}"
proof -
  assume a: "unat a + n \<le> unat l"
  then have "unat a + n < 2 ^ 32" using unat_ULONG [of l] by simp
  then show "span a n \<inter> {l..<e} = {}" using a span_bounds [of a n] by (fastforce simp: word_le_nat_alt)
next
  assume "unat e \<le> unat a" and "unat a + n < 2 ^ 32"
  then show "span a n \<inter> {l..<e} = {}" using span_bounds [of a n] by (fastforce simp: word_less_nat_alt)
qed

lemma sample_mapped: "{0x201C..<0x2024} \<subseteq> dom (mem sample_caller)"
proof
  fix x :: ULONG assume "x \<in> {0x201C..<0x2024}"
  then have "0x201C \<le> unat x" "unat x < 0x2024" by (simp_all add: word_le_nat_alt word_less_nat_alt)
  then have "unat (x - 0x2000) < 256" by (simp add: unat_sub word_le_nat_alt)
  then show "x \<in> dom (mem sample_caller)" by (auto simp: sample_caller_def sample_mem_def)
qed

lemma sample_objects:
  "object_is {0x201C..<0x2024} sample_caller 2 0x2010 (sample_ob2 STOPPED)"
  "object_is {0x201C..<0x2024} sample_caller 1 0x2000 sample_ob1"
  "object_is {} sample_caller 2 0x2010 (sample_ob2 STOPPED)"
  "object_is {} sample_caller 1 0x2000 sample_ob1"
  using span_frame(1) [of "0x1008" 4 "0x201C" "0x2024"] span_frame(1) [of "0x1004" 4 "0x201C" "0x2024"]
  by (simp_all add: object_is_def sample_caller_sel) (simp_all add: sample_call_defs obj_ptr_def load32_def)

lemma sample_code_args:
  "code_at sample_caller 0x131 (preamble sample_pars)" "code_at sample_caller 0x12A (arguments sample_pars)"
  "length (arguments sample_pars) = 3"
  by (simp_all add: preamble_def arguments_def sample_pars_def par_code_defs LC0_def GV0_def primpar_defs sample_call_defs)

lemma sample_in_ok: "\<forall>p \<in> set sample_pars. in_ok {0x201C..<0x2024} sample_caller p"
  using span_frame(1) [of "0x1010" 2 "0x201C" "0x2024"]
  by (simp add: sample_pars_def in_ok_def refers_def sample_caller_sel operand_value_def)
    (simp add: sample_call_defs load16_def)

lemma sample_call_header: "call_header sample_caller (Const W0 2) (Const W0 3) 2"
  by (simp add: call_header_def operand_value_def LC0_def primpar_defs load16_def sample_call_defs byte_of_def)

lemma sample_sub: "sub_at sample_caller 2 0x130 3" "TriggerCount sample_caller 0xF4 2 = Some 0"
  "OffsetToInstructions sample_caller 0xF4 2 = Some 48"
  by (simp_all add: sub_at_def) (simp_all add: sample_call_defs sample_prg_def OffsetToInstructions_def TriggerCount_def sizeof_OBJHEAD_def
      load32_def load16_def)

theorem object_call_witness:
  "\<exists>t. ObjectCall sample_caller = Some t \<and> ObjectId t = 2 \<and> ObjectIp t = 0x134 \<and> local_value P8 t 0x201C = Some 5"
proof -
  let ?t = "past_header (Const W0 2) (Const W0 3) sample_caller"
  have ip: "ObjectIp ?t = 0x12A" "mem ?t = mem sample_caller"
    by (simp_all add: past_header_def sample_caller_sel LC0_def)
  have site: "call_site {0x201C..<0x2024} (0x130 + 1) sample_pars ?t"
    using sample_code_args code_at_cong [of ?t sample_caller] span_frame(1) [of "0x131" 3 "0x201C" "0x2024"]
      span_frame(1) [of "0x12A" 3 "0x201C" "0x2024"]
    by (simp add: call_site_def ip sample_frame)
  have me: "object_is {0x201C..<0x2024} sample_caller (ObjectId sample_caller) 0x2000 sample_ob1"
    using sample_objects(2) by (simp add: sample_caller_sel)
  have sub: "sub_at sample_caller 2 0x130 (length sample_pars)" "TriggerCount sample_caller (pObjHead sample_caller) 2 \<noteq> None"
    using sample_sub by (simp_all add: sample_frame sample_caller_sel)
  have ob: "ObjStatus (sample_ob2 STOPPED) = STOPPED" "pLocal (sample_ob2 STOPPED) = 0x201C"
    by (simp_all add: sample_ob2_def)
  obtain t where "ObjectCall sample_caller = Some t" "ObjectId t = 2" "ObjectIp t = 0x130 + 1 + of_nat (length sample_pars)"
      "passed sample_caller t (places 0x201C sample_pars)"
    using object_call [OF sample_call_header sample_objects(1) ob(1) me _ sub _ _ sample_mapped site sample_in_ok]
    unfolding ob(2) by (auto simp: sample_frame)
  then show ?thesis
    by (auto simp: passed_def sample_pars_def operand_value_def byte_of_def pnext_def)
qed

lemma span_3: "span a 3 = {a, a + 1, a + 2}"
  by (simp add: numeral_3_eq_3 span_shift add.assoc)

definition sample_resumed :: vm where
  "sample_resumed = sample_callee\<lparr>ObjectLocal := 0x200C, ObjectIp := 0x12A\<rparr>"

lemma sample_resumed_sel:
  "mem sample_resumed = mem sample_caller" "pGlobal sample_resumed = 0x1000" "ObjectIp sample_resumed = 0x12A"
  by (simp_all add: sample_resumed_def sample_caller_sel)

lemma sample_out_cells: "out_cells sample_resumed sample_pars = span 0x1014 4"
proof -
  have one: "out_cells s (p # ps) = (if p_dir p = In then {} else cell_of s p) \<union> out_cells s ps" for s p ps
    by (auto simp: out_cells_def)
  show ?thesis unfolding sample_pars_def one by (simp add: out_cells_def refers_def sample_resumed_sel)
qed

lemma sample_disjoint: "span 0x131 3 \<inter> span 0x1014 4 = {}" "span 0x12A 3 \<inter> span 0x1014 4 = {}"
  "{0x201C..<0x2024} \<inter> span 0x1014 4 = {}"
  using span_frame(1) [of "0x1014" 4 "0x201C" "0x2024"] by (simp_all add: span_3 span_4) 

lemma sample_return_site: "call_site (span 0x1014 4) (0x130 + 1) sample_pars sample_resumed"
  using sample_code_args code_at_cong [OF sample_resumed_sel(1)] sample_disjoint
  by (simp add: call_site_def sample_frame sample_resumed_sel)

lemma sample_return_objects:
  "object_is (span 0x1014 4) sample_callee 2 0x2010 (sample_ob2 RUNNING)"
  "object_is (span 0x1014 4) sample_callee 1 0x2000 (sample_ob1\<lparr>ObjStatus := HALTED\<rparr>)"
  by (simp_all add: object_is_def sample_caller_sel span_4) (simp_all add: sample_call_defs obj_ptr_def load32_def)

lemma sample_return_sub: "sub_at sample_callee 2 0x130 3"
  using sample_sub(1) object_table_cong(2) [of sample_callee sample_caller]
  by (simp add: sub_at_def sample_caller_sel) (simp add: sample_callee_def sample_caller_sel)

lemma sample_out_ok: "\<forall>p \<in> set sample_pars. out_ok sample_resumed p"
  by (simp add: sample_pars_def out_ok_def refers_def sample_resumed_sel span_4)
    (auto simp: sample_caller_def sample_mem_def)

theorem object_return_witness:
  "\<exists>t. ObjectReturn sample_callee = Some t \<and> ObjectId t = 1 \<and> ObjectIp t = 0x12D \<and>
     value_of P32 t (Var Global W0 20) = Some 0"
proof -
  let ?me = "sample_ob1\<lparr>ObjStatus := HALTED\<rparr>" and ?ob = "sample_ob2 RUNNING"
  have loc: "pLocal ?ob = 0x201C" "u ?ob = 1" "pLocal ?me = 0x200C" "Ip ?me = 0x12A"
    by (simp_all add: sample_ob2_def sample_ob1_def)
  have o: "object_is (span 0x1014 4) sample_callee (ObjectId sample_callee) 0x2010 ?ob"
      "object_is (span 0x1014 4) sample_callee (u ?ob) 0x2000 ?me"
    using sample_return_objects by (simp_all only: loc sample_caller_sel)
  have sub: "sub_at sample_callee (ObjectId sample_callee) 0x130 (length sample_pars)"
    using sample_return_sub by (simp only: sample_frame sample_caller_sel)
  have fr: "room (pLocal ?ob) sample_pars" "frame (pLocal ?ob) sample_pars \<subseteq> dom (mem sample_callee)"
      "frame (pLocal ?ob) sample_pars \<inter> span 0x1014 4 = {}"
    using sample_frame sample_mapped sample_disjoint(3) by (simp_all only: loc sample_caller_sel)
  note s0 = sample_resumed_def [unfolded loc(3,4) [symmetric], symmetric]
  have ne: "(0x2010 :: ULONG) \<noteq> 0x2000" by simp
  note ret = object_return [OF o ne sub, unfolded s0, OF sample_out_cells [symmetric] sample_return_site fr sample_out_ok]
  obtain t where t: "ObjectReturn sample_callee = Some t" "ObjectId t = u ?ob"
      "ObjectIp t = Ip ?me + of_nat (length (arguments sample_pars))" "returned sample_resumed t (places (pLocal ?ob) sample_pars)"
    using ret by blast
  have "mem sample_caller a = Some 0" if "a \<in> span 0x2020 4" for a
    using that by (auto simp: span_4 sample_caller_def sample_mem_def sample_image_def)
  then have "local_value P32 sample_resumed 0x2020 = Some 0"
    by (simp add: load32_def sample_resumed_sel span_4)
  moreover have "value_of P32 t (Var Global W0 20) = local_value P32 sample_resumed 0x2020"
    using t(4) unfolding loc(1)
    by (simp add: sample_pars_def pnext_def align2_def align4_def out_cells_def del: value_of.simps local_value.simps)
  ultimately show ?thesis using t(1-3) unfolding loc by (simp add: sample_code_args)
qed

theorem object_busy_witness:
  "\<exists>t. ObjectCall (sample_caller\<lparr>ObjHeap := [0x2010 \<mapsto> sample_ob2 RUNNING]\<rparr>) = Some t \<and>
     ObjectIp t = 0x127 \<and> DispatchStatus t = BUSYBREAK"
proof -
  let ?s = "sample_caller\<lparr>ObjHeap := [0x2010 \<mapsto> sample_ob2 RUNNING]\<rparr>"
  have o: "object_is {} ?s 2 0x2010 (sample_ob2 RUNNING)"
    using sample_objects(3) by (simp add: object_is_def)
  have c: "code_at ?s (ObjectIp ?s) (enc (Const W0 2))" "operand_value load16 ?s (Const W0 2) = Some 2"
    by (simp_all add: operand_value_def LC0_def primpar_defs load16_def sample_call_defs byte_of_def)
  show ?thesis
    using object_busy [OF c(1) _ c(2) o] by (auto simp: sample_ob2_def sample_caller_sel)
qed


end
