(* ===== verification/VM_Arrays.thy ===== *)
theory VM_Arrays
  imports VM_Calls
begin

text \<open>
  The array byte codes of \<open>c_memory.c\<close>: \<open>cMemoryArray\<close> with its sub codes, and
  \<open>cMemoryArrayWrite\<close>, \<open>cMemoryArrayRead\<close> and \<open>cMemoryArrayAppend\<close>. An array is a memory
  pool whose block begins with a descriptor, \<open>DESCR\<close>, of 12 bytes: the number of elements,
  the size of an element and its type. A pointer that \<open>realloc\<close> has made stale stays in use
  in the model as in the code; an access through it finds unmapped memory.
\<close>

subsection \<open>Descriptors and elements\<close>

definition Elements_of :: "ULONG \<Rightarrow> vm \<Rightarrow> DATA32 option" where
  "Elements_of p s = load32 s (PtrMem (p + DESCR_Elements))"

definition ElementSize_of :: "ULONG \<Rightarrow> vm \<Rightarrow> DATA8 option" where
  "ElementSize_of p s = load8 s (PtrMem (p + DESCR_ElementSize))"

definition Type_of :: "ULONG \<Rightarrow> vm \<Rightarrow> DATA8 option" where
  "Type_of p s = load8 s (PtrMem (p + DESCR_Type))"

text \<open>\<open>pData[Index] = *pValue\<close> and the reverse, for the type of the array; another type does
  nothing and answers \<open>False\<close>.\<close>

definition put_element :: "UBYTE \<Rightarrow> ULONG \<Rightarrow> DATA32 \<Rightarrow> ptr \<Rightarrow> vm \<Rightarrow> (bool \<times> vm) option" where
  "put_element ty pArray Index pValue s =
     (if ty = DATA_8 then map_option (Pair True) (copy_cell load8 store8 pValue (PtrMem (pArray + Index)) s)
      else if ty = DATA_16 then map_option (Pair True) (copy_cell load16 store16 pValue (PtrMem (pArray + 2 * Index)) s)
      else if ty = DATA_32 \<or> ty = DATA_F
      then map_option (Pair True) (copy_cell load32 store32 pValue (PtrMem (pArray + 4 * Index)) s)
      else Some (False, s))"

definition get_element :: "UBYTE \<Rightarrow> ULONG \<Rightarrow> DATA32 \<Rightarrow> vm \<Rightarrow> (bool \<times> vm) option" where
  "get_element ty pArray Index s =
     (if ty = DATA_8 then do { x \<leftarrow> load8 s (PtrMem (pArray + Index)); s \<leftarrow> put8 x s; Some (True, s) }
      else if ty = DATA_16 then do { x \<leftarrow> load16 s (PtrMem (pArray + 2 * Index)); s \<leftarrow> put16 x s; Some (True, s) }
      else if ty = DATA_32 \<or> ty = DATA_F
      then do { x \<leftarrow> load32 s (PtrMem (pArray + 4 * Index)); s \<leftarrow> put32 x s; Some (True, s) }
      else Some (False, s))"

text \<open>\<open>memset\<close> to zero, \<open>memcpy\<close>, and the loops over the elements.\<close>

fun zero_bytes :: "nat \<Rightarrow> ptr \<Rightarrow> vm \<Rightarrow> vm option" where
  "zero_bytes 0 p s = Some s"
| "zero_bytes (Suc n) p s = do { s \<leftarrow> store8 s p 0; zero_bytes n (ptr_add p 1) s }"

fun copy_bytes :: "nat \<Rightarrow> ptr \<Rightarrow> ptr \<Rightarrow> vm \<Rightarrow> vm option" where
  "copy_bytes 0 src dst s = Some s"
| "copy_bytes (Suc n) src dst s = do {
     s \<leftarrow> copy_cell load8 store8 src dst s;
     copy_bytes n (ptr_add src 1) (ptr_add dst 1) s
   }"

fun fill_elements :: "(vm \<Rightarrow> ptr \<Rightarrow> 'a \<Rightarrow> vm option) \<Rightarrow> ULONG \<Rightarrow> 'a \<Rightarrow> nat \<Rightarrow> ULONG \<Rightarrow> vm \<Rightarrow> vm option" where
  "fill_elements st sz Data 0 a s = Some s"
| "fill_elements st sz Data (Suc n) a s = do {
     s \<leftarrow> st s (PtrMem a) Data;
     fill_elements st sz Data n (a + sz) s
   }"

fun init_elements :: "(vm \<Rightarrow> ptr \<Rightarrow> 'a option) \<Rightarrow> (vm \<Rightarrow> ptr \<Rightarrow> 'a \<Rightarrow> vm option) \<Rightarrow> ULONG \<Rightarrow> nat \<Rightarrow>
    ULONG \<Rightarrow> vm \<Rightarrow> vm option" where
  "init_elements ld st sz 0 a s = Some s"
| "init_elements ld st sz (Suc n) a s = do {
     (x, s) \<leftarrow> par_get ld s;
     s \<leftarrow> st s (PtrMem a) x;
     init_elements ld st sz n (a + sz) s
   }"

subsection \<open>The sub codes of ARRAY\<close>

definition array_create :: "UBYTE \<Rightarrow> ULONG \<Rightarrow> PRGID \<Rightarrow> vm \<Rightarrow> (DSPSTAT \<times> vm) option" where
  "array_create ty ElementSize TmpPrgId s = do {
     (Elements, s) \<leftarrow> get32 s;
     let Elements = (if ty = DATA_8 \<and> sint Elements < MIN_ARRAY_ELEMENTS
                     then word_of_int MIN_ARRAY_ELEMENTS else Elements);
     let ISize = Elements * ElementSize + sizeof_DESCR;
     (r, TmpHandle, s) \<leftarrow> cMemoryAlloc TmpPrgId POOL_TYPE_MEMORY ISize s;
     (DspStat, s) \<leftarrow> (case r of
        Some pTmp \<Rightarrow> do {
          s \<leftarrow> store8 s (PtrMem (pTmp + DESCR_Type)) ty;
          s \<leftarrow> store8 s (PtrMem (pTmp + DESCR_ElementSize)) (ucast ElementSize);
          s \<leftarrow> store32 s (PtrMem (pTmp + DESCR_Elements)) Elements;
          Some (NOBREAK, s)
        }
      | None \<Rightarrow> Some (FAILBREAK, s));
     s \<leftarrow> put16 TmpHandle s;
     Some (DspStat, s)
   }"

definition array_size :: "vm \<Rightarrow> (DSPSTAT \<times> vm) option" where
  "array_size s = do {
     (TmpHandle, s) \<leftarrow> get16 s;
     Elements \<leftarrow> (case cMemoryGetPointer (CurrentProgramId s) TmpHandle s of
        Some pTmp \<Rightarrow> Elements_of pTmp s | None \<Rightarrow> Some 0);
     s \<leftarrow> put32 Elements s;
     Some (NOBREAK, s)
   }"

definition array_resize :: "PRGID \<Rightarrow> vm \<Rightarrow> (DSPSTAT \<times> vm) option" where
  "array_resize TmpPrgId s = do {
     (TmpHandle, s) \<leftarrow> get16 s;
     (Elements, s) \<leftarrow> get32 s;
     (p, s) \<leftarrow> cMemoryResize TmpPrgId TmpHandle Elements s;
     Some (if p \<noteq> 0 then NOBREAK else FAILBREAK, s)
   }"

definition array_destroy :: "PRGID \<Rightarrow> vm \<Rightarrow> (DSPSTAT \<times> vm) option" where
  "array_destroy TmpPrgId s = do {
     (TmpHandle, s) \<leftarrow> get16 s;
     (_, s) \<leftarrow> cMemoryFreeHandle TmpPrgId TmpHandle s;
     Some (NOBREAK, s)
   }"

text \<open>For a handle without an array or an unknown type, \<open>FILL\<close> leaves \<open>DspStat\<close> at its
  initial value \<open>BUSYBREAK\<close>.\<close>

definition fill_with :: "(vm \<Rightarrow> ptr \<Rightarrow> 'a option) \<Rightarrow> (vm \<Rightarrow> ptr \<Rightarrow> 'a \<Rightarrow> vm option) \<Rightarrow> ULONG \<Rightarrow>
    DATA32 \<Rightarrow> ULONG \<Rightarrow> vm \<Rightarrow> (DSPSTAT \<times> vm) option" where
  "fill_with ld st sz Elements pArray s = do {
     (Data, s) \<leftarrow> par_get ld s;
     s \<leftarrow> fill_elements st sz Data (nat (sint Elements)) pArray s;
     Some (NOBREAK, s)
   }"

definition array_fill :: "vm \<Rightarrow> (DSPSTAT \<times> vm) option" where
  "array_fill s = do {
     let TmpPrgId = CurrentProgramId s;
     (TmpHandle, s) \<leftarrow> get16 s;
     case cMemoryGetPointer TmpPrgId TmpHandle s of
       Some pTmp \<Rightarrow> do {
         let pArray = pTmp + DESCR_pArray;
         Elements \<leftarrow> Elements_of pTmp s;
         ty \<leftarrow> Type_of pTmp s;
         if ty = DATA_8 then fill_with load8 store8 1 Elements pArray s
         else if ty = DATA_16 then fill_with load16 store16 2 Elements pArray s
         else if ty = DATA_32 \<or> ty = DATA_F then fill_with load32 store32 4 Elements pArray s
         else Some (BUSYBREAK, s)
       }
     | None \<Rightarrow> Some (BUSYBREAK, s)
   }"

definition array_copy :: "PRGID \<Rightarrow> vm \<Rightarrow> (DSPSTAT \<times> vm) option" where
  "array_copy TmpPrgId s = do {
     (hSource, s) \<leftarrow> get16 s;
     (hDest, s) \<leftarrow> get16 s;
     case cMemoryGetPointer TmpPrgId hSource s of
       None \<Rightarrow> Some (FAILBREAK, s)
     | Some pSource \<Rightarrow> (case cMemoryGetPointer TmpPrgId hDest s of
         None \<Rightarrow> Some (FAILBREAK, s)
       | Some pDest \<Rightarrow> do {
           st \<leftarrow> Type_of pSource s;
           dt \<leftarrow> Type_of pDest s;
           if st = dt then do {
             Elements \<leftarrow> Elements_of pSource s;
             (p, s) \<leftarrow> cMemoryResize TmpPrgId hDest Elements s;
             if p = 0 then Some (FAILBREAK, s)
             else (case cMemoryGetPointer TmpPrgId hDest s of
               None \<Rightarrow> Some (FAILBREAK, s)
             | Some pDest \<Rightarrow> do {
                 es \<leftarrow> ElementSize_of pSource s;
                 s \<leftarrow> copy_bytes (unat (Elements * scast es)) (PtrMem (pSource + DESCR_pArray))
                        (PtrMem (pDest + DESCR_pArray)) s;
                 Some (NOBREAK, s)
               })
           }
           else Some (FAILBREAK, s)
         })
   }"

definition array_init :: "(vm \<Rightarrow> ptr \<Rightarrow> 'a option) \<Rightarrow> (vm \<Rightarrow> ptr \<Rightarrow> 'a \<Rightarrow> vm option) \<Rightarrow> ULONG \<Rightarrow>
    PRGID \<Rightarrow> vm \<Rightarrow> (DSPSTAT \<times> vm) option" where
  "array_init ld st sz TmpPrgId s = do {
     (TmpHandle, s) \<leftarrow> get16 s;
     (Index, s) \<leftarrow> get32 s;
     (Elements, s) \<leftarrow> get32 s;
     case cMemoryGetPointer TmpPrgId TmpHandle s of
       None \<Rightarrow> Some (FAILBREAK, s)
     | Some pTmp \<Rightarrow> do {
         n \<leftarrow> Elements_of pTmp s;
         if 0 \<le> sint Index \<and> sint (Index + Elements) \<le> sint n then do {
           s \<leftarrow> init_elements ld st sz (unat Elements) (pTmp + DESCR_pArray + sz * Index) s;
           Some (NOBREAK, s)
         }
         else Some (FAILBREAK, s)
       }
   }"

definition content_prg :: "PRGID \<Rightarrow> PRGID \<Rightarrow> vm \<Rightarrow> PRGID" where
  "content_prg PrgId TmpPrgId s = (if PrgId = CURRENT_SLOT (Consts s) then TmpPrgId else PrgId)"

text \<open>The two loops of \<open>READ_CONTENT\<close>, from the array's content at \<open>pData8\<close> to \<open>dst\<close>; the
  first returns how many of the bytes are left.\<close>

fun read_content :: "nat \<Rightarrow> ULONG \<Rightarrow> DATA32 \<Rightarrow> DATA32 \<Rightarrow> ptr \<Rightarrow> vm \<Rightarrow> (nat \<times> ptr \<times> vm) option" where
  "read_content 0 pData8 Index ISize dst s = Some (0, dst, s)"
| "read_content (Suc n) pData8 Index ISize dst s =
     (if sint Index < sint ISize then do {
        s \<leftarrow> copy_cell load8 store8 (PtrMem (pData8 + Index)) dst s;
        read_content n pData8 (Index + 1) ISize (ptr_add dst 1) s
      }
      else Some (Suc n, dst, s))"

definition array_read_content :: "PRGID \<Rightarrow> vm \<Rightarrow> (DSPSTAT \<times> vm) option" where
  "array_read_content TmpPrgId s = do {
     (PrgId, s) \<leftarrow> get16 s;
     (TmpHandle, s) \<leftarrow> get16 s;
     (Index, s) \<leftarrow> get32 s;
     (Bytes, s) \<leftarrow> get32 s;
     (pDData8, s) \<leftarrow> PrimParPointer s;
     case cMemoryGetPointer (content_prg PrgId TmpPrgId s) TmpHandle s of
       None \<Rightarrow> Some (FAILBREAK, s)
     | Some pTmp \<Rightarrow> do {
         (pDData8, s) \<leftarrow>
           (if 0 \<le> sint (Handle s) then do { (p, s) \<leftarrow> VmMemoryResize (Handle s) Bytes s; Some (PtrMem p, s) }
            else Some (pDData8, s));
         n \<leftarrow> Elements_of pTmp s;
         es \<leftarrow> ElementSize_of pTmp s;
         let ISize = n * scast es;
         if 0 \<le> sint Index \<and> pDData8 \<noteq> NULL then do {
           (rest, dst, s) \<leftarrow> read_content (nat (sint Bytes)) (pTmp + DESCR_pArray) Index ISize pDData8 s;
           s \<leftarrow> zero_bytes rest dst s;
           Some (NOBREAK, s)
         }
         else Some (FAILBREAK, s)
       }
   }"

fun write_content :: "nat \<Rightarrow> ULONG \<Rightarrow> DATA32 \<Rightarrow> DATA32 \<Rightarrow> ptr \<Rightarrow> vm \<Rightarrow> vm option" where
  "write_content 0 pData8 Index ISize src s = Some s"
| "write_content (Suc n) pData8 Index ISize src s =
     (if sint Index < sint ISize then do {
        s \<leftarrow> copy_cell load8 store8 src (PtrMem (pData8 + Index)) s;
        write_content n pData8 (Index + 1) ISize (ptr_add src 1) s
      }
      else Some s)"

text \<open>The number of elements that hold \<open>Index + Bytes\<close> bytes, with C's signed division.\<close>

definition elements_for :: "DATA32 \<Rightarrow> DATA32 \<Rightarrow> DATA32 option" where
  "elements_for bytes es =
     (let n = bytes + (es - 1) in
      if es = 0 \<or> n = 0x80000000 \<and> es = - 1 then None else Some (word_of_int (cdiv (sint n) (sint es))))"

definition array_write_content :: "PRGID \<Rightarrow> vm \<Rightarrow> (DSPSTAT \<times> vm) option" where
  "array_write_content TmpPrgId s = do {
     (PrgId, s) \<leftarrow> get16 s;
     (TmpHandle, s) \<leftarrow> get16 s;
     (Index, s) \<leftarrow> get32 s;
     (Bytes, s) \<leftarrow> get32 s;
     (pDData8, s) \<leftarrow> PrimParPointer s;
     let PrgId = content_prg PrgId TmpPrgId s;
     case cMemoryGetPointer PrgId TmpHandle s of
       None \<Rightarrow> Some (FAILBREAK, s)
     | Some pTmp \<Rightarrow> do {
         es \<leftarrow> ElementSize_of pTmp s;
         let ElementSize = (scast es :: DATA32);
         if ElementSize \<noteq> 0 then do {
           Elements \<leftarrow> elements_for (Index + Bytes) ElementSize;
           let ISize = Elements * ElementSize;
           (pTmp, s) \<leftarrow> cMemoryResize PrgId TmpHandle Elements s;
           if pTmp \<noteq> 0 \<and> 0 \<le> sint Index \<and> pDData8 \<noteq> NULL then do {
             s \<leftarrow> write_content (nat (sint Bytes)) pTmp Index ISize pDData8 s;
             Some (NOBREAK, s)
           }
           else Some (FAILBREAK, s)
         }
         else Some (FAILBREAK, s)
       }
   }"

definition array_read_size :: "PRGID \<Rightarrow> vm \<Rightarrow> (DSPSTAT \<times> vm) option" where
  "array_read_size TmpPrgId s = do {
     (PrgId, s) \<leftarrow> get16 s;
     (TmpHandle, s) \<leftarrow> get16 s;
     Bytes \<leftarrow> (case cMemoryGetPointer (content_prg PrgId TmpPrgId s) TmpHandle s of
        None \<Rightarrow> Some 0
      | Some pTmp \<Rightarrow> do { n \<leftarrow> Elements_of pTmp s; es \<leftarrow> ElementSize_of pTmp s; Some (n * scast es) });
     s \<leftarrow> put32 Bytes s;
     Some (NOBREAK, s)
   }"

fun array_command :: "ARRAY_SUBCODE \<Rightarrow> PRGID \<Rightarrow> vm \<Rightarrow> (DSPSTAT \<times> vm) option" where
  "array_command scCREATE8 p s = array_create DATA_8 1 p s"
| "array_command scCREATE16 p s = array_create DATA_16 2 p s"
| "array_command scCREATE32 p s = array_create DATA_32 4 p s"
| "array_command scCREATEF p s = array_create DATA_F 4 p s"
| "array_command scSET_SIZE p s = array_size s"
| "array_command scRESIZE p s = array_resize p s"
| "array_command scDESTROY p s = array_destroy p s"
| "array_command scFILL p s = array_fill s"
| "array_command scCOPY p s = array_copy p s"
| "array_command scINIT8 p s = array_init load8 store8 1 p s"
| "array_command scINIT16 p s = array_init load16 store16 2 p s"
| "array_command scINIT32 p s = array_init load32 store32 4 p s"
| "array_command scINITF p s = array_init load32 store32 4 p s"
| "array_command scREAD_CONTENT p s = array_read_content p s"
| "array_command scWRITE_CONTENT p s = array_write_content p s"
| "array_command scREAD_SIZE p s = array_read_size p s"

definition cMemoryArray :: "vm \<Rightarrow> vm option" where
  "cMemoryArray s = do {
     let TmpPrgId = CurrentProgramId s;
     let TmpIp = GetObjectIp s;
     (Cmd, s) \<leftarrow> get8 s;
     (DspStat, s) \<leftarrow> (case ARRAY_subcode (Consts s) Cmd of
        Some c \<Rightarrow> array_command c TmpPrgId s | None \<Rightarrow> Some (BUSYBREAK, s));
     let s = (if DspStat = BUSYBREAK then SetObjectIp (TmpIp - 1) s else s);
     Some (SetDispatchStatus DspStat s)
   }"

subsection \<open>Writing, reading and appending elements\<close>

text \<open>The end of a write: the elements from \<open>Offset\<close> on are cleared if the array has grown by
  \<open>Length > 0\<close> bytes, then the value is stored.\<close>

definition write_element :: "PRGID \<Rightarrow> HANDLER \<Rightarrow> DATA32 \<Rightarrow> ptr \<Rightarrow> DATA32 \<Rightarrow> DATA32 \<Rightarrow> vm \<Rightarrow> (DSPSTAT \<times> vm) option" where
  "write_element TmpPrgId TmpHandle Index pValue Offset Length s =
     (case cMemoryGetPointer TmpPrgId TmpHandle s of
        None \<Rightarrow> Some (NOBREAK, s)
      | Some pTmp \<Rightarrow> do {
          let pArray = pTmp + DESCR_pArray;
          s \<leftarrow> (if 0 < sint Length then zero_bytes (unat Length) (PtrMem (pArray + Offset)) s else Some s);
          ty \<leftarrow> Type_of pTmp s;
          (_, s) \<leftarrow> put_element ty pArray Index pValue s;
          Some (NOBREAK, s)
        })"

definition store_element :: "PRGID \<Rightarrow> HANDLER \<Rightarrow> DATA32 \<Rightarrow> ptr \<Rightarrow> vm \<Rightarrow> (DSPSTAT \<times> vm) option" where
  "store_element TmpPrgId TmpHandle Index pValue s =
     (case cMemoryGetPointer TmpPrgId TmpHandle s of
        None \<Rightarrow> Some (FAILBREAK, s)
      | Some pDescr \<Rightarrow>
          (if 0 \<le> sint Index then do {
             let Elements = Index + 1;
             n \<leftarrow> Elements_of pDescr s;
             if sint Elements > sint n then do {
               es \<leftarrow> ElementSize_of pDescr s;
               let Offset = scast es * n;
               let Length = scast es * Index - Offset;
               (p, s) \<leftarrow> cMemoryResize TmpPrgId TmpHandle Elements s;
               if p = 0 then Some (FAILBREAK, s)
               else write_element TmpPrgId TmpHandle Index pValue Offset Length s
             }
             else write_element TmpPrgId TmpHandle Index pValue 0 0 s
           }
           else Some (FAILBREAK, s)))"

definition cMemoryArrayWrite :: "vm \<Rightarrow> vm option" where
  "cMemoryArrayWrite s = do {
     let TmpPrgId = CurrentProgramId s;
     (TmpHandle, s) \<leftarrow> get16 s;
     (Index, s) \<leftarrow> get32 s;
     (pValue, s) \<leftarrow> PrimParPointer s;
     (DspStat, s) \<leftarrow> store_element TmpPrgId TmpHandle Index pValue s;
     Some (if DspStat \<noteq> NOBREAK then SetDispatchStatus DspStat s else s)
   }"

definition cMemoryArrayRead :: "vm \<Rightarrow> vm option" where
  "cMemoryArrayRead s = do {
     let TmpPrgId = CurrentProgramId s;
     (TmpHandle, s) \<leftarrow> get16 s;
     (Index, s) \<leftarrow> get32 s;
     (ok, s) \<leftarrow> (case cMemoryGetPointer TmpPrgId TmpHandle s of
        None \<Rightarrow> Some (False, s)
      | Some pTmp \<Rightarrow> do {
          inside \<leftarrow> (if 0 \<le> sint Index then map_option (\<lambda>n. sint Index < sint n) (Elements_of pTmp s) else Some False);
          if inside then do {
            ty \<leftarrow> Type_of pTmp s;
            get_element ty (pTmp + DESCR_pArray) Index s
          }
          else Some (False, s)
        });
     if ok then Some s
     else do {
       s \<leftarrow> PrimParAdvance s;
       Some (SetDispatchStatus FAILBREAK s)
     }
   }"

definition append_element :: "PRGID \<Rightarrow> HANDLER \<Rightarrow> ptr \<Rightarrow> vm \<Rightarrow> (DSPSTAT \<times> vm) option" where
  "append_element TmpPrgId TmpHandle pValue s =
     (case cMemoryGetPointer TmpPrgId TmpHandle s of
        None \<Rightarrow> Some (FAILBREAK, s)
      | Some pDescr \<Rightarrow> do {
          Index \<leftarrow> Elements_of pDescr s;
          let Elements = Index + 1;
          if sint Elements > sint Index then do {
            (p, s) \<leftarrow> cMemoryResize TmpPrgId TmpHandle Elements s;
            if p = 0 then Some (FAILBREAK, s)
            else write_element TmpPrgId TmpHandle Index pValue 0 0 s
          }
          else write_element TmpPrgId TmpHandle Index pValue 0 0 s
        })"

definition cMemoryArrayAppend :: "vm \<Rightarrow> vm option" where
  "cMemoryArrayAppend s = do {
     let TmpPrgId = CurrentProgramId s;
     (TmpHandle, s) \<leftarrow> get16 s;
     (pValue, s) \<leftarrow> PrimParPointer s;
     (DspStat, s) \<leftarrow> append_element TmpPrgId TmpHandle pValue s;
     Some (if DspStat \<noteq> NOBREAK then SetDispatchStatus DspStat s else s)
   }"

subsection \<open>Arrays as lists\<close>

text \<open>The abstraction: the handle \<open>h\<close> of program \<open>p\<close> holds an array of the type \<open>ty\<close> with the
  elements \<open>xs\<close>.\<close>

fun ty_code :: "ptype \<Rightarrow> UBYTE" where
  "ty_code P8 = DATA_8" | "ty_code P16 = DATA_16" | "ty_code P32 = DATA_32" | "ty_code PF = DATA_F"

definition elem_off :: "ptype \<Rightarrow> nat \<Rightarrow> nat" where
  "elem_off ty i = 12 + psize ty * i"

definition array_is :: "vm \<Rightarrow> PRGID \<Rightarrow> HANDLER \<Rightarrow> ptype \<Rightarrow> ULONG list \<Rightarrow> bool" where
  "array_is s p h ty xs \<longleftrightarrow>
     p < MAX_PROGRAMS s \<and> handle_ok h \<and> pool s p h \<noteq> 0 \<and>
     elem_off ty (length xs) \<le> unat (Size (pPoolList s p h)) \<and> elem_off ty (length xs) \<le> MAX_ARRAY_SIZE \<and>
     Elements_of (pool s p h) s = Some (of_nat (length xs)) \<and>
     ElementSize_of (pool s p h) s = Some (of_nat (psize ty)) \<and> Type_of (pool s p h) s = Some (ty_code ty) \<and>
     (\<forall>i < length xs. local_value ty s (pool s p h + of_nat (elem_off ty i)) = Some (xs ! i))"

lemma psize_bounds: "0 < psize ty" "psize ty \<le> 4"
  by (cases ty; simp)+

lemma elem_off_mono: "i < j \<Longrightarrow> elem_off ty i + psize ty \<le> elem_off ty j"
proof -
  assume "i < j"
  then have "psize ty * Suc i \<le> psize ty * j" by (intro mult_le_mono2) simp
  then show ?thesis by (simp add: elem_off_def)
qed

text \<open>Parts of a block at different offsets do not overlap.\<close>

lemma span_offsets:
  assumes "x + m \<le> 2 ^ 32" and "y + n \<le> 2 ^ 32" and "x + m \<le> y \<or> y + n \<le> x"
  shows "span (a + of_nat x) m \<inter> span (a + of_nat y) n = {}"
proof (rule ccontr)
  assume "span (a + of_nat x) m \<inter> span (a + of_nat y) n \<noteq> {}"
  then obtain z where "z \<in> span (a + of_nat x) m" "z \<in> span (a + of_nat y) n" by blast
  then obtain i j where ij: "i < m" "j < n" "a + of_nat x + of_nat i = a + of_nat y + of_nat j"
    unfolding span_def by blast
  then have e: "(of_nat (x + i) :: ULONG) = of_nat (y + j)" by (simp add: add.assoc)
  have u: "unat (of_nat k :: ULONG) = k" if "k < 2 ^ 32" for k
    using that by (simp add: unat_of_nat)
  have "x + i = unat (of_nat (x + i) :: ULONG)" using u [of "x + i"] assms(1) ij(1) by simp
  also have "\<dots> = unat (of_nat (y + j) :: ULONG)" by (rule arg_cong [OF e])
  also have "\<dots> = y + j" using u [of "y + j"] assms(2) ij(2) by simp
  finally have "x + i = y + j" .
  with ij(1,2) assms(3) show False by linarith
qed

lemma span_offset_subset: "x + m \<le> n \<Longrightarrow> span (a + of_nat x) m \<subseteq> span a n"
  using span_append [of a x m] span_append [of a "x + m" "n - (x + m)"] by auto

lemma array_block:
  assumes "pool_ok s" and "array_is s p h ty xs"
  shows "span (pool s p h) (elem_off ty (length xs)) \<subseteq> dom (mem s)"
proof -
  have "Blocks s (pool s p h) = Some (unat (Size (pPoolList s p h)))"
    using pool_okD(3) [OF assms(1)] assms(2) by (simp add: array_is_def)
  then have "span (pool s p h) (unat (Size (pPoolList s p h))) \<subseteq> dom (mem s)"
    by (rule heap_okD(4) [OF pool_ok_heap [OF assms(1)]])
  moreover have "span (pool s p h) (elem_off ty (length xs)) \<subseteq> span (pool s p h) (unat (Size (pPoolList s p h)))"
    using span_offset_subset [of 0 "elem_off ty (length xs)" _ "pool s p h"] assms(2) by (simp add: array_is_def)
  ultimately show ?thesis by blast
qed

text \<open>What the descriptor and the elements say depends only on the bytes of the array.\<close>

lemma array_bytes:
  assumes ar: "array_is s p h ty xs" and pools: "pPoolList t = pPoolList s" "Consts t = Consts s"
    and same: "\<And>x. x \<in> span (pool s p h) (elem_off ty (length xs)) \<Longrightarrow> mem t x = mem s x"
  shows "array_is t p h ty xs"
proof -
  let ?a = "pool s p h" and ?n = "elem_off ty (length xs)"
  have sub: "span (?a + of_nat x) m \<subseteq> span ?a ?n" if "x + m \<le> ?n" for x m
    by (rule span_offset_subset [OF that])
  have n: "12 \<le> ?n" by (simp add: elem_off_def)
  have "Elements_of ?a t = Elements_of ?a s"
    using f32.ld_span [of ?a t s] same sub [of 0 4] n by (auto simp: Elements_of_def DESCR_Elements_def)
  moreover have "ElementSize_of ?a t = ElementSize_of ?a s" "Type_of ?a t = Type_of ?a s"
    using same sub [of 8 1] sub [of 9 1] n
    by (auto simp: ElementSize_of_def Type_of_def DESCR_ElementSize_def DESCR_Type_def span_1)
  moreover have "local_value ty t (?a + of_nat (elem_off ty i)) = local_value ty s (?a + of_nat (elem_off ty i))"
    if "i < length xs" for i
  proof -
    have "span (?a + of_nat (elem_off ty i)) (psize ty) \<subseteq> span ?a ?n"
      using sub elem_off_mono [OF that] by blast
    then have m: "mem t x = mem s x" if "x \<in> span (?a + of_nat (elem_off ty i)) (psize ty)" for x
      using same that by blast
    show ?thesis
      using m f8.ld_span [of _ t s] f16.ld_span [of _ t s] f32.ld_span [of _ t s] by (cases ty) simp_all
  qed
  moreover have "pool t p h = ?a" "MAX_PROGRAMS t = MAX_PROGRAMS s"
    using pools by (simp_all add: pool_def MAX_PROGRAMS_def)
  ultimately show ?thesis using ar pools by (simp add: array_is_def)
qed

lemma writes_pools: "writes R s t \<Longrightarrow> pPoolList t = pPoolList s \<and> Blocks t = Blocks s"
  unfolding writes_def by (cases s; cases t) simp

lemma array_length: "array_is s p h ty xs \<Longrightarrow> elem_off ty (length xs) < 2 ^ 31"
  by (simp add: array_is_def MAX_ARRAY_SIZE_def)

text \<open>A write to the region of \<open>m\<close> bytes at offset \<open>x\<close> of the block changes the elements in it.\<close>

lemma array_region:
  assumes ar: "array_is s p h ty xs" and w: "writes (span (pool s p h + of_nat x) m) s t"
    and x: "12 \<le> x" "x + m \<le> elem_off ty (length xs)" and len: "length ys = length xs"
    and elems: "\<And>j. j < length xs \<Longrightarrow> if elem_off ty j + psize ty \<le> x \<or> x + m \<le> elem_off ty j then ys ! j = xs ! j
      else local_value ty t (pool s p h + of_nat (elem_off ty j)) = Some (ys ! j)"
  shows "array_is t p h ty ys"
proof -
  let ?a = "pool s p h" and ?R = "span (pool s p h + of_nat x) m"
  have max: "x + m < 2 ^ 31" using x(2) array_length [OF ar] by linarith
  have pools: "pPoolList t = pPoolList s" "Consts t = Consts s"
    using writes_pools [OF w] writesD(3) [OF w] by simp_all
  have out: "span (?a + of_nat y) n \<inter> ?R = {}" if "y + n \<le> x \<or> x + m \<le> y" "y + n < 2 ^ 31" for y n
    by (rule span_offsets) (use that max in auto)
  have same: "mem t z = mem s z" if "y + n \<le> x" "z \<in> span (?a + of_nat y) n" for y n z
    using out [of y n] that max writes_mem [OF w] by auto
  have "Elements_of ?a t = Elements_of ?a s"
    using f32.ld_span [of ?a t s] same [of 0 4] x(1) by (simp add: Elements_of_def DESCR_Elements_def)
  moreover have "ElementSize_of ?a t = ElementSize_of ?a s" "Type_of ?a t = Type_of ?a s"
    using same [of 8 1] same [of 9 1] x(1)
    by (simp_all add: ElementSize_of_def Type_of_def DESCR_ElementSize_def DESCR_Type_def span_1)
  moreover have "local_value ty t (?a + of_nat (elem_off ty j)) = Some (ys ! j)" if j: "j < length xs" for j
  proof (cases "elem_off ty j + psize ty \<le> x \<or> x + m \<le> elem_off ty j")
    case True
    have "elem_off ty j + psize ty < 2 ^ 31"
      using elem_off_mono [OF j, of ty] array_length [OF ar] by linarith
    then have "local_value ty t (?a + of_nat (elem_off ty j)) = local_value ty s (?a + of_nat (elem_off ty j))"
      by (rule local_value_writes [OF w out [OF True]])
    with True elems [OF j] j ar show ?thesis by (simp add: array_is_def)
  qed (use elems [OF j] in simp)
  moreover have "pool t p h = ?a" "MAX_PROGRAMS t = MAX_PROGRAMS s"
    using pools by (simp_all add: pool_def MAX_PROGRAMS_def)
  ultimately show ?thesis using ar pools len by (simp add: array_is_def)
qed

lemma array_set:
  assumes ar: "array_is s p h ty xs" and i: "i < length xs"
    and w: "writes (span (pool s p h + of_nat (elem_off ty i)) (psize ty)) s t"
    and v: "local_value ty t (pool s p h + of_nat (elem_off ty i)) = Some v"
  shows "array_is t p h ty (xs[i := v])"
proof (rule array_region [OF ar w])
  show "elem_off ty i + psize ty \<le> elem_off ty (length xs)" by (rule elem_off_mono [OF i])
  fix j assume "j < length xs"
  then show "if elem_off ty j + psize ty \<le> elem_off ty i \<or> elem_off ty i + psize ty \<le> elem_off ty j
      then xs[i := v] ! j = xs ! j
      else local_value ty t (pool s p h + of_nat (elem_off ty j)) = Some (xs[i := v] ! j)"
    using v elem_off_mono [of i j ty] elem_off_mono [of j i ty] psize_bounds(1) [of ty]
    by (cases i j rule: linorder_cases) (auto simp: nth_list_update)
qed (simp_all add: elem_off_def)

text \<open>Clearing memory.\<close>

lemma zero_bytes_exec:
  assumes "span a n \<subseteq> dom (mem s)" and "n \<le> 2 ^ 32"
  shows "\<exists>t. zero_bytes n (PtrMem a) s = Some t \<and> writes (span a n) s t \<and> t = s\<lparr>mem := mem t\<rparr> \<and>
    (\<forall>x \<in> span a n. mem t x = Some 0)"
  using assms
proof (induction n arbitrary: a s)
  case 0
  then show ?case by (simp add: writes_refl)
next
  case (Suc n)
  let ?s = "s\<lparr>mem := (mem s)(a \<mapsto> 0)\<rparr>"
  have a: "mem s a \<noteq> None" using Suc.prems(1) by (auto simp: span_shift)
  have m: "span (a + 1) n \<subseteq> dom (mem ?s)" using Suc.prems(1) by (auto simp: span_shift)
  obtain t where t: "zero_bytes n (PtrMem (a + 1)) ?s = Some t" "writes (span (a + 1) n) ?s t" "t = ?s\<lparr>mem := mem t\<rparr>"
      "\<forall>x \<in> span (a + 1) n. mem t x = Some 0"
    using Suc.IH [OF m] Suc.prems(2) by auto
  have "span (a + of_nat 0) 1 \<inter> span (a + of_nat 1) n = {}"
    by (rule span_offsets) (use Suc.prems(2) in auto)
  then have "mem t a = Some 0" using writes_mem [OF t(2)] by (auto simp: span_1)
  moreover have "writes (span a (Suc n)) s ?s"
    using a by (auto simp: writes_def span_shift)
  then have "writes (span a (Suc n)) s t"
    by (rule writes_trans, intro writes_mono [OF t(2)]) (auto simp: span_shift)
  moreover have "t = s\<lparr>mem := mem t\<rparr>" by (subst t(3)) simp
  ultimately show ?case using a t(1,4) by (auto simp: span_shift)
qed

lemma zero_value: "(\<And>x. x \<in> span a (psize ty) \<Longrightarrow> mem s x = Some 0) \<Longrightarrow> local_value ty s a = Some 0"
  by (cases ty) (auto simp: span_1 span_2 span_4 load16_def load32_def)

lemma array_zero:
  assumes ar: "array_is s p h ty xs" and k: "k \<le> i" "i \<le> length xs"
    and w: "writes (span (pool s p h + of_nat (elem_off ty k)) (psize ty * (i - k))) s t"
    and z: "\<forall>x \<in> span (pool s p h + of_nat (elem_off ty k)) (psize ty * (i - k)). mem t x = Some 0"
  shows "array_is t p h ty (take k xs @ replicate (i - k) 0 @ drop i xs)"
proof -
  have off: "elem_off ty k + psize ty * (i - k) = elem_off ty i"
    using k(1) by (simp add: elem_off_def add_mult_distrib2 [symmetric])
  have mono: "elem_off ty m \<le> elem_off ty n" if "m \<le> n" for m n
    using that by (simp add: elem_off_def)
  show ?thesis
  proof (rule array_region [OF ar w])
    show "elem_off ty k + psize ty * (i - k) \<le> elem_off ty (length xs)" using mono [OF k(2)] off by simp
    show "length (take k xs @ replicate (i - k) 0 @ drop i xs) = length xs" using k by simp
    fix j assume j: "j < length xs"
    let ?ys = "take k xs @ replicate (i - k) 0 @ drop i xs"
    show "if elem_off ty j + psize ty \<le> elem_off ty k \<or> elem_off ty k + psize ty * (i - k) \<le> elem_off ty j
      then ?ys ! j = xs ! j else local_value ty t (pool s p h + of_nat (elem_off ty j)) = Some (?ys ! j)"
    proof (cases "k \<le> j \<and> j < i")
      case False
      then have "?ys ! j = xs ! j" using k j by (auto simp: nth_append)
      moreover have "elem_off ty j + psize ty \<le> elem_off ty k \<or> elem_off ty i \<le> elem_off ty j"
        using False elem_off_mono [of j k ty] mono [of i j] by auto
      ultimately show ?thesis by (simp add: off)
    next
      case True
      have "elem_off ty j + psize ty \<le> elem_off ty i" "elem_off ty k \<le> elem_off ty j"
        using True elem_off_mono [of j i ty] mono [of k j] by auto
      moreover have "elem_off ty k < elem_off ty j + psize ty" using calculation(2) psize_bounds(1) [of ty] by linarith
      moreover have "elem_off ty j < elem_off ty i" using calculation(1) psize_bounds(1) [of ty] by linarith
      moreover have "span (pool s p h + of_nat (elem_off ty j)) (psize ty) \<subseteq>
          span (pool s p h + of_nat (elem_off ty k)) (psize ty * (i - k))"
        using span_offset_subset [of "elem_off ty j - elem_off ty k" "psize ty" "psize ty * (i - k)"
            "pool s p h + of_nat (elem_off ty k)"] calculation(1,2) off by (simp add: of_nat_diff)
      then have "local_value ty t (pool s p h + of_nat (elem_off ty j)) = Some 0"
        using z by (intro zero_value) blast
      moreover have "j - k < i - k" using True by linarith
      then have "?ys ! j = 0" using True k by (simp add: nth_append)
      ultimately show ?thesis by (simp add: off)
    qed
  qed (simp add: elem_off_def)
qed

subsection \<open>Resizing\<close>

text \<open>What the memory operations leave alone: everything but memory, the heap and the pools.\<close>

definition heap_only :: "vm \<Rightarrow> vm \<Rightarrow> bool" where
  "heap_only s t \<longleftrightarrow> t = s\<lparr>mem := mem t, Blocks := Blocks t, AllocNo := AllocNo t, pPoolList := pPoolList t\<rparr>"

lemma heap_onlyD:
  assumes "heap_only s t"
  shows "Value t = Value s" "ObjectIp t = ObjectIp s" "ProgramId t = ProgramId s" "Consts t = Consts s"
    "pGlobal t = pGlobal s" "ObjectLocal t = ObjectLocal s" "DispatchStatus t = DispatchStatus s"
  using assms unfolding heap_only_def by (cases s; cases t; simp)+

lemma heap_only_trans: "heap_only s t \<Longrightarrow> heap_only t v \<Longrightarrow> heap_only s v"
  unfolding heap_only_def by (cases s; cases t; cases v) simp

lemma heap_only_refl [simp]: "heap_only s s"
  by (simp add: heap_only_def)

lemma heap_only_upd [simp]:
  "heap_only s (t\<lparr>mem := m\<rparr>) \<longleftrightarrow> heap_only s t" "heap_only s (t\<lparr>Blocks := b\<rparr>) \<longleftrightarrow> heap_only s t"
  "heap_only s (t\<lparr>AllocNo := k\<rparr>) \<longleftrightarrow> heap_only s t" "heap_only s (t\<lparr>pPoolList := l\<rparr>) \<longleftrightarrow> heap_only s t"
proof -
  show "heap_only s (t\<lparr>mem := m\<rparr>) \<longleftrightarrow> heap_only s t" "heap_only s (t\<lparr>Blocks := b\<rparr>) \<longleftrightarrow> heap_only s t"
    "heap_only s (t\<lparr>AllocNo := k\<rparr>) \<longleftrightarrow> heap_only s t" "heap_only s (t\<lparr>pPoolList := l\<rparr>) \<longleftrightarrow> heap_only s t"
    unfolding heap_only_def by (cases s; cases t; simp)+
qed

lemma heap_only_pool [simp]: "heap_only s (set_pool p h f t) \<longleftrightarrow> heap_only s t"
  by (simp add: set_pool_def)

lemma free_heap_only: "free a s = Some t \<Longrightarrow> heap_only s t"
  by (auto simp: free_def unmap_block_def split: if_splits option.splits)

lemma realloc_heap_only: "realloc old n s = Some (a, t) \<Longrightarrow> heap_only s t"
  by (auto simp: realloc_def bind_conv Let_def map_block_def split: if_splits dest!: free_heap_only)

lemma reallocate_heap_only: "cMemoryReallocate p h n s = Some (a, t) \<Longrightarrow> heap_only s t"
  by (auto simp: cMemoryReallocate_def cMemoryRealloc_def bind_conv split: if_splits dest!: realloc_heap_only)

lemma store32_writes:
  assumes "store32 s (PtrMem a) x = Some t"
  shows "writes (span a 4) s t" and "load32 t (PtrMem a) = Some x" and "t = s\<lparr>mem := mem t\<rparr>"
proof -
  obtain m where "t = s\<lparr>mem := m\<rparr>" "\<forall>b. b \<notin> span a 4 \<longrightarrow> m b = mem s b" "dom m = dom (mem s)"
    using c32.st_mem [OF assms] by blast
  then show "writes (span a 4) s t" "t = s\<lparr>mem := mem t\<rparr>" by (simp_all add: writes_def)
  show "load32 t (PtrMem a) = Some x" by (rule c32.st_ld [OF assms])
qed

text \<open>Resizing an array: either it fails, and the handle is lost, or the array has the new
  length, its first elements are kept, and the further ones have unspecified values. Other
  blocks keep their bytes.\<close>

lemma resized_elements:
  assumes ar: "array_is s p h ty xs" and n: "elem_off ty n \<le> MAX_ARRAY_SIZE"
    and t: "pool_ok t" "Consts t = Consts s" "pool t p h = a" "a \<noteq> 0" "Size (pPoolList t p h) = of_nat (elem_off ty n)"
    and kept: "\<And>i. i < elem_off ty (length xs) \<Longrightarrow> i < elem_off ty n \<Longrightarrow>
      mem t (a + of_nat i) = mem s (pool s p h + of_nat i)"
    and v: "store32 t (PtrMem a) (of_nat n) = Some v"
  shows "\<exists>ys. array_is v p h ty ys \<and> length ys = n \<and> (\<forall>i < min n (length xs). ys ! i = xs ! i)"
proof -
  let ?e = "\<lambda>i. a + of_nat (elem_off ty i)" and ?b = "pool s p h"
  have lt: "elem_off ty n < 2 ^ 31" using n by (simp add: MAX_ARRAY_SIZE_def)
  have u: "unat (of_nat (elem_off ty n) :: ULONG) = elem_off ty n" using lt by (simp add: unat_of_nat)
  have w: "writes (span a 4) t v" and v0: "load32 v (PtrMem a) = Some (of_nat n)"
    using store32_writes [OF v] by simp_all
  have dom: "span a (elem_off ty n) \<subseteq> dom (mem v)"
    using heap_okD(4) [OF pool_ok_heap [OF t(1)] pool_okD(3) [OF t(1), of p h]] t(3-5) u writesD(11) [OF w] by simp
  have sub: "span (a + of_nat x) m \<subseteq> dom (mem v)" if "x + m \<le> elem_off ty n" for x m
    using span_offset_subset [OF that] dom by blast
  have same: "mem v z = mem t z" if "4 \<le> x" "x + m \<le> elem_off ty n" "z \<in> span (a + of_nat x) m" for x m z
  proof -
    have "span (a + of_nat 0) 4 \<inter> span (a + of_nat x) m = {}" by (rule span_offsets) (use that lt in auto)
    then show ?thesis using writes_mem [OF w] that(3) by auto
  qed
  have copied: "mem v (a + of_nat i) = mem s (?b + of_nat i)"
    if "4 \<le> i" "i < elem_off ty n" "i < elem_off ty (length xs)" for i
    using same [of i 1 "a + of_nat i"] kept [of i] that by (simp add: span_1)
  have big: "12 \<le> elem_off ty n" "12 \<le> elem_off ty (length xs)" by (simp_all add: elem_off_def)
  have hd: "ElementSize_of a v = ElementSize_of ?b s" "Type_of a v = Type_of ?b s"
    using copied [of 8] copied [of 9] big
    by (simp_all add: ElementSize_of_def Type_of_def DESCR_ElementSize_def DESCR_Type_def)
  have elem: "span (?e i) (psize ty) \<subseteq> dom (mem v)" if "i < n" for i
    by (rule sub [OF elem_off_mono [OF that]])
  define ys where "ys = map (\<lambda>i. the (local_value ty v (?e i))) [0..<n]"
  have ys: "local_value ty v (?e i) = Some (ys ! i)" if "i < n" for i
    using local_value_mapped [OF elem [OF that]] that by (auto simp: ys_def)
  have old: "ys ! i = xs ! i" if i: "i < n" "i < length xs" for i
  proof -
    have o: "elem_off ty i + psize ty \<le> elem_off ty n" "elem_off ty i + psize ty \<le> elem_off ty (length xs)"
      using elem_off_mono [OF i(1)] elem_off_mono [OF i(2)] by auto
    have m: "mem v (?e i + of_nat k) = mem s (?b + of_nat (elem_off ty i) + of_nat k)" if "k < psize ty" for k
      using copied [of "elem_off ty i + k"] o that by (simp add: elem_off_def add.assoc)
    have "local_value ty v (?e i) = local_value ty s (?b + of_nat (elem_off ty i))"
      using m [of 0] m [of 1] m [of 2] m [of 3] by (cases ty) (simp_all add: load16_def load32_def)
    moreover have "local_value ty s (?b + of_nat (elem_off ty i)) = Some (xs ! i)"
      using ar i(2) by (simp add: array_is_def)
    ultimately show ?thesis using ys [OF i(1)] by simp
  qed
  have len: "length ys = n" by (simp add: ys_def)
  have "array_is v p h ty ys"
    using ar t writes_pools [OF w] writesD(3) [OF w] u n hd v0 ys len
    by (simp add: array_is_def pool_def MAX_PROGRAMS_def Elements_of_def DESCR_Elements_def)
  with old len show ?thesis by auto
qed

lemma pool_ok_writes: "writes R s t \<Longrightarrow> pool_ok s \<Longrightarrow> pool_ok t"
proof -
  assume w: "writes R s t" and ok: "pool_ok s"
  have "heap_ok t"
    using pool_ok_heap [OF ok] heap_ok_dom [of s t] writesD(11) [OF w] writes_pools [OF w] by simp
  then show ?thesis
    using ok writes_pools [OF w] writesD(3) [OF w] by (simp add: pool_ok_def pool_def MAX_PROGRAMS_def)
qed

lemma writes_heap_only: "writes R s t \<Longrightarrow> t = s\<lparr>mem := mem t\<rparr> \<Longrightarrow> heap_only s t"
  unfolding heap_only_def by (cases s; cases t) simp

lemma GetPointer_array: "array_is s p h ty xs \<Longrightarrow> cMemoryGetPointer p h s = Some (pool s p h)"
  by (simp add: array_is_def GetPointer_iff)

text \<open>The other blocks of the heap, when the block of a handle is replaced.\<close>

definition others_stay :: "PRGID \<Rightarrow> HANDLER \<Rightarrow> vm \<Rightarrow> vm \<Rightarrow> bool" where
  "others_stay p h s t \<longleftrightarrow> (\<forall>c m. Blocks s c = Some m \<longrightarrow> c \<noteq> pool s p h \<longrightarrow>
     Blocks t c = Some m \<and> c \<noteq> pool t p h \<and> (\<forall>x \<in> span c m. mem t x = mem s x))"

lemma resize_array:
  assumes ok: "pool_ok s" and ar: "array_is s p h ty xs" and n: "elem_off ty n \<le> MAX_ARRAY_SIZE" "0 < n"
  shows "\<exists>q t. cMemoryResize p h (of_nat n) s = Some (q, t) \<and> pool_ok t \<and> heap_only s t \<and>
    others_stay p h s t \<and> (\<forall>p' h'. (p', h') \<noteq> (p, h) \<longrightarrow> pool t p' h' = pool s p' h') \<and>
    (if q = 0 then pool t p h = 0
     else \<exists>ys. array_is t p h ty ys \<and> length ys = n \<and> (\<forall>i < min n (length xs). ys ! i = xs ! i))"
proof -
  have p: "p < MAX_PROGRAMS s" and h: "handle_ok h" and es: "ElementSize_of (pool s p h) s = Some (of_nat (psize ty))"
    using ar by (simp_all add: array_is_def)
  have N: "of_nat n * scast (of_nat (psize ty) :: UBYTE) + sizeof_DESCR = (of_nat (elem_off ty n) :: ULONG)"
    by (cases ty) (simp_all add: elem_off_def sizeof_DESCR_def)
  have run: "cMemoryResize p h (of_nat n) s = Option.bind (cMemoryReallocate p h (of_nat (elem_off ty n)) s)
      (\<lambda>(q, s). if q \<noteq> 0 then Option.bind (store32 s (PtrMem q) (of_nat n)) (\<lambda>s. Some (q + 12, s)) else Some (0, s))"
    using es GetPointer_array [OF ar]
    unfolding cMemoryResize_def ElementSize_of_def DESCR_Elements_def DESCR_pArray_def
    by (simp add: N case_prod_unfold cong: if_cong)
  from ok p h show ?thesis
  proof (cases rule: reallocate_cases [where n = "of_nat (elem_off ty n)"])
    case (lost t)
    have "c \<noteq> 0" if "Blocks s c = Some m" for c m using heap_okD(1) [OF pool_ok_heap [OF ok] that] .
    then have "others_stay p h s t" using lost(3,4,5) by (auto simp: others_stay_def pool_def)
    then show ?thesis
      using lost run reallocate_heap_only [OF lost(1)] by (auto simp: pool_def)
  next
    case (moved a t)
    have u: "unat (of_nat (elem_off ty n) :: ULONG) = elem_off ty n"
      using n(1) by (simp add: unat_of_nat MAX_ARRAY_SIZE_def)
    have pool: "pool t p' h' = (if p' = p \<and> h' = h then a else pool s p' h')" for p' h'
      by (simp add: pool_def moved(6))
    have blk: "Blocks t a = Some (elem_off ty n)"
      using pool_okD(3) [OF moved(3), of p h] moved(2,6) u by (simp add: pool)
    note dom = heap_okD(4) [OF pool_ok_heap [OF moved(3)] blk]
    have fit: "unat a + elem_off ty n \<le> 2 ^ 32"
      using pool_ok_heap [OF moved(3)] blk unfolding heap_ok_def by blast
    have four: "span a 4 \<subseteq> span a (elem_off ty n)"
      using span_offset_subset [of 0 4 "elem_off ty n" a] by (simp add: elem_off_def)
    then obtain x where "load32 t (PtrMem a) = Some x" using f32.ld_mapped [of a t] dom by blast
    then obtain v where v: "store32 t (PtrMem a) (of_nat n) = Some v" using c32.st_ok by blast
    note w = store32_writes(1) [OF v]
    have sz: "elem_off ty (length xs) \<le> unat (Size (pPoolList s p h))" and live: "pool s p h \<noteq> 0"
      using ar by (simp_all add: array_is_def)
    obtain ys where ys: "array_is v p h ty ys" "length ys = n" "\<forall>i < min n (length xs). ys ! i = xs ! i"
      using resized_elements [OF ar n(1) moved(3,7) _ moved(2) _ _ v] moved(6,9) sz live u pool by auto
    have "12 < elem_off ty n" using n(2) psize_bounds(1) [of ty] by (simp add: elem_off_def)
    then have "unat (a + 12) = unat a + 12" using fit unat_plus_small [of a 12] by simp
    then have q: "a + 12 \<noteq> 0" by auto
    have "Blocks v c = Some m \<and> c \<noteq> pool v p h \<and> (\<forall>x \<in> span c m. mem v x = mem s x)"
      if c: "Blocks s c = Some m" "c \<noteq> pool s p h" for c m
    proof -
      have ne: "c \<noteq> a" using moved(11) c live by auto
      have blk': "Blocks t c = Some m" using moved(10) c live ne by simp
      have "mem v x = mem s x" if "x \<in> span c m" for x
      proof -
        have "x \<notin> span a 4" using heap_ok_disj [OF pool_ok_heap [OF moved(3)] blk blk'] ne that four by blast
        then have "mem v x = mem t x" by (rule writes_mem [OF w])
        also have "\<dots> = mem s x" using moved(8) c that by (simp add: others_kept_def)
        finally show ?thesis .
      qed
      then show ?thesis using blk' ne writes_pools [OF w] pool by (simp add: pool_def)
    qed
    then have "others_stay p h s v" by (simp add: others_stay_def)
    moreover have "heap_only s v"
      using reallocate_heap_only [OF moved(1)] heap_only_trans writes_heap_only [OF w store32_writes(3) [OF v]] by blast
    ultimately show ?thesis
      using run moved(1,2) v ys q pool_ok_writes [OF w moved(3)] writes_pools [OF w] pool
      by (auto simp: pool_def)
  qed
qed

subsection \<open>Storing an element\<close>

fun ptr_value :: "ptype \<Rightarrow> vm \<Rightarrow> ptr \<Rightarrow> ULONG option" where
  "ptr_value P8 s q = map_option ucast (load8 s q)"
| "ptr_value P16 s q = map_option ucast (load16 s q)"
| "ptr_value P32 s q = load32 s q"
| "ptr_value PF s q = load32 s q"

lemma ptr_value_mem: "ptr_value ty s (PtrMem a) = local_value ty s a"
  by (cases ty) simp_all

definition ptr_bytes :: "ptype \<Rightarrow> ptr \<Rightarrow> ULONG set" where
  "ptr_bytes ty q = (case q of PtrMem d \<Rightarrow> span d (psize ty) | PtrValue k \<Rightarrow> {})"

lemma load_value_cong:
  assumes "Value t = Value s"
  shows "load8 t (PtrValue k) = load8 s (PtrValue k)" "load16 t (PtrValue k) = load16 s (PtrValue k)"
    "load32 t (PtrValue k) = load32 s (PtrValue k)"
  using assms by (simp_all add: load16_def load32_def)

lemma ptr_value_cong:
  assumes v: "Value t = Value s" and m: "\<And>x. x \<in> ptr_bytes ty q \<Longrightarrow> mem t x = mem s x"
  shows "ptr_value ty t q = ptr_value ty s q"
proof (cases q)
  case (PtrMem d)
  then have "mem t x = mem s x" if "x \<in> span d (psize ty)" for x using m that by (simp add: ptr_bytes_def)
  then show ?thesis
    using PtrMem f8.ld_span [of d t s] f16.ld_span [of d t s] f32.ld_span [of d t s] by (cases ty) simp_all
next
  case (PtrValue k)
  then show ?thesis using load_value_cong [OF v] by (cases ty) simp_all
qed

context framed_cell
begin

lemma copy_cell_exec:
  assumes "ld s q = Some x" and "span d size \<subseteq> dom (mem s)"
  shows "\<exists>t. copy_cell ld st q (PtrMem d) s = Some t \<and> writes (span d size) s t \<and> t = s\<lparr>mem := mem t\<rparr> \<and>
    ld t (PtrMem d) = Some x"
proof -
  obtain y where "ld s (PtrMem d) = Some y" using ld_mapped [OF assms(2)] by blast
  then obtain t where t: "st s (PtrMem d) x = Some t" using st_ok by blast
  obtain m where "t = s\<lparr>mem := m\<rparr>" "\<forall>b. b \<notin> span d size \<longrightarrow> m b = mem s b" "dom m = dom (mem s)"
    using st_mem [OF t] by blast
  then show ?thesis using assms(1) t st_ld [OF t] by (auto simp: copy_cell_def writes_def)
qed

end

lemma copy_value_exec:
  assumes v: "ptr_value ty s q = Some x" and d: "span d (psize ty) \<subseteq> dom (mem s)"
  shows "\<exists>t. copy_value ty q (PtrMem d) s = Some t \<and> writes (span d (psize ty)) s t \<and> t = s\<lparr>mem := mem t\<rparr> \<and>
    local_value ty t d = Some x"
proof (cases ty)
  case P8
  then obtain y where "load8 s q = Some y" "x = ucast y" using v by auto
  then show ?thesis using f8.copy_cell_exec [of s q y d] d P8 by auto
next
  case P16
  then obtain y where "load16 s q = Some y" "x = ucast y" using v by auto
  then show ?thesis using f16.copy_cell_exec [of s q y d] d P16 by auto
next
  case P32
  then show ?thesis using v d f32.copy_cell_exec [of s q _ d] by simp
next
  case PF
  then show ?thesis using v d f32.copy_cell_exec [of s q _ d] by simp
qed

lemma put_element_code:
  "put_element (ty_code ty) pArray (of_nat i) q s =
     map_option (Pair True) (copy_value ty q (PtrMem (pArray + of_nat (psize ty * i))) s)"
  by (cases ty) (simp_all add: put_element_def data_type_defs)

lemma array_elem_mapped:
  assumes "pool_ok s" and "array_is s p h ty xs" and "i < length xs"
  shows "span (pool s p h + of_nat (elem_off ty i)) (psize ty) \<subseteq> dom (mem s)"
  using array_block [OF assms(1,2)] span_offset_subset [OF elem_off_mono [OF assms(3)]] by blast

lemma small_nat:
  assumes "n < 2 ^ 31"
  shows "unat (of_nat n :: ULONG) = n" and "sint (of_nat n :: ULONG) = int n"
  using assms sint_of_int_range [where 'a = 32 and i = "int n"] by (simp_all add: unat_of_nat)

lemma clear_gap:
  assumes d: "span d n \<subseteq> dom (mem s)" and n: "n < 2 ^ 31" and a: "0 < n \<Longrightarrow> a = d"
  shows "\<exists>r. (if 0 < sint (of_nat n :: ULONG) then zero_bytes (unat (of_nat n :: ULONG)) (PtrMem a) s else Some s) = Some r \<and>
    writes (span d n) s r \<and> r = s\<lparr>mem := mem r\<rparr> \<and> (\<forall>x \<in> span d n. mem r x = Some 0)"
proof (cases "n = 0")
  case True
  then show ?thesis by (simp add: writes_refl)
next
  case False
  then have "a = d" using a by simp
  moreover have "n \<le> 2 ^ 32" using n by simp
  ultimately show ?thesis
    using zero_bytes_exec [OF d] False unfolding small_nat [OF n] by simp
qed

text \<open>The end of a write, after the array has got its length: the gap is cleared, the value
  stored. The value must not lie in the array itself.\<close>

lemma write_element_exec:
  assumes ok: "pool_ok s" and ar: "array_is s p h ty ys" and i: "i < length ys" "k \<le> i"
    and v: "ptr_value ty s q = Some v" "ptr_bytes ty q \<inter> span (pool s p h) (elem_off ty (length ys)) = {}"
    and Length: "Length = of_nat (psize ty * (i - k))" "k < i \<Longrightarrow> Offset = of_nat (psize ty * k)"
  shows "\<exists>t. write_element p h (of_nat i) q Offset Length s = Some (NOBREAK, t) \<and> pool_ok t \<and> t = s\<lparr>mem := mem t\<rparr> \<and>
    array_is t p h ty ((take k ys @ replicate (i - k) 0 @ drop i ys)[i := v])"
proof -
  let ?a = "pool s p h"
  let ?zs = "take k ys @ replicate (i - k) 0 @ drop i ys"
  define n where "n = psize ty * (i - k)"
  have off: "elem_off ty k + n = elem_off ty i"
    using i(2) by (simp add: n_def elem_off_def add_mult_distrib2 [symmetric])
  have lt: "elem_off ty i + psize ty \<le> elem_off ty (length ys)" by (rule elem_off_mono [OF i(1)])
  then have small: "n < 2 ^ 31" using array_length [OF ar] off by linarith
  have sub: "span (?a + of_nat (elem_off ty k)) n \<subseteq> span ?a (elem_off ty (length ys))"
    by (rule span_offset_subset) (use off lt in simp)
  then have d: "span (?a + of_nat (elem_off ty k)) n \<subseteq> dom (mem s)" using array_block [OF ok ar] by blast
  have gap: "?a + 12 + Offset = ?a + of_nat (elem_off ty k)" if "0 < n"
    using Length(2) that by (simp add: n_def elem_off_def)
  obtain r where r: "(if 0 < sint Length then zero_bytes (unat Length) (PtrMem (?a + 12 + Offset)) s else Some s) = Some r"
      "writes (span (?a + of_nat (elem_off ty k)) n) s r" "r = s\<lparr>mem := mem r\<rparr>"
      "\<forall>x \<in> span (?a + of_nat (elem_off ty k)) n. mem r x = Some 0"
    using clear_gap [OF d small gap] unfolding Length(1) n_def [symmetric] by blast
  have rar: "array_is r p h ty ?zs" using array_zero [OF ar i(2) less_imp_le [OF i(1)]] r(2,4) unfolding n_def .
  have rok: "pool_ok r" by (rule pool_ok_writes [OF r(2) ok])
  have len: "length ?zs = length ys" using i by simp
  have pr: "pool r p h = ?a" "Value r = Value s"
    using writes_pools [OF r(2)] heap_onlyD(1) [OF writes_heap_only [OF r(2,3)]] by (simp_all add: pool_def)
  have "mem r x = mem s x" if "x \<in> ptr_bytes ty q" for x
  proof -
    have "x \<notin> span (?a + of_nat (elem_off ty k)) n" using sub v(2) that by auto
    then show ?thesis by (rule writes_mem [OF r(2)])
  qed
  then have val: "ptr_value ty r q = Some v"
    using ptr_value_cong [OF pr(2)] v(1) by simp
  have cell: "span (?a + of_nat (elem_off ty i)) (psize ty) \<subseteq> dom (mem r)"
    using array_elem_mapped [OF rok rar, of i] i(1) len pr(1) by simp
  obtain t where t: "copy_value ty q (PtrMem (?a + of_nat (elem_off ty i))) r = Some t"
      "writes (span (?a + of_nat (elem_off ty i)) (psize ty)) r t" "t = r\<lparr>mem := mem t\<rparr>"
      "local_value ty t (?a + of_nat (elem_off ty i)) = Some v"
    using copy_value_exec [OF val cell] by (elim exE conjE) (rule that)
  have addr: "?a + 12 + of_nat (psize ty * i) = ?a + of_nat (elem_off ty i)" by (simp add: elem_off_def)
  have put: "put_element (ty_code ty) (?a + 12) (of_nat i) q r = Some (True, t)"
    unfolding put_element_code addr t(1) by simp
  have "Type_of ?a r = Some (ty_code ty)" using rar pr(1) by (simp add: array_is_def)
  then have run: "write_element p h (of_nat i) q Offset Length s = Some (NOBREAK, t)"
    using GetPointer_array [OF ar] r(1) put by (simp add: write_element_def DESCR_pArray_def)
  have ar': "array_is t p h ty (?zs[i := v])"
    using array_set [OF rar, of i t v] t(2,4) i(1) len pr(1) by simp
  have frame: "t = s\<lparr>mem := mem t\<rparr>" by (subst t(3), subst r(3)) simp
  from run pool_ok_writes [OF t(2) rok] frame ar' show ?thesis by (iprover intro: exI conjI)
qed

subsection \<open>The byte codes on lists\<close>

text \<open>The parameters of \<open>ARRAY_WRITE\<close>: the handle, the index and the value.\<close>

definition array_args :: "vm \<Rightarrow> operand \<Rightarrow> operand \<Rightarrow> operand \<Rightarrow> HANDLER \<Rightarrow> DATA32 \<Rightarrow> bool" where
  "array_args s a b c h i \<longleftrightarrow> code_at s (ObjectIp s) (enc a @ enc b @ enc c) \<and> wf a \<and> wf b \<and> wf c \<and>
     numeric b \<and> plain c \<and> operand_value load16 s a = Some h \<and> operand_value load32 s b = Some i"

lemma plain_value:
  assumes c: "code_at s (ObjectIp s) (enc c)" and wf: "wf c" and p: "plain c"
  shows "\<exists>q r. PrimParPointer s = Some (q, r) \<and> regs_only s r \<and> ObjectIp r = ObjectIp s + of_nat (length (enc c)) \<and>
    (\<forall>ty. ptr_value ty r q = value_of ty s c \<and> ptr_bytes ty q = refers s c (psize ty))"
proof (cases c)
  case (Const w v)
  have "ptr_value ty (s\<lparr>ObjectIp := ip, Value := v, Handle := h\<rparr>) (PtrValue 0) = value_of ty s (Const w v)" for ty ip h
    by (cases ty) (simp_all add: operand_value_def c8.ld_value [simplified] c16.ld_value c32.ld_value)
  with Const decode [OF c wf] show ?thesis by (simp add: ptr_bytes_def refers_def)
next
  case (Var sc w i)
  have "ptr_value ty (s\<lparr>ObjectIp := ip, Value := v, Handle := h\<rparr>) (PtrMem (base sc s + i)) = value_of ty s (Var sc w i)"
    for ty ip v h
    using load16_mem_cong [of "s\<lparr>ObjectIp := ip, Value := v, Handle := h\<rparr>" "s\<lparr>Value := i\<rparr>"]
      load32_mem_cong [of "s\<lparr>ObjectIp := ip, Value := v, Handle := h\<rparr>" "s\<lparr>Value := i\<rparr>"]
    by (cases ty) (simp_all add: operand_value_def)
  with Var decode [OF c wf] show ?thesis by (simp add: ptr_bytes_def refers_def)
qed (use p in auto)

text \<open>The handle and the index are read; the third parameter comes next.\<close>

lemma handle_index_run:
  assumes "array_args s a b c h i"
  shows "\<exists>u w. get16 s = Some (h, u) \<and> get32 u = Some (i, w) \<and> regs_only s u \<and> regs_only s w \<and>
    code_at w (ObjectIp w) (enc c) \<and> ObjectIp w = ObjectIp s + of_nat (length (enc a @ enc b))"
proof -
  have code: "code_at s (ObjectIp s) (enc a @ enc b @ enc c)" and wf: "wf a" "wf b"
    and nb: "numeric b" and h: "operand_value load16 s a = Some h" and i: "operand_value load32 s b = Some i"
    using assms by (auto simp: array_args_def)
  obtain u where u: "get16 s = Some (h, u)" "past a s u"
    using c16.get_exec [OF _ wf(1) h] code by (auto simp: code_at_append)
  then have ru: "regs_only s u" by (simp add: past_def)
  have "code_at u (ObjectIp u) (enc b)" "operand_value load32 u b = Some i"
    using code u(2) c32.value_regs [OF nb ru] i by (auto simp: code_at_append past_def code_regs [OF ru])
  then obtain w where w: "get32 u = Some (i, w)" "past b u w" using c32.get_exec wf(2) by blast
  then have rw: "regs_only s w" using regs_only_trans [OF ru] by (simp add: past_def)
  have "code_at w (ObjectIp w) (enc c)"
    using code u(2) w(2) by (auto simp: code_at_append past_def code_regs [OF rw] add.assoc)
  then show ?thesis using u w ru rw by (auto simp: past_def add.assoc)
qed

lemma array_args_run:
  assumes "array_args s a b c h i"
  shows "\<exists>u w q r. get16 s = Some (h, u) \<and> get32 u = Some (i, w) \<and> PrimParPointer w = Some (q, r) \<and>
    regs_only s r \<and> ObjectIp r = ObjectIp s + of_nat (length (enc a @ enc b @ enc c)) \<and>
    regs_only s u \<and> regs_only s w \<and>
    (\<forall>ty. ptr_value ty r q = value_of ty s c \<and> ptr_bytes ty q = refers s c (psize ty))"
proof -
  obtain u w where u: "get16 s = Some (h, u)" "get32 u = Some (i, w)" "regs_only s u" and rw: "regs_only s w"
      and w: "code_at w (ObjectIp w) (enc c)" "ObjectIp w = ObjectIp s + of_nat (length (enc a @ enc b))"
    using handle_index_run [OF assms] by blast
  have wf: "wf c" and pc: "plain c" using assms by (auto simp: array_args_def)
  obtain q r where q: "PrimParPointer w = Some (q, r)" "regs_only w r" "ObjectIp r = ObjectIp w + of_nat (length (enc c))"
      "\<forall>ty. ptr_value ty r q = value_of ty w c \<and> ptr_bytes ty q = refers w c (psize ty)"
    using plain_value [OF w(1) wf pc] by blast
  have "value_of ty w c = value_of ty s c" "refers w c n = refers s c n" for ty n
    using value_of_same [OF sees_regs [OF rw] pc] refers_same [OF sees_regs [OF rw]] by simp_all
  then show ?thesis
    using u w(2) q rw regs_only_trans [OF rw q(2)] by (auto simp: add.assoc)
qed

text \<open>The value is a constant or lies in a block of the heap other than the array.\<close>

definition value_apart :: "vm \<Rightarrow> HANDLER \<Rightarrow> ULONG set \<Rightarrow> bool" where
  "value_apart s h B \<longleftrightarrow> B = {} \<or>
     (\<exists>b m. Blocks s b = Some m \<and> b \<noteq> pool s (ProgramId s) h \<and> B \<subseteq> span b m)"

lemma array_regs: "regs_only s t \<Longrightarrow> array_is s p h ty xs \<Longrightarrow> array_is t p h ty xs"
  by (rule array_bytes) (simp_all add: regs_onlyD)

lemma apart_disjoint:
  assumes ok: "pool_ok s" and ar: "array_is s (ProgramId s) h ty xs" and ap: "value_apart s h B"
  shows "B \<inter> span (pool s (ProgramId s) h) (elem_off ty (length xs)) = {}"
proof (cases "B = {}")
  case False
  then obtain b m where b: "Blocks s b = Some m" "b \<noteq> pool s (ProgramId s) h" "B \<subseteq> span b m"
    using ap by (auto simp: value_apart_def)
  have "Blocks s (pool s (ProgramId s) h) = Some (unat (Size (pPoolList s (ProgramId s) h)))"
    using pool_okD(3) [OF ok] ar by (simp add: array_is_def)
  then have "span b m \<inter> span (pool s (ProgramId s) h) (unat (Size (pPoolList s (ProgramId s) h))) = {}"
    using heap_ok_disj [OF pool_ok_heap [OF ok] b(1)] b(2) by blast
  moreover have "span (pool s (ProgramId s) h) (elem_off ty (length xs)) \<subseteq>
      span (pool s (ProgramId s) h) (unat (Size (pPoolList s (ProgramId s) h)))"
    using span_offset_subset [of 0 "elem_off ty (length xs)" _ "pool s (ProgramId s) h"] ar
    by (simp add: array_is_def)
  ultimately show ?thesis using b(3) by blast
qed simp

text \<open>Storing at an index within the array, and beyond its end.\<close>

definition stored :: "ULONG list \<Rightarrow> nat \<Rightarrow> ULONG \<Rightarrow> ULONG list" where
  "stored xs i v = (if i < length xs then xs[i := v] else xs @ replicate (i - length xs) 0 @ [v])"

lemma elem_off_ge: "n \<le> elem_off ty n"
proof -
  have "1 * n \<le> psize ty * n" by (rule mult_le_mono1) (use psize_bounds(1) [of ty] in simp)
  then show ?thesis unfolding elem_off_def mult_1 by (rule trans_le_add2)
qed

lemma array_facts:
  assumes ar: "array_is s p h ty xs"
  shows "cMemoryGetPointer p h s = Some (pool s p h)" and "Elements_of (pool s p h) s = Some (of_nat (length xs))"
    and "ElementSize_of (pool s p h) s = Some (of_nat (psize ty))" and "length xs < 2 ^ 31"
    and "sint (of_nat (length xs) :: ULONG) = int (length xs)" and "Type_of (pool s p h) s = Some (ty_code ty)"
proof -
  show len: "length xs < 2 ^ 31" using array_length [OF ar] elem_off_ge [of "length xs" ty] by linarith
  then show "sint (of_nat (length xs) :: ULONG) = int (length xs)" by (rule small_nat)
qed (use ar in \<open>simp_all add: array_is_def GetPointer_iff\<close>)

lemma index_small: "elem_off ty (Suc i) \<le> MAX_ARRAY_SIZE \<Longrightarrow> Suc i < 2 ^ 31"
  using elem_off_ge [of "Suc i" ty] by (simp add: MAX_ARRAY_SIZE_def)

lemma of_nat_Suc_word: "of_nat i + 1 = (of_nat (Suc i) :: ULONG)"
  by simp

lemma store_within:
  assumes ok: "pool_ok s" and ar: "array_is s p h ty xs" and i: "i < length xs"
    and v: "ptr_value ty s q = Some v" "ptr_bytes ty q \<inter> span (pool s p h) (elem_off ty (length xs)) = {}"
  shows "\<exists>t. store_element p h (of_nat i) q s = Some (NOBREAK, t) \<and> pool_ok t \<and> t = s\<lparr>mem := mem t\<rparr> \<and>
    array_is t p h ty (stored xs i v)"
proof -
  have small: "Suc i < 2 ^ 31" using array_facts(4) [OF ar] i by simp
  then have n: "sint (of_nat i :: ULONG) = int i" "sint (of_nat (Suc i) :: ULONG) = int (Suc i)"
    using small_nat(2) [of i] small_nat(2) [OF small] by simp_all
  have "store_element p h (of_nat i) q s = write_element p h (of_nat i) q 0 0 s"
    unfolding store_element_def Let_def of_nat_Suc_word using array_facts [OF ar] i n by simp
  then show ?thesis
    using write_element_exec [OF ok ar i le_refl v, of 0 0] i by (simp add: stored_def)
qed

lemma store_beyond:
  assumes ok: "pool_ok s" and ar: "array_is s p h ty xs" and p: "p = ProgramId s"
    and i: "length xs \<le> i" "elem_off ty (Suc i) \<le> MAX_ARRAY_SIZE"
    and v: "ptr_value ty s q = Some v" and ap: "value_apart s h (ptr_bytes ty q)"
  shows "\<exists>D t. store_element p h (of_nat i) q s = Some (D, t) \<and> pool_ok t \<and> heap_only s t \<and>
    (D = NOBREAK \<and> array_is t p h ty (stored xs i v) \<or> D = FAILBREAK \<and> pool t p h = 0)"
proof -
  note small = index_small [OF i(2)] and f = array_facts [OF ar]
  have n: "sint (of_nat i :: ULONG) = int i" "sint (of_nat (Suc i) :: ULONG) = int (Suc i)"
    using small small_nat(2) [of i] small_nat(2) [OF small] by simp_all
  define off where "off = (scast (of_nat (psize ty) :: UBYTE) :: ULONG) * of_nat (length xs)"
  define len where "len = (scast (of_nat (psize ty) :: UBYTE) :: ULONG) * of_nat i - off"
  have off: "off = of_nat (psize ty * length xs)" and len: "len = of_nat (psize ty * (i - length xs))"
    using i(1) by (cases ty; simp add: off_def len_def of_nat_diff algebra_simps)+
  obtain a t where t: "cMemoryResize p h (of_nat (Suc i)) s = Some (a, t)" "pool_ok t" "heap_only s t"
      "others_stay p h s t" "if a = 0 then pool t p h = 0
        else \<exists>ys. array_is t p h ty ys \<and> length ys = Suc i \<and> (\<forall>j < min (Suc i) (length xs). ys ! j = xs ! j)"
    using resize_array [OF ok ar i(2)] by blast
  have run: "store_element p h (of_nat i) q s = (if a = 0 then Some (FAILBREAK, t) else write_element p h (of_nat i) q off len t)"
    unfolding store_element_def Let_def of_nat_Suc_word using f i(1) n t(1) by (simp add: off_def len_def)
  show ?thesis
  proof (cases "a = 0")
    case True
    with run t show ?thesis by simp
  next
    case False
    obtain ys where ys: "array_is t p h ty ys" "length ys = Suc i" "\<forall>j < length xs. ys ! j = xs ! j"
      using t(5) False i(1) by auto
    have same: "mem t x = mem s x" if "x \<in> ptr_bytes ty q" for x
      using ap t(4) that unfolding value_apart_def others_stay_def p by blast
    have v': "ptr_value ty t q = Some v"
      using ptr_value_cong [OF heap_onlyD(1) [OF t(3)] same] v by simp
    have "value_apart t h (ptr_bytes ty q)"
      using ap t(4) heap_onlyD(3) [OF t(3)] unfolding value_apart_def others_stay_def p by metis
    then have apart: "ptr_bytes ty q \<inter> span (pool t p h) (elem_off ty (length ys)) = {}"
      using apart_disjoint [OF t(2)] ys(1) heap_onlyD(3) [OF t(3)] p by simp
    have i': "i < length ys" using ys(2) by simp
    obtain r where r: "write_element p h (of_nat i) q off len t = Some (NOBREAK, r)" "pool_ok r" "r = t\<lparr>mem := mem r\<rparr>"
        "array_is r p h ty ((take (length xs) ys @ replicate (i - length xs) 0 @ drop i ys)[i := v])"
      using write_element_exec [OF t(2) ys(1) i' i(1) v' apart len off] by (elim exE conjE) (rule that)
    have "take (length xs) ys = xs" using ys(2,3) i(1) by (intro nth_equalityI) auto
    moreover have "drop i ys = [ys ! i]" using ys(2) by (simp add: Cons_nth_drop_Suc [symmetric])
    ultimately have "(take (length xs) ys @ replicate (i - length xs) 0 @ drop i ys)[i := v] = stored xs i v"
      using i(1) by (simp add: stored_def list_update_append)
    moreover have "heap_only t r" by (subst r(3)) simp
    ultimately show ?thesis
      using run False r(1,2,4) heap_only_trans [OF t(3)] by auto
  qed
qed

lemma set_status_fields:
  "ObjectIp (SetDispatchStatus d s) = ObjectIp s" "mem (SetDispatchStatus d s) = mem s"
  "DispatchStatus (SetDispatchStatus d s) = d" "pPoolList (SetDispatchStatus d s) = pPoolList s"
  "Blocks (SetDispatchStatus d s) = Blocks s" "Consts (SetDispatchStatus d s) = Consts s"
  "pool (SetDispatchStatus d s) p h = pool s p h" "pGlobal (SetDispatchStatus d s) = pGlobal s"
  by (simp_all add: SetDispatchStatus_def Let_def pool_def)

lemma pool_ok_status: "pool_ok (SetDispatchStatus d s) = pool_ok s"
proof -
  have "pool_ok t" if "pool_ok s" and "mem t = mem s" "Blocks t = Blocks s" "pPoolList t = pPoolList s" "Consts t = Consts s"
    for s t using pool_ok_frame [OF that] .
  from this [of s "SetDispatchStatus d s"] this [of "SetDispatchStatus d s" s] show ?thesis
    by (auto simp: set_status_fields)
qed

text \<open>What a write does after its parameters have been decoded, in both cases.\<close>

lemma store_element_exec:
  assumes ok: "pool_ok s" and ar: "array_is s p h ty xs" and p: "p = ProgramId s"
    and i: "elem_off ty (Suc i) \<le> MAX_ARRAY_SIZE"
    and v: "ptr_value ty s q = Some v" and ap: "value_apart s h (ptr_bytes ty q)"
  shows "\<exists>D t. store_element p h (of_nat i) q s = Some (D, t) \<and> pool_ok t \<and> heap_only s t \<and>
    (D = NOBREAK \<and> array_is t p h ty (stored xs i v) \<or> D = FAILBREAK \<and> length xs \<le> i \<and> pool t p h = 0)"
proof (cases "i < length xs")
  case True
  have d: "ptr_bytes ty q \<inter> span (pool s p h) (elem_off ty (length xs)) = {}"
    using apart_disjoint [OF ok _ ap] ar p by simp
  obtain t where t: "store_element p h (of_nat i) q s = Some (NOBREAK, t)" "pool_ok t" "t = s\<lparr>mem := mem t\<rparr>"
      "array_is t p h ty (stored xs i v)"
    using store_within [OF ok ar True v d] by (elim exE conjE) (rule that)
  have "heap_only s t" by (subst t(3)) simp
  with t(1,2,4) show ?thesis by (intro exI conjI disjI1) auto
next
  case False
  then show ?thesis using store_beyond [OF ok ar p _ i v ap] by (metis not_less)
qed

text \<open>C18: \<open>ARRAY_WRITE\<close> at index \<open>i\<close> replaces the element, or, at or beyond the
  end, extends the array with zeros up to the new element; if the memory for that cannot be
  had, it ends with \<open>FAILBREAK\<close> and the array is lost.\<close>

theorem array_write:
  assumes ok: "pool_ok s" and ar: "array_is s (ProgramId s) h ty xs" and args: "array_args s a b c h (of_nat i)"
    and i: "elem_off ty (Suc i) \<le> MAX_ARRAY_SIZE"
    and v: "value_of ty s c = Some v" and ap: "value_apart s h (refers s c (psize ty))"
  shows "\<exists>t. cMemoryArrayWrite s = Some t \<and> pool_ok t \<and>
    ObjectIp t = ObjectIp s + of_nat (length (enc a @ enc b @ enc c)) \<and>
    (array_is t (ProgramId s) h ty (stored xs i v) \<and> DispatchStatus t = DispatchStatus s \<or>
     length xs \<le> i \<and> pool t (ProgramId s) h = 0 \<and> DispatchStatus t = FAILBREAK)"
proof -
  obtain u w q r where run: "get16 s = Some (h, u)" "get32 u = Some (of_nat i, w)" "PrimParPointer w = Some (q, r)"
      "regs_only s r" "ObjectIp r = ObjectIp s + of_nat (length (enc a @ enc b @ enc c))"
      "ptr_value ty r q = value_of ty s c" "ptr_bytes ty q = refers s c (psize ty)"
    using array_args_run [OF args] by blast
  note w = writes_regs [OF run(4), of "{}"]
  have rap: "value_apart r h (ptr_bytes ty q)"
    using ap run(7) writes_pools [OF w] writesD(4) [OF w] by (simp add: value_apart_def pool_def)
  have "ptr_value ty r q = Some v" "ProgramId s = ProgramId r" using run(6) v writesD(4) [OF w] by simp_all
  then obtain D t where t: "store_element (ProgramId s) h (of_nat i) q r = Some (D, t)" "pool_ok t" "heap_only r t"
      "D = NOBREAK \<and> array_is t (ProgramId s) h ty (stored xs i v) \<or>
       D = FAILBREAK \<and> length xs \<le> i \<and> pool t (ProgramId s) h = 0"
    using store_element_exec [OF pool_ok_writes [OF w ok] array_regs [OF run(4) ar] _ i _ rap] by blast
  have "cMemoryArrayWrite s = Some (if D \<noteq> NOBREAK then SetDispatchStatus D t else t)"
    using run(1-3) t(1) by (simp add: cMemoryArrayWrite_def CurrentProgramId_def)
  then show ?thesis
    using t(2,4) heap_onlyD [OF t(3)] run(5) writesD(12) [OF w]
    by (auto simp: pool_ok_status set_status_fields)
qed

lemma append_element_exec:
  assumes ok: "pool_ok s" and ar: "array_is s p h ty xs" and p: "p = ProgramId s"
    and n: "elem_off ty (Suc (length xs)) \<le> MAX_ARRAY_SIZE"
    and v: "ptr_value ty s q = Some v" and ap: "value_apart s h (ptr_bytes ty q)"
  shows "\<exists>D t. append_element p h q s = Some (D, t) \<and> pool_ok t \<and> heap_only s t \<and>
    (D = NOBREAK \<and> array_is t p h ty (xs @ [v]) \<or> D = FAILBREAK \<and> pool t p h = 0)"
proof -
  let ?i = "length xs"
  note f = array_facts [OF ar] and small = index_small [OF n]
  have more: "sint (of_nat (Suc ?i) :: ULONG) = int (Suc ?i)" by (rule small_nat(2) [OF small])
  obtain a t where t: "cMemoryResize p h (of_nat (Suc ?i)) s = Some (a, t)"
    using resize_array [OF ok ar n] by blast
  have "store_element p h (of_nat ?i) q s =
      (if a = 0 then Some (FAILBREAK, t) else write_element p h (of_nat ?i) q (scast (of_nat (psize ty) :: UBYTE) * of_nat ?i) 0 t)"
    unfolding store_element_def Let_def of_nat_Suc_word using f more t by simp
  moreover have "append_element p h q s =
      (if a = 0 then Some (FAILBREAK, t) else write_element p h (of_nat ?i) q 0 0 t)"
    unfolding append_element_def Let_def using f more t by (simp add: of_nat_Suc_word)
  moreover have "write_element p h (of_nat ?i) q (scast (of_nat (psize ty) :: UBYTE) * of_nat ?i) 0 t =
      write_element p h (of_nat ?i) q 0 0 t"
    by (simp add: write_element_def cong: option.case_cong)
  ultimately have "append_element p h q s = store_element p h (of_nat ?i) q s" by simp
  moreover have "stored xs ?i v = xs @ [v]" by (simp add: stored_def)
  ultimately show ?thesis
    using store_beyond [OF ok ar p le_refl n v ap] by simp
qed

text \<open>The parameters of \<open>ARRAY_APPEND\<close>: the handle and the value.\<close>

definition append_args :: "vm \<Rightarrow> operand \<Rightarrow> operand \<Rightarrow> HANDLER \<Rightarrow> bool" where
  "append_args s a c h \<longleftrightarrow> code_at s (ObjectIp s) (enc a @ enc c) \<and> wf a \<and> wf c \<and> plain c \<and>
     operand_value load16 s a = Some h"

text \<open>C19: \<open>ARRAY_APPEND\<close> adds the value at the end of the array, or, if there is
  no memory, ends with \<open>FAILBREAK\<close>, the array being lost.\<close>

theorem array_append:
  assumes ok: "pool_ok s" and ar: "array_is s (ProgramId s) h ty xs" and args: "append_args s a c h"
    and n: "elem_off ty (Suc (length xs)) \<le> MAX_ARRAY_SIZE"
    and v: "value_of ty s c = Some v" and ap: "value_apart s h (refers s c (psize ty))"
  shows "\<exists>t. cMemoryArrayAppend s = Some t \<and> pool_ok t \<and>
    ObjectIp t = ObjectIp s + of_nat (length (enc a @ enc c)) \<and>
    (array_is t (ProgramId s) h ty (xs @ [v]) \<and> DispatchStatus t = DispatchStatus s \<or>
     pool t (ProgramId s) h = 0 \<and> DispatchStatus t = FAILBREAK)"
proof -
  have code: "code_at s (ObjectIp s) (enc a @ enc c)" and wf: "wf a" "wf c" and pc: "plain c"
    and h: "operand_value load16 s a = Some h"
    using args by (auto simp: append_args_def)
  obtain u where u: "get16 s = Some (h, u)" "regs_only s u" "ObjectIp u = ObjectIp s + of_nat (length (enc a))"
    using get16_exec [OF _ wf(1) h] code by (auto simp: code_at_append)
  have "code_at u (ObjectIp u) (enc c)" using code u(3) code_regs [OF u(2)] by (simp add: code_at_append)
  then obtain q r where q: "PrimParPointer u = Some (q, r)" "regs_only u r" "ObjectIp r = ObjectIp u + of_nat (length (enc c))"
      "ptr_value ty r q = value_of ty u c" "ptr_bytes ty q = refers u c (psize ty)"
    using plain_value [OF _ wf(2) pc] by blast
  have rr: "regs_only s r" by (rule regs_only_trans [OF u(2) q(2)])
  note w = writes_regs [OF rr, of "{}"]
  have val: "ptr_value ty r q = Some v" "ptr_bytes ty q = refers s c (psize ty)"
    using q(4,5) v value_of_same [OF sees_regs [OF u(2)] pc] refers_same [OF sees_regs [OF u(2)]] by simp_all
  have rap: "value_apart r h (ptr_bytes ty q)"
    using ap val(2) writes_pools [OF w] writesD(4) [OF w] by (simp add: value_apart_def pool_def)
  have "ProgramId s = ProgramId r" using writesD(4) [OF w] by simp
  then obtain D t where t: "append_element (ProgramId s) h q r = Some (D, t)" "pool_ok t" "heap_only r t"
      "D = NOBREAK \<and> array_is t (ProgramId s) h ty (xs @ [v]) \<or> D = FAILBREAK \<and> pool t (ProgramId s) h = 0"
    using append_element_exec [OF pool_ok_writes [OF w ok] array_regs [OF rr ar] _ n val(1) rap] by blast
  have "cMemoryArrayAppend s = Some (if D \<noteq> NOBREAK then SetDispatchStatus D t else t)"
    using u(1) q(1) t(1) by (simp add: cMemoryArrayAppend_def CurrentProgramId_def)
  then show ?thesis
    using t(2,4) heap_onlyD [OF t(3)] u(3) q(3) writesD(12) [OF w]
    by (auto simp: pool_ok_status set_status_fields add.assoc)
qed

subsection \<open>Reading, and access that fails\<close>

lemma local_value_sel:
  "local_value P8 s a = Some x \<Longrightarrow> \<exists>y. load8 s (PtrMem a) = Some y \<and> x = ucast y"
  "local_value P16 s a = Some x \<Longrightarrow> \<exists>y. load16 s (PtrMem a) = Some y \<and> x = ucast y"
  by auto

context framed_cell
begin

lemma put_var:
  assumes c: "code_at s (ObjectIp s) (enc p)" and wf: "wf p" and d: "operand_addr s p = Some d"
    and m: "span d size \<subseteq> dom (mem s)"
  shows "\<exists>t. par_put st x s = Some t \<and> writes (span d size) s t \<and> ld t (PtrMem d) = Some x \<and>
    ObjectIp t = ObjectIp s + of_nat (length (enc p))"
proof -
  obtain y where "ld s (PtrMem d) = Some y" using ld_mapped [OF m] by blast
  then obtain t where "par_put st x s = Some t" "wrote ld size d x (ObjectIp s + of_nat (length (enc p))) s t"
    using put_exec [OF c wf d] by blast
  then show ?thesis using wrote_writes [of ld size d x _ s t] by (auto simp: wrote_def)
qed

end

lemma get_element_exec:
  assumes ar: "array_is s p h ty xs" and i: "i < length xs"
    and c: "code_at s (ObjectIp s) (enc c)" and wf: "wf c" and d: "operand_addr s c = Some d"
    and m: "span d (psize ty) \<subseteq> dom (mem s)"
  shows "\<exists>t. get_element (ty_code ty) (pool s p h + DESCR_pArray) (of_nat i) s = Some (True, t) \<and>
    writes (span d (psize ty)) s t \<and> local_value ty t d = Some (xs ! i) \<and>
    ObjectIp t = ObjectIp s + of_nat (length (enc c))"
proof -
  have v: "local_value ty s (pool s p h + of_nat (elem_off ty i)) = Some (xs ! i)"
    using ar i by (simp add: array_is_def)
  show ?thesis
  proof (cases ty)
    case P8
    with v obtain y where y: "load8 s (PtrMem (pool s p h + DESCR_pArray + of_nat i)) = Some y" "xs ! i = ucast y"
      by (auto simp: elem_off_def DESCR_pArray_def add.assoc)
    with P8 f8.put_var [OF c wf d, of y] m show ?thesis by (auto simp: get_element_def data_type_defs)
  next
    case P16
    with v obtain y where y: "load16 s (PtrMem (pool s p h + DESCR_pArray + 2 * of_nat i)) = Some y" "xs ! i = ucast y"
      by (auto simp: elem_off_def DESCR_pArray_def add.assoc)
    with P16 f16.put_var [OF c wf d, of y] m show ?thesis by (auto simp: get_element_def data_type_defs)
  next
    case P32
    with v have y: "load32 s (PtrMem (pool s p h + DESCR_pArray + 4 * of_nat i)) = Some (xs ! i)"
      by (auto simp: elem_off_def DESCR_pArray_def add.assoc)
    with P32 f32.put_var [OF c wf d, of "xs ! i"] m show ?thesis by (auto simp: get_element_def data_type_defs)
  next
    case PF
    with v have y: "load32 s (PtrMem (pool s p h + DESCR_pArray + 4 * of_nat i)) = Some (xs ! i)"
      by (auto simp: elem_off_def DESCR_pArray_def add.assoc)
    with PF f32.put_var [OF c wf d, of "xs ! i"] m show ?thesis by (auto simp: get_element_def data_type_defs)
  qed
qed

text \<open>C20: \<open>ARRAY_READ\<close> at an index within the array stores the element in the
  variable its third parameter names and changes nothing else.\<close>

theorem array_read:
  assumes ar: "array_is s (ProgramId s) h ty xs" and args: "array_args s a b c h (of_nat i)" and i: "i < length xs"
    and d: "operand_addr s c = Some d" and m: "span d (psize ty) \<subseteq> dom (mem s)"
  shows "\<exists>t. cMemoryArrayRead s = Some t \<and> writes (span d (psize ty)) s t \<and> local_value ty t d = Some (xs ! i) \<and>
    ObjectIp t = ObjectIp s + of_nat (length (enc a @ enc b @ enc c))"
proof -
  obtain u w where run: "get16 s = Some (h, u)" "get32 u = Some (of_nat i, w)" and rw: "regs_only s w"
      and w: "code_at w (ObjectIp w) (enc c)" "ObjectIp w = ObjectIp s + of_nat (length (enc a @ enc b))"
    using handle_index_run [OF args] by blast
  have wf: "wf c" "numeric c" using args plain_numeric by (auto simp: array_args_def)
  note arw = array_regs [OF rw ar]
  note f = array_facts [OF arw]
  have dw: "operand_addr w c = Some d" "span d (psize ty) \<subseteq> dom (mem w)"
    using d m operand_addr_regs [OF wf(2) rw] by (simp_all add: regs_onlyD [OF rw])
  obtain t where t: "get_element (ty_code ty) (pool w (ProgramId s) h + DESCR_pArray) (of_nat i) w = Some (True, t)"
      "writes (span d (psize ty)) w t" "local_value ty t d = Some (xs ! i)" "ObjectIp t = ObjectIp w + of_nat (length (enc c))"
    using get_element_exec [OF arw i w(1) wf(1) dw] by blast
  have n: "sint (of_nat i :: ULONG) = int i" using small_nat(2) [of i] i f(4) by simp
  have "cMemoryArrayRead s = Some t"
    using run t(1) f i by (simp add: cMemoryArrayRead_def CurrentProgramId_def n)
  then show ?thesis
    using t(2-4) w(2) writes_trans [OF writes_regs [OF rw] t(2)] by (simp add: add.assoc)
qed

text \<open>What is not an element: no array, a negative index, or, for a read, an index at or
  beyond the end.\<close>

definition no_array :: "vm \<Rightarrow> HANDLER \<Rightarrow> DATA32 \<Rightarrow> bool" where
  "no_array s h i \<longleftrightarrow> cMemoryGetPointer (ProgramId s) h s = None \<or> sint i < 0"

definition no_element :: "vm \<Rightarrow> HANDLER \<Rightarrow> DATA32 \<Rightarrow> bool" where
  "no_element s h i \<longleftrightarrow> no_array s h i \<or>
     (\<exists>ty xs. array_is s (ProgramId s) h ty xs \<and> int (length xs) \<le> sint i)"

definition failed :: "vm \<Rightarrow> ULONG \<Rightarrow> vm option \<Rightarrow> bool" where
  "failed s ip r \<longleftrightarrow> (\<exists>t. r = Some t \<and> DispatchStatus t = FAILBREAK \<and> ObjectIp t = ip \<and> mem t = mem s \<and>
     Blocks t = Blocks s \<and> pPoolList t = pPoolList s)"

lemma advance_plain:
  assumes "code_at s (ObjectIp s) (enc c)" and "wf c" and "plain c"
  shows "PrimParAdvance s = Some (s\<lparr>ObjectIp := ObjectIp s + of_nat (length (enc c))\<rparr>)"
  using plain_decode [OF assms] pointer_advance by fastforce

lemma read_outside:
  assumes "no_element s h i" and rw: "regs_only s w"
  shows "(case cMemoryGetPointer (ProgramId s) h w of
      None \<Rightarrow> Some (False, w)
    | Some pTmp \<Rightarrow> do {
        inside \<leftarrow> (if 0 \<le> sint i then map_option (\<lambda>n. sint i < sint n) (Elements_of pTmp w) else Some False);
        if inside then do { ty \<leftarrow> Type_of pTmp w; get_element ty (pTmp + DESCR_pArray) i w } else Some (False, w)
      }) = Some (False, w)"
proof -
  have same: "cMemoryGetPointer (ProgramId s) h w = cMemoryGetPointer (ProgramId s) h s"
    by (simp add: cMemoryGetPointer_def pool_def MAX_PROGRAMS_def regs_onlyD [OF rw])
  show ?thesis
  proof (cases "no_array s h i")
    case True
    then show ?thesis by (auto simp: same no_array_def split: option.split)
  next
    case False
    then obtain ty xs where ar: "array_is s (ProgramId s) h ty xs" "int (length xs) \<le> sint i"
      using assms(1) by (auto simp: no_element_def)
    then show ?thesis using array_facts [OF array_regs [OF rw ar(1)]] by simp
  qed
qed

text \<open>C21: a write with a handle that holds no array or a negative index, and a
  read of what is not an element, end with \<open>FAILBREAK\<close> behind their parameters; the memory,
  the blocks and the handles stay as they are.\<close>

theorem array_fails:
  assumes args: "array_args s a b c h i"
  defines "ip \<equiv> ObjectIp s + of_nat (length (enc a @ enc b @ enc c))"
  shows "(no_array s h i \<longrightarrow> failed s ip (cMemoryArrayWrite s)) \<and> (no_element s h i \<longrightarrow> failed s ip (cMemoryArrayRead s))"
proof (intro conjI impI)
  obtain u w where run: "get16 s = Some (h, u)" "get32 u = Some (i, w)" and rw: "regs_only s w"
      and w: "code_at w (ObjectIp w) (enc c)" "ObjectIp w = ObjectIp s + of_nat (length (enc a @ enc b))"
    using handle_index_run [OF args] by blast
  have c: "wf c" "plain c" using args by (auto simp: array_args_def)
  obtain q r where q: "PrimParPointer w = Some (q, r)" "regs_only w r" "ObjectIp r = ObjectIp w + of_nat (length (enc c))"
    using plain_decode [OF w(1) c] by blast
  have same: "cMemoryGetPointer (ProgramId s) h t = cMemoryGetPointer (ProgramId s) h s" if "regs_only s t" for t
    by (simp add: cMemoryGetPointer_def pool_def MAX_PROGRAMS_def regs_onlyD [OF that])
  note rr = regs_only_trans [OF rw q(2)]
  show "failed s ip (cMemoryArrayWrite s)" if bad: "no_array s h i"
  proof -
    have "store_element (ProgramId s) h i q r = Some (FAILBREAK, r)"
      using bad by (auto simp: store_element_def same [OF rr] no_array_def split: option.split)
    then have "cMemoryArrayWrite s = Some (SetDispatchStatus FAILBREAK r)"
      using run q(1) by (simp add: cMemoryArrayWrite_def CurrentProgramId_def)
    then show ?thesis
      using q(3) w(2) writes_pools [OF writes_regs [OF rr, of "{}"]]
      by (simp add: failed_def ip_def set_status_fields regs_onlyD [OF rr] add.assoc)
  qed
  show "failed s ip (cMemoryArrayRead s)" if bad: "no_element s h i"
  proof -
    have "cMemoryArrayRead s = Some (SetDispatchStatus FAILBREAK (w\<lparr>ObjectIp := ObjectIp w + of_nat (length (enc c))\<rparr>))"
      using run advance_plain [OF w(1) c] read_outside [OF bad rw] by (simp add: cMemoryArrayRead_def CurrentProgramId_def)
    then show ?thesis
      using w(2) writes_pools [OF writes_regs [OF rw, of "{}"]]
      by (simp add: failed_def ip_def set_status_fields regs_onlyD [OF rw] add.assoc)
  qed
qed

subsection \<open>Creating arrays\<close>

lemma alloc_mem:
  assumes "cMemoryAlloc p ty n s = Some (r, h, t)" and "x \<in> dom (mem s)"
  shows "mem t x = mem s x"
proof -
  have r: "mem v x = mem s x" if "cMemoryRealloc 0 n s = Some (k, a, v)" for k a v
  proof -
    have "unat (x - b) < unat n \<Longrightarrow> \<not> fits s b (unat n)" for b
      using assms(2) by (auto simp: fits_def dest!: spec [of _ "unat (x - b)"])
    with that show ?thesis
      by (auto simp: cMemoryRealloc_def realloc_def free_def map_block_def Let_def bind_conv split: if_splits)
  qed
  show ?thesis
    using assms(1) by (auto simp: cMemoryAlloc_def set_pool_frame Let_def bind_conv r split: if_splits)
qed

lemma alloc_fresh:
  assumes "cMemoryAlloc p ty n s = Some (Some a, h, t)"
  shows "span a (unat n) \<inter> dom (mem s) = {}"
proof -
  have "fits s a (unat n)" if "cMemoryRealloc 0 n s = Some (OK, a, v)" for v
    using that by (auto simp: cMemoryRealloc_def realloc_def free_def Let_def bind_conv split: if_splits)
  then have "fits s a (unat n)"
    using assms by (auto simp: cMemoryAlloc_def Let_def bind_conv split: if_splits)
  then show ?thesis by (auto simp: fits_def span_def)
qed

context framed_cell
begin

lemma store_exec:
  assumes "span d size \<subseteq> dom (mem s)"
  shows "\<exists>t. st s (PtrMem d) x = Some t \<and> writes (span d size) s t \<and> t = s\<lparr>mem := mem t\<rparr> \<and> ld t (PtrMem d) = Some x"
proof -
  obtain y where "ld s (PtrMem d) = Some y" using ld_mapped [OF assms] by blast
  then obtain t where t: "st s (PtrMem d) x = Some t" using st_ok by blast
  obtain m where "t = s\<lparr>mem := m\<rparr>" "\<forall>b. b \<notin> span d size \<longrightarrow> m b = mem s b" "dom m = dom (mem s)"
    using st_mem [OF t] by blast
  then show ?thesis using t st_ld [OF t] by (auto simp: writes_def)
qed

end

text \<open>The descriptor of a new array.\<close>

definition described :: "vm \<Rightarrow> ULONG \<Rightarrow> UBYTE \<Rightarrow> UBYTE \<Rightarrow> DATA32 \<Rightarrow> bool" where
  "described s a ty es n \<longleftrightarrow> Type_of a s = Some ty \<and> ElementSize_of a s = Some es \<and> Elements_of a s = Some n"

lemma descr_spans: "span a 12 \<inter> R = {} \<Longrightarrow> a \<notin> R \<and> a + 8 \<notin> R \<and> a + 9 \<notin> R \<and> span a 4 \<inter> R = {}"
  using span_offset_subset [of 0 4 12 a] span_offset_subset [of 0 1 12 a] span_offset_subset [of 8 1 12 a] span_offset_subset [of 9 1 12 a]
  by (auto simp: span_1)

lemma described_writes:
  assumes w: "writes R s t" and "span a 12 \<inter> R = {}"
  shows "described t a ty es n \<longleftrightarrow> described s a ty es n"
proof -
  note o = descr_spans [OF assms(2)]
  have "load32 t (PtrMem a) = load32 s (PtrMem a)"
    using o writes_mem [OF w] by (intro f32.ld_span) auto
  then show ?thesis
    using o writes_mem [OF w]
    by (simp add: described_def Type_of_def ElementSize_of_def Elements_of_def DESCR_Type_def DESCR_ElementSize_def DESCR_Elements_def)
qed

lemma describe_exec:
  assumes m: "span a 12 \<subseteq> dom (mem s)"
  shows "\<exists>u v t. store8 s (PtrMem (a + DESCR_Type)) ty = Some u \<and>
    store8 u (PtrMem (a + DESCR_ElementSize)) es = Some v \<and> store32 v (PtrMem (a + DESCR_Elements)) n = Some t \<and>
    writes (span a 12) s t \<and> t = s\<lparr>mem := mem t\<rparr> \<and> described t a ty es n"
proof -
  note sub = span_offset_subset [of 0 4 12 a] span_offset_subset [of 8 1 12 a] span_offset_subset [of 9 1 12 a]
  have part: "span (a + 9) 1 \<subseteq> dom (mem s)" "span (a + 8) 1 \<subseteq> dom (mem s)" "span a 4 \<subseteq> dom (mem s)"
    using m sub by simp_all
  obtain u where u: "store8 s (PtrMem (a + 9)) ty = Some u" "writes (span (a + 9) 1) s u" "u = s\<lparr>mem := mem u\<rparr>"
      "load8 u (PtrMem (a + 9)) = Some ty"
    using f8.store_exec [OF part(1), of ty] by (elim exE conjE) (rule that)
  obtain v where v: "store8 u (PtrMem (a + 8)) es = Some v" "writes (span (a + 8) 1) u v" "v = u\<lparr>mem := mem v\<rparr>"
      "load8 v (PtrMem (a + 8)) = Some es"
    using f8.store_exec [OF part(2) [folded writesD(11) [OF u(2)]], of es] by (elim exE conjE) (rule that)
  obtain t where t: "store32 v (PtrMem a) n = Some t" "writes (span a 4) v t" "t = v\<lparr>mem := mem t\<rparr>"
      "load32 t (PtrMem a) = Some n"
    using f32.store_exec [OF part(3) [folded writesD(11) [OF u(2)], folded writesD(11) [OF v(2)]], of n] by (elim exE conjE) (rule that)
  have "writes (span a 12) s t"
    using writes_trans [OF writes_trans [OF writes_mono [OF u(2)] writes_mono [OF v(2)]] writes_mono [OF t(2)]] sub by simp
  moreover have "t = s\<lparr>mem := mem t\<rparr>"
    by (subst t(3), subst v(3), subst u(3)) simp
  moreover have "load8 t (PtrMem (a + 9)) = Some ty" "load8 t (PtrMem (a + 8)) = Some es"
    using u(4) v(4) writes_mem [OF v(2), of "a + 9"] writes_mem [OF t(2), of "a + 9"] writes_mem [OF t(2), of "a + 8"]
      span_offsets [of 8 1 0 4 a] span_offsets [of 9 1 0 4 a]
    by (auto simp: span_1)
  ultimately show ?thesis
    using u(1) v(1) t(1,4)
    by (simp add: DESCR_Type_def DESCR_ElementSize_def DESCR_Elements_def described_def Type_of_def ElementSize_of_def Elements_of_def)
qed

text \<open>The parameters of \<open>CREATE\<close>, after the sub code: the number of elements and the variable
  for the handle.\<close>

definition create_args :: "vm \<Rightarrow> operand \<Rightarrow> operand \<Rightarrow> DATA32 \<Rightarrow> ULONG \<Rightarrow> bool" where
  "create_args s a b n d \<longleftrightarrow> code_at s (ObjectIp s) (enc a @ enc b) \<and> wf a \<and> wf b \<and> plain b \<and>
     operand_value load32 s a = Some n \<and> operand_addr s b = Some d \<and> span d 2 \<subseteq> dom (mem s)"

definition array_bytes_of :: "ptype \<Rightarrow> DATA32 \<Rightarrow> ULONG" where
  "array_bytes_of ty n = n * of_nat (psize ty) + sizeof_DESCR"

lemma code_at_dom: "code_at s a bs \<Longrightarrow> span a (length bs) \<subseteq> dom (mem s)"
  by (induction bs arbitrary: a) (auto simp: span_shift)

lemma code_at_mem: "(\<And>x. x \<in> span a (length bs) \<Longrightarrow> mem t x = mem s x) \<Longrightarrow> code_at s a bs \<Longrightarrow> code_at t a bs"
  by (induction bs arbitrary: a) (auto simp: span_shift)

lemma plain_addr:
  "plain c \<Longrightarrow> pGlobal t = pGlobal s \<Longrightarrow> ObjectLocal t = ObjectLocal s \<Longrightarrow> operand_addr t c = operand_addr s c"
proof (cases c)
  case (Var sc w i)
  then show "pGlobal t = pGlobal s \<Longrightarrow> ObjectLocal t = ObjectLocal s \<Longrightarrow> operand_addr t c = operand_addr s c"
    by (cases sc) (simp_all add: operand_addr_def)
qed (simp_all add: operand_addr_def)

text \<open>What \<open>CREATE\<close> leaves: a block of the computed size under a handle that was free, with its
  descriptor, or nothing.\<close>

definition created :: "vm \<Rightarrow> ptype \<Rightarrow> DATA32 \<Rightarrow> HANDLER \<Rightarrow> vm \<Rightarrow> bool" where
  "created s ty n h t \<longleftrightarrow> ProgramId s < MAX_PROGRAMS s \<and> handle_ok h \<and> pool s (ProgramId s) h = 0 \<and> pool t (ProgramId s) h \<noteq> 0 \<and>
     Size (pPoolList t (ProgramId s) h) = array_bytes_of ty n \<and>
     Blocks t (pool t (ProgramId s) h) = Some (unat (array_bytes_of ty n)) \<and>
     described t (pool t (ProgramId s) h) (ty_code ty) (of_nat (psize ty)) n"

lemma create_exec:
  assumes ok: "pool_ok s" and args: "create_args s a b n d" and sz: "12 \<le> unat (array_bytes_of ty n)"
    and n: "ty = P8 \<Longrightarrow> 0 \<le> sint n"
  shows "\<exists>D t h. array_create (ty_code ty) (of_nat (psize ty)) (ProgramId s) s = Some (D, t) \<and> pool_ok t \<and>
    ObjectIp t = ObjectIp s + of_nat (length (enc a @ enc b)) \<and> Consts t = Consts s \<and> load16 t (PtrMem d) = Some h \<and>
    (D = NOBREAK \<and> created s ty n h t \<or>
     D = FAILBREAK \<and> h = - 1 \<and> Blocks t = Blocks s \<and> pPoolList t = pPoolList s)"
proof -
  have code: "code_at s (ObjectIp s) (enc a @ enc b)" and wf: "wf a" "wf b" and pb: "plain b"
    and na: "operand_value load32 s a = Some n" and d: "operand_addr s b = Some d" and dm: "span d 2 \<subseteq> dom (mem s)"
    using args by (auto simp: create_args_def)
  let ?N = "array_bytes_of ty n" and ?p = "ProgramId s"
  obtain u where u: "get32 s = Some (n, u)" "past a s u"
    using c32.get_exec [OF _ wf(1) na] code by (auto simp: code_at_append)
  then have ru: "regs_only s u" and uip: "ObjectIp u = ObjectIp s + of_nat (length (enc a))" by (auto simp: past_def)
  note wu = writes_regs [OF ru, of "{}"]
  have cu: "code_at u (ObjectIp u) (enc b)" using code uip by (simp add: code_at_append code_regs [OF ru])
  have mu: "mem u = mem s" "pool_ok u" "pPoolList u = pPoolList s" "Blocks u = Blocks s" "Consts u = Consts s"
    "pGlobal u = pGlobal s" "ObjectLocal u = ObjectLocal s"
    using regs_onlyD [OF ru] pool_ok_writes [OF wu ok] writes_pools [OF wu] by simp_all
  have size: "(if ty_code ty = DATA_8 \<and> sint n < MIN_ARRAY_ELEMENTS then word_of_int MIN_ARRAY_ELEMENTS else n) = n"
    using n by (cases ty) (simp_all add: MIN_ARRAY_ELEMENTS_def data_type_defs)
  have put: "\<exists>t. put16 h v = Some t \<and> writes (span d 2) v t \<and> load16 t (PtrMem d) = Some h \<and>
      ObjectIp t = ObjectIp s + of_nat (length (enc a @ enc b))"
    if v: "\<And>x. x \<in> dom (mem s) \<Longrightarrow> mem v x = mem s x" "ObjectIp v = ObjectIp u" "pGlobal v = pGlobal s" "ObjectLocal v = ObjectLocal s"
    for v h
  proof -
    have "code_at v (ObjectIp v) (enc b)"
      using code_at_mem [OF _ cu, of v] code_at_dom [OF cu] v(1) mu(1) by (auto simp: v(2))
    moreover have "operand_addr v b = Some d" using plain_addr [OF pb v(3,4)] d by simp
    moreover have "span d 2 \<subseteq> dom (mem v)" using dm v(1) by fastforce
    ultimately show ?thesis using f16.put_var [OF _ wf(2), of v d h] v(2) uip by (auto simp: add.assoc)
  qed
  from mu(2) show ?thesis
  proof (cases rule: alloc_cases [of u ?p POOL_TYPE_MEMORY ?N])
    case (refused t)
    have same: "ObjectIp t = ObjectIp u" "pGlobal t = pGlobal u" "ObjectLocal t = ObjectLocal u"
      by (subst refused(7), simp)+
    obtain v where v: "put16 (- 1) t = Some v" "writes (span d 2) t v" "load16 v (PtrMem d) = Some (- 1)"
        "ObjectIp v = ObjectIp s + of_nat (length (enc a @ enc b))"
      using put [of t "- 1"] same refused(5) mu by auto
    have "array_create (ty_code ty) (of_nat (psize ty)) ?p s = Some (FAILBREAK, v)"
      using u(1) refused(1) v(1) unfolding array_create_def by (simp add: size array_bytes_of_def)
    then show ?thesis
      using v pool_ok_writes [OF v(2) refused(2)] writes_pools [OF v(2)] refused(3,4,6) mu writesD(3) [OF v(2)] by auto
  next
    case (allocated q h t)
    have same: "ObjectIp t = ObjectIp u" "pGlobal t = pGlobal u" "ObjectLocal t = ObjectLocal u"
      by (subst allocated(12), simp)+
    have kept: "mem t x = mem s x" if "x \<in> dom (mem s)" for x
      using alloc_mem [OF allocated(1)] that mu(1) by simp
    have blk: "Blocks t q = Some (unat ?N)" using allocated(9) by simp
    have fresh: "span q (unat ?N) \<inter> dom (mem s) = {}" using alloc_fresh [OF allocated(1)] mu(1) by simp
    have head: "span q 12 \<subseteq> span q (unat ?N)" using span_offset_subset [of 0 12 "unat ?N" q] sz by simp
    then have m12: "span q 12 \<subseteq> dom (mem t)" using heap_okD(4) [OF pool_ok_heap [OF allocated(7)] blk] by blast
    then obtain v1 v2 v where v: "store8 t (PtrMem (q + DESCR_Type)) (ty_code ty) = Some v1"
        "store8 v1 (PtrMem (q + DESCR_ElementSize)) (of_nat (psize ty)) = Some v2"
        "store32 v2 (PtrMem (q + DESCR_Elements)) n = Some v" "writes (span q 12) t v" "v = t\<lparr>mem := mem v\<rparr>"
        "described v q (ty_code ty) (of_nat (psize ty)) n"
      using describe_exec [OF m12, of "ty_code ty" "of_nat (psize ty)" n] by (elim exE conjE) (rule that)
    have vs: "ObjectIp v = ObjectIp u" "pGlobal v = pGlobal s" "ObjectLocal v = ObjectLocal s"
      by (subst v(5), simp add: same mu)+
    have mv: "mem v x = mem s x" if "x \<in> dom (mem s)" for x
    proof -
      have "x \<notin> span q 12" using fresh head that by auto
      then show ?thesis using writes_mem [OF v(4)] kept [OF that] by metis
    qed
    have "\<exists>r. put16 h v = Some r \<and> writes (span d 2) v r \<and> load16 r (PtrMem d) = Some h \<and>
        ObjectIp r = ObjectIp s + of_nat (length (enc a @ enc b))"
      by (rule put) (fact mv vs)+
    then obtain r where r: "put16 h v = Some r" "writes (span d 2) v r" "load16 r (PtrMem d) = Some h"
        "ObjectIp r = ObjectIp s + of_nat (length (enc a @ enc b))"
      by (elim exE conjE) (rule that)
    have "span q 12 \<inter> span d 2 = {}" using fresh head dm by blast
    then have "described r q (ty_code ty) (of_nat (psize ty)) n" using described_writes [OF r(2)] v(6) by simp
    moreover have lists: "pPoolList r = pPoolList t" "Blocks r = Blocks t" "Consts r = Consts s" "pool_ok r"
      using writes_pools [OF r(2)] writes_pools [OF v(4)] writesD(3) [OF r(2)] writesD(3) [OF v(4)] allocated(11) mu(5)
        pool_ok_writes [OF r(2) pool_ok_writes [OF v(4) allocated(7)]] by metis+
    moreover have run: "array_create (ty_code ty) (of_nat (psize ty)) ?p s = Some (NOBREAK, r)"
    proof -
      have "ucast (of_nat (psize ty) :: ULONG) = (of_nat (psize ty) :: UBYTE)" by (cases ty) simp_all
      then show ?thesis
        using u(1) allocated(1) v(1-3) r(1) unfolding array_create_def by (simp add: size array_bytes_of_def)
    qed
    moreover have "pool t ?p h = q" "Size (pPoolList t ?p h) = ?N" by (simp_all add: pool_def allocated(8))
    moreover have "pool s ?p h = 0" "?p < MAX_PROGRAMS s"
      using allocated(3,5) by (simp_all add: pool_def MAX_PROGRAMS_def mu)
    ultimately have "created s ty n h r"
      using allocated(2,4) blk by (simp add: created_def pool_def)
    with run lists r(3,4) show ?thesis by (intro exI conjI disjI1) (assumption | rule refl)+
  qed
qed

text \<open>\<open>CREATE\<close> of \<open>n\<close> elements gives an array of that length under a handle
  that was free and stores the handle, or, without memory, stores the handle -1 and ends with
  \<open>FAILBREAK\<close>.\<close>

theorem array_create_new:
  assumes ok: "pool_ok s" and args: "create_args s a b (of_nat n) d" and n: "elem_off ty n \<le> MAX_ARRAY_SIZE"
  shows "\<exists>D t h. array_create (ty_code ty) (of_nat (psize ty)) (ProgramId s) s = Some (D, t) \<and> pool_ok t \<and>
    ObjectIp t = ObjectIp s + of_nat (length (enc a @ enc b)) \<and> load16 t (PtrMem d) = Some h \<and>
    (D = NOBREAK \<and> pool s (ProgramId s) h = 0 \<and> (\<exists>xs. array_is t (ProgramId s) h ty xs \<and> length xs = n) \<or>
     D = FAILBREAK \<and> h = - 1 \<and> pPoolList t = pPoolList s)"
proof -
  have size: "array_bytes_of ty (of_nat n) = of_nat (elem_off ty n)"
    by (simp add: array_bytes_of_def elem_off_def sizeof_DESCR_def mult.commute)
  have lt: "elem_off ty n < 2 ^ 31" using n by (simp add: MAX_ARRAY_SIZE_def)
  then have u: "unat (array_bytes_of ty (of_nat n)) = elem_off ty n" unfolding size by (simp add: unat_of_nat)
  then have "12 \<le> unat (array_bytes_of ty (of_nat n))" by (simp add: elem_off_def)
  moreover have "0 \<le> sint (of_nat n :: ULONG)" using small_nat(2) [of n] elem_off_ge [of n ty] lt by simp
  ultimately obtain D t h where t: "array_create (ty_code ty) (of_nat (psize ty)) (ProgramId s) s = Some (D, t)" "pool_ok t"
      "ObjectIp t = ObjectIp s + of_nat (length (enc a @ enc b))" "load16 t (PtrMem d) = Some h" "Consts t = Consts s"
      "D = NOBREAK \<and> created s ty (of_nat n) h t \<or> D = FAILBREAK \<and> h = - 1 \<and> Blocks t = Blocks s \<and> pPoolList t = pPoolList s"
    using create_exec [OF ok args] by metis
  have "\<exists>xs. array_is t (ProgramId s) h ty xs \<and> length xs = n" if c: "created s ty (of_nat n) h t"
  proof -
    let ?q = "pool t (ProgramId s) h"
    define xs where "xs = map (\<lambda>i. the (local_value ty t (?q + of_nat (elem_off ty i)))) [0..<n]"
    have "span ?q (elem_off ty n) \<subseteq> dom (mem t)"
      using c heap_okD(4) [OF pool_ok_heap [OF t(2)]] u by (simp add: created_def)
    then have "\<exists>x. local_value ty t (?q + of_nat (elem_off ty i)) = Some x" if "i < n" for i
      using local_value_mapped span_offset_subset [OF elem_off_mono [OF that]] by blast
    then have "local_value ty t (?q + of_nat (elem_off ty i)) = Some (xs ! i)" if "i < n" for i
      using that by (fastforce simp: xs_def)
    moreover have "length xs = n" by (simp add: xs_def)
    ultimately have "array_is t (ProgramId s) h ty xs"
      using c n u t(5) by (simp add: array_is_def created_def described_def MAX_PROGRAMS_def)
    with \<open>length xs = n\<close> show ?thesis by blast
  qed
  with t show ?thesis by (auto simp: created_def)
qed

text \<open>The allocator grants a request if a handle is free and there is room at the address it
  proposes.\<close>

definition room_for :: "vm \<Rightarrow> nat \<Rightarrow> bool" where
  "room_for s n \<longleftrightarrow> fits s (AllocAddr s (AllocNo s)) n"

lemma alloc_granted:
  assumes "p < MAX_PROGRAMS s" "handle_ok h" "pool s p h = 0" "0 < n" "unat n \<le> MAX_ARRAY_SIZE" "room_for s (unat n)"
  shows "\<exists>a k t. cMemoryAlloc p ty n s = Some (Some a, k, t)"
proof -
  let ?P = "\<lambda>h. pool s p h = 0"
  have h: "unat h < MAX_HANDLES" "?P (of_nat (unat h))" using assms(2,3) by (simp_all add: handle_ok_nat)
  have "find_handle ?P 0 < MAX_HANDLES"
    using find_handle_first [of 0 "unat h" ?P] find_handle_le [of 0 ?P] h by (cases "unat h < find_handle ?P 0") auto
  moreover have "AllocAddr s (AllocNo s) \<noteq> 0" using assms(6) by (simp add: room_for_def fits_def)
  ultimately show ?thesis
    using assms unfolding room_for_def by (simp add: cMemoryAlloc_def cMemoryRealloc_def realloc_def free_def Let_def)
qed

text \<open>C22: the size \<open>CREATE\<close> computes wraps around. Asked for a number of 16-bit or wider
  elements, other than none, whose size in bytes is a multiple of 2^32 - 2^30 elements of 32 bits,
  say - it allocates just the 12 bytes of the descriptor and answers \<open>NOBREAK\<close> with the new
  handle, provided a handle is free and the allocator has room for 12 bytes. The descriptor says that the
  array has all the elements.\<close>

theorem array_create_short:
  assumes ok: "pool_ok s" and args: "create_args s a b n d" and wrap: "n * of_nat (psize ty) = 0"
    and ty: "ty \<noteq> P8" and n: "n \<noteq> 0"
    and free: "ProgramId s < MAX_PROGRAMS s" "handle_ok h0" "pool s (ProgramId s) h0 = 0" and room: "room_for s 12"
  shows "2 ^ 32 \<le> unat n * psize ty \<and>
    (\<exists>t h. array_create (ty_code ty) (of_nat (psize ty)) (ProgramId s) s = Some (NOBREAK, t) \<and>
       load16 t (PtrMem d) = Some h \<and> pool s (ProgramId s) h = 0 \<and>
       Blocks t (pool t (ProgramId s) h) = Some 12 \<and> Elements_of (pool t (ProgramId s) h) t = Some n)"
proof -
  have size: "array_bytes_of ty n = 12" using wrap by (simp add: array_bytes_of_def sizeof_DESCR_def)
  have "12 \<le> unat (array_bytes_of ty n)" by (simp add: size)
  with ty obtain D t h where t: "array_create (ty_code ty) (of_nat (psize ty)) (ProgramId s) s = Some (D, t)"
      "load16 t (PtrMem d) = Some h" "D = NOBREAK \<and> created s ty n h t \<or> D = FAILBREAK"
    using create_exec [OF ok args, of ty] by blast
  obtain u where u: "get32 s = Some (n, u)" "past a s u"
    using c32.get_exec [of s a n] args by (auto simp: create_args_def code_at_append)
  then have ru: "regs_only s u" by (auto simp: past_def)
  then have "AllocAddr u = AllocAddr s" "AllocNo u = AllocNo s"
    unfolding regs_only_def by (cases s; cases u; simp)+
  then have "room_for u 12" "pPoolList u = pPoolList s" "Consts u = Consts s"
    using room regs_onlyD [OF ru] by (simp_all add: room_for_def fits_def)
  then have "\<exists>q k v. cMemoryAlloc (ProgramId s) POOL_TYPE_MEMORY 12 u = Some (Some q, k, v)"
    using free by (intro alloc_granted) (simp_all add: MAX_PROGRAMS_def pool_def MAX_ARRAY_SIZE_def)
  moreover have "(if ty_code ty = DATA_8 \<and> sint n < MIN_ARRAY_ELEMENTS then word_of_int MIN_ARRAY_ELEMENTS else n) = n"
    using ty by (cases ty) (simp_all add: data_type_defs)
  ultimately have "D = NOBREAK"
    using t(1) u(1) size by (auto simp: array_create_def array_bytes_of_def bind_conv)
  moreover have "2 ^ 32 \<le> unat n * psize ty"
  proof (rule ccontr)
    assume "\<not> 2 ^ 32 \<le> unat n * psize ty"
    then have "unat (n * of_nat (psize ty)) = unat n * psize ty"
      by (cases ty) (simp_all add: unat_mult_lem [THEN iffD1])
    with wrap n show False by (cases ty) (auto simp: unat_eq_0)
  qed
  ultimately show ?thesis using t by (auto simp: created_def described_def size)
qed

subsection \<open>A machine with an array\<close>

text \<open>Handle 0 of program 1 holds the 8-bit array of the elements 7 and 9.\<close>

definition sample_array :: "UBYTE list \<Rightarrow> vm" where
  "sample_array code = (sample_vm code)\<lparr>
     mem := (\<lambda>x. if unat (x - 0x10000) < 14 then Some ([2, 0, 0, 0, 0, 0, 0, 0, 1, 0, 0, 0, 7, 9] ! unat (x - 0x10000))
                 else sample_mem code x),
     Blocks := [0x10000 \<mapsto> 14], AllocNo := 1,
     pPoolList := (\<lambda>p h. if p = 1 \<and> h = 0 then \<lparr>pPool = 0x10000, Size = 14, PoolType = POOL_TYPE_MEMORY\<rparr>
                         else \<lparr>pPool = 0, Size = 0, PoolType = 0\<rparr>)\<rparr>"

lemma sample_array_sel [simp]:
  "Consts (sample_array c) = sample_consts" "ProgramId (sample_array c) = 1" "ObjectIp (sample_array c) = 0x100"
  "pGlobal (sample_array c) = 0x1000" "Blocks (sample_array c) = [0x10000 \<mapsto> 14]"
  "pool (sample_array c) 1 0 = 0x10000"
  by (simp_all add: sample_array_def pool_def)

lemma sample_array_ok: "pool_ok (sample_array c)"
proof -
  have "span 0x10000 14 \<subseteq> dom (mem (sample_array c))"
    by (auto simp: sample_array_def span_def unat_of_nat)
  moreover have "pool (sample_array c) p h = (if p = 1 \<and> h = 0 then 0x10000 else 0)" for p h
    by (simp add: pool_def sample_array_def)
  ultimately show ?thesis
    by (auto simp: pool_ok_def heap_ok_def sample_array_def handle_ok_def MAX_HANDLES_def MAX_PROGRAMS_def split: if_splits)
qed

lemma sample_array_is: "array_is (sample_array c) (ProgramId (sample_array c)) 0 P8 [7, 9]"
proof -
  have "Elements_of 0x10000 (sample_array c) = Some 2" "ElementSize_of 0x10000 (sample_array c) = Some 1"
      "Type_of 0x10000 (sample_array c) = Some DATA_8"
    by (simp_all add: Elements_of_def ElementSize_of_def Type_of_def load32_def layout_defs sample_array_def data_type_defs)
  moreover have "mem (sample_array c) 0x1000C = Some 7" "mem (sample_array c) 0x1000D = Some 9"
    by (simp_all add: sample_array_def)
  then have "local_value P8 (sample_array c) (0x10000 + of_nat (elem_off P8 i)) = Some ([7, 9] ! i)" if "i < 2" for i
    using that less_2_cases [OF that] by (auto simp: elem_off_def)
  moreover have "Size (pPoolList (sample_array c) 1 0) = 14" by (simp add: sample_array_def)
  ultimately show ?thesis
    by (simp add: array_is_def handle_ok_def MAX_HANDLES_def MAX_PROGRAMS_def MAX_ARRAY_SIZE_def)
      (simp add: elem_off_def)
qed

lemma minus_one_byte: "(ucast (- 1 :: ULONG) :: UBYTE) AND 63 = 63"
proof -
  have "(ucast (- 1 :: ULONG) :: UBYTE) = - 1" by (rule bit_word_eqI) (simp add: bit_simps)
  then show ?thesis by simp
qed

lemma sample_array_args:
  "array_args (sample_array [0, 1, 5]) (Const W0 0) (Const W0 1) (Const W0 5) 0 (of_nat 1)"
  "array_args (sample_array [0, 1, 0x60]) (Const W0 0) (Const W0 1) (Var Global W0 0) 0 (of_nat 1)"
  "array_args (sample_array [0, 63, 0x60]) (Const W0 0) (Const W0 (- 1)) (Var Global W0 0) 0 (- 1)"
  "append_args (sample_array [0, 5]) (Const W0 0) (Const W0 5) 0"
  by (simp_all add: array_args_def append_args_def LC0_def GV0_def primpar_defs byte_of_def operand_value_def
      c16.ld_value c32.ld_value sample_array_def sample_mem_def minus_one_byte)

theorem array_write_witness:
  "\<exists>t. cMemoryArrayWrite (sample_array [0, 1, 5]) = Some t \<and> array_is t 1 0 P8 [7, 5]"
  using array_write [OF sample_array_ok sample_array_is sample_array_args(1), of 5]
  by (auto simp: elem_off_def MAX_ARRAY_SIZE_def operand_value_def c8.ld_value value_apart_def refers_def stored_def byte_of_def)

theorem array_append_witness:
  "\<exists>t. cMemoryArrayAppend (sample_array [0, 5]) = Some t \<and>
    (array_is t 1 0 P8 [7, 9, 5] \<or> DispatchStatus t = FAILBREAK)"
  using array_append [OF sample_array_ok sample_array_is sample_array_args(4), of 5]
  by (auto simp: elem_off_def MAX_ARRAY_SIZE_def operand_value_def c8.ld_value value_apart_def refers_def byte_of_def)

theorem array_read_witness:
  "\<exists>t. cMemoryArrayRead (sample_array [0, 1, 0x60]) = Some t \<and> local_value P8 t 0x1000 = Some 9"
proof -
  have "operand_addr (sample_array [0, 1, 0x60]) (Var Global W0 0) = Some 0x1000"
    by (simp add: operand_addr_def)
  moreover have "span 0x1000 (psize P8) \<subseteq> dom (mem (sample_array [0, 1, 0x60]))"
    by (simp add: span_1 sample_array_def sample_mem_def domIff)
  ultimately show ?thesis
    using array_read [OF sample_array_is sample_array_args(2), of "0x1000"] by auto
qed

theorem array_fails_witness:
  "\<exists>t. cMemoryArrayRead (sample_array [0, 63, 0x60]) = Some t \<and> DispatchStatus t = FAILBREAK"
  using array_fails [OF sample_array_args(3)] by (auto simp: no_element_def no_array_def failed_def)

lemma sample_create_args:
  "create_args (sample_array [2, 0x60]) (Const W0 2) (Var Global W0 0) (of_nat 2) 0x1000"
  "create_args (sample_array [0x83, 0, 0, 0, 0x40, 0x60]) (Const W4 0x40000000) (Var Global W0 0) 0x40000000 0x1000"
  by (simp_all add: create_args_def LC0_def LC4_def GV0_def primpar_defs byte_of_def operand_value_def c32.ld_value
      operand_addr_def span_2 sample_array_def sample_mem_def domIff)

theorem array_create_new_witness:
  "\<exists>D t. array_create DATA_16 2 1 (sample_array [2, 0x60]) = Some (D, t) \<and> pool_ok t"
  using array_create_new [OF sample_array_ok sample_create_args(1), of P16]
  by (auto simp: elem_off_def MAX_ARRAY_SIZE_def)

theorem array_create_short_witness:
  "\<exists>t h. array_create DATA_32 4 1 (sample_array [0x83, 0, 0, 0, 0x40, 0x60]) = Some (NOBREAK, t) \<and>
    load16 t (PtrMem 0x1000) = Some h \<and>
    Blocks t (pool t 1 h) = Some 12 \<and> Elements_of (pool t 1 h) t = Some 0x40000000"
proof -
  let ?s = "sample_array [0x83, 0, 0, 0, 0x40, 0x60]"
  have "AllocAddr ?s (AllocNo ?s) = 0x11000" by (simp add: sample_array_def)
  moreover have "mem ?s (0x11000 + of_nat i) = None" if "i < 12" for i
  proof -
    have sum: "unat (of_nat c + of_nat i :: ULONG) = c + i" if "c < 0x20000" for c
      using that \<open>i < 12\<close> by (simp add: unat_of_nat flip: of_nat_add)
    from sum [of "0x10000"] sum [of "0xF000"] sum [of "0x1000"] sum [of "0x10F00"]
    have "unat (0x10000 + of_nat i :: ULONG) = 0x10000 + i" "unat (0xF000 + of_nat i :: ULONG) = 0xF000 + i"
      "unat (0x1000 + of_nat i :: ULONG) = 0x1000 + i" "unat (0x10F00 + of_nat i :: ULONG) = 0x10F00 + i" by simp_all
    then show ?thesis by (simp add: sample_array_def sample_mem_def)
  qed
  ultimately have "room_for ?s 12" by (simp add: room_for_def fits_def)
  moreover have "pool ?s 1 1 = 0" by (simp add: sample_array_def pool_def)
  ultimately show ?thesis
    using array_create_short [OF sample_array_ok sample_create_args(2), where ty = P32 and ?h0.0 = 1]
    by (auto simp: handle_ok_def MAX_HANDLES_def MAX_PROGRAMS_def)
qed

end
