(* ===== verification/VM_Float.thy ===== *)
theory VM_Float
  imports VM_State
begin

text \<open>
  The floating point operations the byte codes use on \<open>DATAF\<close>, C's \<open>float\<close>, as functions
  on its 32 bits: IEEE 754 single precision with round to nearest, ties to even. A finite
  value is a sign and a natural number times a power of two; every operation computes the
  exact rational result and rounds it once. A NaN result of an operation has the bits of
  \<open>DATAF_NAN\<close>; C leaves them open.
\<close>

subsection \<open>Values\<close>

datatype fl = Fin bool nat int  \<comment> \<open>\<open>Fin s m e\<close> is \<open>m * 2 ^ e\<close>, negated if \<open>s\<close>\<close>
  | Inf bool
  | NaN

definition sign_bit :: "DATAF \<Rightarrow> bool" where
  "sign_bit x \<longleftrightarrow> 2 ^ 31 \<le> unat x"

definition magnitude :: "DATAF \<Rightarrow> nat" where
  "magnitude x = unat x mod 2 ^ 31"

text \<open>The value of a magnitude: the exponent is its upper 8 bits.\<close>

definition fl_of :: "DATAF \<Rightarrow> fl" where
  "fl_of x =
     (let k = magnitude x div 2 ^ 23; f = magnitude x mod 2 ^ 23 in
      if k = 255 then (if f = 0 then Inf (sign_bit x) else NaN)
      else if k = 0 then Fin (sign_bit x) f (- 149)
      else Fin (sign_bit x) (2 ^ 23 + f) (int k - 150))"

definition isnan :: "DATAF \<Rightarrow> bool" where
  "isnan x \<longleftrightarrow> fl_of x = NaN"

definition inf_magnitude :: nat where "inf_magnitude = 255 * 2 ^ 23"

definition of_magnitude :: "bool \<Rightarrow> nat \<Rightarrow> DATAF" where
  "of_magnitude s k = of_nat ((if s then 2 ^ 31 else 0) + min k inf_magnitude)"

definition finf :: "bool \<Rightarrow> DATAF" where
  "finf s = of_magnitude s inf_magnitude"

text \<open>The bits of \<open>m * 2 ^ e\<close> where \<open>e\<close> is \<open>- 149\<close> or \<open>m\<close> has 24 bits; \<open>m = 2 ^ 24\<close>, which
  rounding up can give, carries into the exponent.\<close>

definition pack :: "bool \<Rightarrow> nat \<times> int \<Rightarrow> DATAF" where
  "pack s = (\<lambda>(m, e). of_magnitude s (nat (e + 149) * 2 ^ 23 + m))"

subsection \<open>Rounding\<close>

fun bitlen :: "nat \<Rightarrow> nat" where
  "bitlen n = (if n = 0 then 0 else Suc (bitlen (n div 2)))"

declare bitlen.simps [simp del]

text \<open>\<open>n / d\<close> as \<open>N / D\<close> times \<open>2 ^ e\<close>.\<close>

definition scaled :: "nat \<Rightarrow> nat \<Rightarrow> int \<Rightarrow> nat \<times> nat" where
  "scaled n d e = (if 0 \<le> e then (n, d * 2 ^ nat e) else (n * 2 ^ nat (- e), d))"

definition round_even :: "nat \<Rightarrow> nat \<Rightarrow> nat" where
  "round_even n d =
     (let q = n div d; r = n mod d in
      if 2 * r < d then q else if d < 2 * r then q + 1 else if even q then q else q + 1)"

text \<open>The exponent that gives \<open>n / d\<close> a quotient of \<open>p\<close> bits, not below \<open>emin\<close>.\<close>

definition exponent_of :: "nat \<Rightarrow> int \<Rightarrow> nat \<Rightarrow> nat \<Rightarrow> int" where
  "exponent_of p emin n d =
     (let e = int (bitlen n) - int (bitlen d) - int p;
          (N, D) = scaled n d e
      in max emin (if N < 2 ^ p * D then e else e + 1))"

definition rnd :: "nat \<Rightarrow> int \<Rightarrow> nat \<Rightarrow> nat \<Rightarrow> nat \<times> int" where
  "rnd p emin n d =
     (let e = exponent_of p emin n d; (N, D) = scaled n d e in (round_even N D, e))"

definition fround :: "bool \<Rightarrow> nat \<Rightarrow> nat \<Rightarrow> DATAF" where
  "fround s n d = (if n = 0 then of_magnitude s 0 else pack s (rnd 24 (- 149) n d))"

text \<open>\<open>m * 2 ^ e\<close> rounded.\<close>

definition fround2 :: "bool \<Rightarrow> nat \<Rightarrow> int \<Rightarrow> DATAF" where
  "fround2 s m e = (if 0 \<le> e then fround s (m * 2 ^ nat e) 1 else fround s m (2 ^ nat (- e)))"

subsection \<open>Conversions\<close>

definition of_integer :: "int \<Rightarrow> DATAF" where
  "of_integer i = fround (i < 0) (nat \<bar>i\<bar>) 1"

text \<open>C's conversion to an integer truncates; out of the range of the integer type it is
  undefined, which the caller checks.\<close>

definition trunc_fin :: "bool \<Rightarrow> nat \<Rightarrow> int \<Rightarrow> int" where
  "trunc_fin s m e =
     (let k = (if 0 \<le> e then m * 2 ^ nat e else m div 2 ^ nat (- e)) in if s then - int k else int k)"

definition to_integer :: "DATAF \<Rightarrow> int option" where
  "to_integer x = (case fl_of x of Fin s m e \<Rightarrow> Some (trunc_fin s m e) | _ \<Rightarrow> None)"

definition to_word :: "DATAF \<Rightarrow> 'a::len word option" where
  "to_word x = (case to_integer x of
     None \<Rightarrow> None
   | Some i \<Rightarrow> if - (2 ^ (LENGTH('a) - 1)) \<le> i \<and> i < 2 ^ (LENGTH('a) - 1)
               then Some (word_of_int i) else None)"

subsection \<open>Comparison\<close>

text \<open>The bits of a float that is not NaN are ordered like its value, up to the sign.\<close>

definition order_key :: "DATAF \<Rightarrow> int" where
  "order_key x = (if sign_bit x then - int (magnitude x) else int (magnitude x))"

definition flt :: "DATAF \<Rightarrow> DATAF \<Rightarrow> bool" where
  "flt x y \<longleftrightarrow> \<not> isnan x \<and> \<not> isnan y \<and> order_key x < order_key y"

definition fle :: "DATAF \<Rightarrow> DATAF \<Rightarrow> bool" where
  "fle x y \<longleftrightarrow> \<not> isnan x \<and> \<not> isnan y \<and> order_key x \<le> order_key y"

definition feq :: "DATAF \<Rightarrow> DATAF \<Rightarrow> bool" where
  "feq x y \<longleftrightarrow> \<not> isnan x \<and> \<not> isnan y \<and> order_key x = order_key y"

subsection \<open>Arithmetic\<close>

definition fneg :: "DATAF \<Rightarrow> DATAF" where
  "fneg x = x XOR 0x80000000"

definition fabs :: "DATAF \<Rightarrow> DATAF" where
  "fabs x = x AND 0x7FFFFFFF"

definition signed_nat :: "bool \<Rightarrow> nat \<Rightarrow> int" where
  "signed_nat s n = (if s then - int n else int n)"

definition fadd :: "DATAF \<Rightarrow> DATAF \<Rightarrow> DATAF" where
  "fadd x y = (case (fl_of x, fl_of y) of
     (Fin s m e, Fin t n f) \<Rightarrow>
       (let g = min e f;
            i = signed_nat s (m * 2 ^ nat (e - g)) + signed_nat t (n * 2 ^ nat (f - g))
        in if i = 0 then of_magnitude (s \<and> t) 0 else fround2 (i < 0) (nat \<bar>i\<bar>) g)
   | (Inf s, Inf t) \<Rightarrow> if s = t then finf s else DATAF_NAN
   | (Inf s, Fin _ _ _) \<Rightarrow> finf s
   | (Fin _ _ _, Inf t) \<Rightarrow> finf t
   | _ \<Rightarrow> DATAF_NAN)"

definition fsub :: "DATAF \<Rightarrow> DATAF \<Rightarrow> DATAF" where
  "fsub x y = (if isnan y then DATAF_NAN else fadd x (fneg y))"

definition fmul :: "DATAF \<Rightarrow> DATAF \<Rightarrow> DATAF" where
  "fmul x y = (case (fl_of x, fl_of y) of
     (Fin s m e, Fin t n f) \<Rightarrow> fround2 (s \<noteq> t) (m * n) (e + f)
   | (Inf s, Inf t) \<Rightarrow> finf (s \<noteq> t)
   | (Inf s, Fin t n _) \<Rightarrow> if n = 0 then DATAF_NAN else finf (s \<noteq> t)
   | (Fin s m _, Inf t) \<Rightarrow> if m = 0 then DATAF_NAN else finf (s \<noteq> t)
   | _ \<Rightarrow> DATAF_NAN)"

definition fdiv :: "DATAF \<Rightarrow> DATAF \<Rightarrow> DATAF" where
  "fdiv x y = (case (fl_of x, fl_of y) of
     (Fin s m e, Fin t n f) \<Rightarrow>
       if n = 0 then (if m = 0 then DATAF_NAN else finf (s \<noteq> t))
       else if f \<le> e then fround (s \<noteq> t) (m * 2 ^ nat (e - f)) n
       else fround (s \<noteq> t) m (n * 2 ^ nat (f - e))
   | (Fin s _ _, Inf t) \<Rightarrow> of_magnitude (s \<noteq> t) 0
   | (Inf s, Fin t _ _) \<Rightarrow> finf (s \<noteq> t)
   | _ \<Rightarrow> DATAF_NAN)"

text \<open>A product with a \<open>double\<close> constant \<open>k / 10 ^ c\<close>, rounded to \<open>double\<close> and then stored
  in a float: the macros \<open>DegToRad\<close> and \<open>RadToDeg\<close> of \<open>c_math.h\<close>.\<close>

definition rational :: "nat \<times> int \<Rightarrow> nat \<times> nat" where
  "rational = (\<lambda>(m, e). if 0 \<le> e then (m * 2 ^ nat e, 1) else (m, 2 ^ nat (- e)))"

definition times_double :: "nat \<Rightarrow> nat \<Rightarrow> DATAF \<Rightarrow> DATAF" where
  "times_double k c x = (case fl_of x of
     Fin s m e \<Rightarrow>
       if m = 0 then of_magnitude s 0
       else (let (n1, d1) = rational (rnd 53 (- 1074) k (10 ^ c));
                 (n2, d2) = rational (m, e);
                 (n, d) = rational (rnd 53 (- 1074) (n1 * n2) (d1 * d2))
             in fround s n d)
   | Inf s \<Rightarrow> finf s
   | NaN \<Rightarrow> DATAF_NAN)"

definition DegToRad :: "DATAF \<Rightarrow> DATAF" where
  "DegToRad = times_double 174532925 10"

definition RadToDeg :: "DATAF \<Rightarrow> DATAF" where
  "RadToDeg = times_double 572957795 7"

subsection \<open>Rounding to integers and remainder\<close>

definition ffloor :: "DATAF \<Rightarrow> DATAF" where
  "ffloor x = (case fl_of x of
     Fin s m e \<Rightarrow>
       if 0 \<le> e then x
       else (let q = m div 2 ^ nat (- e); r = m mod 2 ^ nat (- e)
             in fround s (if s \<and> r \<noteq> 0 then q + 1 else q) 1)
   | Inf s \<Rightarrow> x
   | NaN \<Rightarrow> DATAF_NAN)"

definition fceil :: "DATAF \<Rightarrow> DATAF" where
  "fceil x = (case fl_of x of
     Fin s m e \<Rightarrow>
       if 0 \<le> e then x
       else (let q = m div 2 ^ nat (- e); r = m mod 2 ^ nat (- e)
             in fround s (if \<not> s \<and> r \<noteq> 0 then q + 1 else q) 1)
   | Inf s \<Rightarrow> x
   | NaN \<Rightarrow> DATAF_NAN)"

definition ffmod :: "DATAF \<Rightarrow> DATAF \<Rightarrow> DATAF" where
  "ffmod x y = (case (fl_of x, fl_of y) of
     (Fin s m e, Fin t n f) \<Rightarrow>
       if n = 0 then DATAF_NAN
       else (let g = min e f
             in fround2 s ((m * 2 ^ nat (e - g)) mod (n * 2 ^ nat (f - g))) g)
   | (Fin s m e, Inf t) \<Rightarrow> x
   | _ \<Rightarrow> DATAF_NAN)"

text \<open>\<open>snprintf("%f")\<close> writes six decimals, correctly rounded; cut after \<open>P\<close> decimals and
  read back by \<open>sscanf("%f")\<close>.\<close>

definition ftrunc_decimals :: "nat \<Rightarrow> DATAF \<Rightarrow> DATAF" where
  "ftrunc_decimals P x = (case fl_of x of
     Fin s m e \<Rightarrow>
       (let (n, d) = rational (m, e);
            k = round_even (n * 10 ^ 6) d;
            P = min P 6
        in fround s (k div 10 ^ (6 - P)) (10 ^ P))
   | Inf s \<Rightarrow> finf s
   | NaN \<Rightarrow> DATAF_NAN)"

subsection \<open>Comparison is comparison of the values\<close>

text \<open>Every finite float is an integer multiple of \<open>2 ^ - 149\<close>; \<open>fixval\<close> is that integer.\<close>

definition fixval :: "DATAF \<Rightarrow> int" where
  "fixval x = (case fl_of x of Fin s m e \<Rightarrow> signed_nat s (m * 2 ^ nat (e + 149)) | _ \<Rightarrow> 0)"

definition finite_float :: "DATAF \<Rightarrow> bool" where
  "finite_float x \<longleftrightarrow> magnitude x < inf_magnitude"

definition magval :: "nat \<Rightarrow> nat" where
  "magval M = (if M div 2 ^ 23 = 0 then M mod 2 ^ 23
     else (2 ^ 23 + M mod 2 ^ 23) * 2 ^ (M div 2 ^ 23 - 1))"

lemma magval_Suc: "magval M < magval (Suc M)"
proof -
  define k f where "k = M div 2 ^ 23" and "f = M mod 2 ^ 23"
  have M: "M = k * 2 ^ 23 + f" and f: "f < 2 ^ 23" by (simp_all add: k_def f_def)
  show ?thesis
  proof (cases "Suc f < 2 ^ 23")
    case True
    have "Suc M div 2 ^ 23 = k" "Suc M mod 2 ^ 23 = Suc f"
      using True M div_mult_self3 [of "2 ^ 23" k "Suc f"] mod_mult_self3 [of k "2 ^ 23" "Suc f"]
      by simp_all
    then show ?thesis unfolding magval_def k_def [symmetric] f_def [symmetric] by simp
  next
    case False
    then have "Suc M = Suc k * 2 ^ 23" using f M by simp
    then have S: "Suc M div 2 ^ 23 = Suc k" "Suc M mod 2 ^ 23 = 0" by (simp_all only: div_mult_self_is_m mod_mult_self2_is_0) simp_all
    have "f = 2 ^ 23 - 1" using f False by simp
    then show ?thesis
      unfolding magval_def S k_def [symmetric] f_def [symmetric] by (cases k) simp_all
  qed
qed

lemma magval_mono: "magval M < magval N \<longleftrightarrow> M < N"
  by (rule lift_Suc_mono_less_iff) (rule magval_Suc)

lemma magval_eq: "magval M = magval N \<longleftrightarrow> M = N"
  using magval_mono [of M N] magval_mono [of N M] by (metis less_irrefl linorder_neqE_nat)

lemma magval_0 [simp]: "magval 0 = 0"
  by (simp add: magval_def)

lemma magnitude_less: "magnitude x < 2 ^ 31"
  by (simp add: magnitude_def)

lemma finite_exponent: "finite_float x \<longleftrightarrow> magnitude x div 2 ^ 23 < 255"
  by (simp add: finite_float_def inf_magnitude_def div_less_iff_less_mult)

lemma fl_finite:
  assumes "finite_float x"
  shows "fl_of x = (let k = magnitude x div 2 ^ 23; f = magnitude x mod 2 ^ 23 in
    if k = 0 then Fin (sign_bit x) f (- 149) else Fin (sign_bit x) (2 ^ 23 + f) (int k - 150))"
  using assms by (simp add: fl_of_def Let_def finite_exponent)

lemma fixval_finite: "finite_float x \<Longrightarrow> fixval x = signed_nat (sign_bit x) (magval (magnitude x))"
  by (simp add: fixval_def fl_finite Let_def magval_def nat_diff_distrib)

lemma isnan_finite: "finite_float x \<Longrightarrow> \<not> isnan x"
  by (simp add: isnan_def fl_finite Let_def)

lemma int_opposite: "int a = - int b \<longleftrightarrow> a = 0 \<and> b = 0" "- int a = int b \<longleftrightarrow> a = 0 \<and> b = 0"
  by auto

lemma order_key_fixval:
  assumes "finite_float x" and "finite_float y"
  shows "order_key x < order_key y \<longleftrightarrow> fixval x < fixval y"
    and "order_key x = order_key y \<longleftrightarrow> fixval x = fixval y"
proof -
  have z: "magval M = 0 \<longleftrightarrow> M = 0" for M using magval_eq [of M 0] by simp
  have p: "0 < magval M \<longleftrightarrow> 0 < M" for M using magval_mono [of 0 M] by simp
  show "order_key x < order_key y \<longleftrightarrow> fixval x < fixval y"
    using assms z [of "magnitude x"] z [of "magnitude y"] p [of "magnitude x"] p [of "magnitude y"]
    by (auto simp: fixval_finite order_key_def signed_nat_def magval_mono)
  show "order_key x = order_key y \<longleftrightarrow> fixval x = fixval y"
    using assms z [of "magnitude x"] z [of "magnitude y"] p [of "magnitude x"] p [of "magnitude y"]
    by (auto simp: fixval_finite order_key_def signed_nat_def magval_eq int_opposite)
qed

lemma float_order:
  assumes "finite_float x" and "finite_float y"
  shows "flt x y \<longleftrightarrow> fixval x < fixval y" and "feq x y \<longleftrightarrow> fixval x = fixval y"
    and "fle x y \<longleftrightarrow> fixval x \<le> fixval y"
  using order_key_fixval [OF assms] isnan_finite [OF assms(1)] isnan_finite [OF assms(2)]
  by (auto simp: flt_def feq_def fle_def)

lemma nan_unordered:
  "isnan x \<or> isnan y \<Longrightarrow> \<not> flt x y \<and> \<not> feq x y \<and> \<not> fle x y"
  by (auto simp: flt_def feq_def fle_def)

subsection \<open>Small integers are exact\<close>

lemma bitlen_bounds: "0 < n \<Longrightarrow> 2 ^ (bitlen n - 1) \<le> n \<and> n < 2 ^ bitlen n \<and> 0 < bitlen n"
proof (induction n rule: bitlen.induct)
  case (1 n)
  show ?case
  proof (cases "n = 1")
    case True
    then show ?thesis by (simp add: bitlen.simps)
  next
    case False
    then have n2: "0 < n div 2" using "1.prems" by auto
    have IH: "2 ^ (bitlen (n div 2) - 1) \<le> n div 2" "n div 2 < 2 ^ bitlen (n div 2)" "0 < bitlen (n div 2)"
      using "1.IH" n2 "1.prems" by auto
    have L: "bitlen n = Suc (bitlen (n div 2))" using "1.prems" by (simp add: bitlen.simps [of n])
    obtain k where k: "bitlen (n div 2) = Suc k" using IH(3) by (cases "bitlen (n div 2)") auto
    show ?thesis using IH(1,2) by (auto simp: L k)
  qed
qed

lemma bitlen_le:
  assumes "n < 2 ^ k"
  shows "bitlen n \<le> k"
proof (cases "n = 0")
  case True
  then show ?thesis by (simp add: bitlen.simps)
next
  case False
  then have "(2::nat) ^ (bitlen n - 1) < 2 ^ k" using bitlen_bounds [of n] assms by linarith
  then show ?thesis by simp
qed

lemma scaled_shift:
  assumes "0 < n" and "bitlen n \<le> 24"
  defines "N \<equiv> n * 2 ^ (24 - bitlen n)"
  shows "2 ^ 23 \<le> N" and "N < 2 ^ 24"
proof -
  have b: "2 ^ (bitlen n - 1) \<le> n" "n < 2 ^ bitlen n" "0 < bitlen n"
    using bitlen_bounds [OF assms(1)] by auto
  have "2 ^ (bitlen n - 1) * 2 ^ (24 - bitlen n) = (2::nat) ^ 23"
    using b(3) assms(2) by (simp flip: power_add)
  with b(1) show "2 ^ 23 \<le> N" unfolding N_def by (metis mult_le_mono1)
  have "2 ^ bitlen n * 2 ^ (24 - bitlen n) = (2::nat) ^ 24"
    using assms(2) by (simp flip: power_add)
  with b(2) show "N < 2 ^ 24" unfolding N_def
    by (metis mult_less_mono1 zero_less_numeral zero_less_power)
qed

lemma scaled_1:
  assumes "k \<le> c"
  shows "scaled n 1 (int k - int c) = (n * 2 ^ (c - k), 1)"
proof (cases "k = c")
  case False
  then have "int k - int c < 0" "nat (- (int k - int c)) = c - k" using assms by auto
  then show ?thesis by (simp only: scaled_def not_le [symmetric] if_False)
qed (simp add: scaled_def)

lemma rnd_small:
  assumes "0 < n" and L: "bitlen n \<le> 24"
  shows "rnd 24 (- 149) n 1 = (n * 2 ^ (24 - bitlen n), int (bitlen n) - 24)"
proof -
  define k where "k = bitlen n"
  have one: "bitlen 1 = 1" by (simp add: bitlen.simps)
  have s: "2 ^ 23 \<le> n * 2 ^ (24 - k)" unfolding k_def by (rule scaled_shift [OF assms])
  have k: "k \<le> 24" using L k_def by simp
  have "25 - k = Suc (24 - k)" using k by simp
  then have two: "n * 2 ^ (25 - k) = 2 * (n * 2 ^ (24 - k))" by (simp only: power_Suc mult.left_commute)
  have sc: "scaled n 1 (int k - int 25) = (n * 2 ^ (25 - k), 1)"
    by (rule scaled_1) (use k in simp)
  have "int k - int 1 - int 24 = int k - int 25" by simp
  then have e: "exponent_of 24 (- 149) n 1 = int k - 24"
    using s unfolding exponent_of_def Let_def one k_def [symmetric] by (simp only: sc two split) simp
  have "scaled n 1 (int k - 24) = (n * 2 ^ (24 - k), 1)"
    using scaled_1 [OF k, of n] by simp
  then show ?thesis unfolding rnd_def Let_def e k_def [symmetric] by (simp add: round_even_def)
qed

definition small_magnitude :: "nat \<Rightarrow> nat" where
  "small_magnitude n = (if n = 0 then 0 else (bitlen n + 125) * 2 ^ 23 + n * 2 ^ (24 - bitlen n))"

lemma fround_small:
  assumes "n < 2 ^ 24"
  shows "fround s n 1 = of_magnitude s (small_magnitude n)"
proof (cases "n = 0")
  case False
  have "bitlen n \<le> 24" by (rule bitlen_le [OF assms])
  moreover have "nat (int (bitlen n) - 24 + 149) = bitlen n + 125" by simp
  ultimately show ?thesis
    using rnd_small [of n] False
    by (simp only: fround_def pack_def small_magnitude_def split if_False)
qed (simp add: fround_def small_magnitude_def)

lemma unat_of_magnitude:
  "unat (of_magnitude s k) = (if s then 2 ^ 31 else 0) + min k inf_magnitude"
proof -
  have "(if s then 2 ^ 31 else 0) + min k inf_magnitude < 2 ^ 32"
    by (simp add: inf_magnitude_def min_def)
  then show ?thesis unfolding of_magnitude_def by (simp only: unat_of_nat) simp
qed

lemma of_magnitude_parts:
  "sign_bit (of_magnitude s k) = s" "magnitude (of_magnitude s k) = min k inf_magnitude"
  by (simp_all add: sign_bit_def magnitude_def unat_of_magnitude inf_magnitude_def min_def)

lemma small_magnitude_div:
  assumes "0 < n" and "n < 2 ^ 24"
  shows "small_magnitude n div 2 ^ 23 = bitlen n + 126"
    and "small_magnitude n mod 2 ^ 23 = n * 2 ^ (24 - bitlen n) - 2 ^ 23"
    and "small_magnitude n < inf_magnitude"
proof -
  define N where "N = n * 2 ^ (24 - bitlen n)"
  have L: "bitlen n \<le> 24" by (rule bitlen_le [OF assms(2)])
  have N: "2 ^ 23 \<le> N" "N < 2 ^ 24" unfolding N_def by (rule scaled_shift [OF assms(1) L])+
  have eq: "small_magnitude n = (bitlen n + 126) * 2 ^ 23 + (N - 2 ^ 23)"
    using assms(1) N(1) by (simp add: small_magnitude_def N_def)
  have lt: "N - 2 ^ 23 < 2 ^ 23" using N by simp
  show "small_magnitude n div 2 ^ 23 = bitlen n + 126"
    unfolding eq using div_mult_self3 [of "2 ^ 23 :: nat" "bitlen n + 126" "N - 2 ^ 23"] lt by simp
  show "small_magnitude n mod 2 ^ 23 = n * 2 ^ (24 - bitlen n) - 2 ^ 23"
    unfolding eq N_def [symmetric] using mod_mult_self3 [of "bitlen n + 126" "2 ^ 23 :: nat" "N - 2 ^ 23"] lt by simp
  have "(bitlen n + 126) * 2 ^ 23 \<le> 150 * 2 ^ (23::nat)" using L by simp
  then show "small_magnitude n < inf_magnitude"
    using lt unfolding eq inf_magnitude_def by simp
qed

lemma nat_abs_less: "\<bar>i\<bar> < 2 ^ 24 \<Longrightarrow> nat \<bar>i\<bar> < 2 ^ 24"
proof -
  assume "\<bar>i\<bar> < 2 ^ 24"
  then have "nat \<bar>i\<bar> < nat (2 ^ 24)" by (subst nat_less_eq_zless) simp_all
  then show ?thesis by simp
qed

lemma of_integer_fl:
  assumes "\<bar>i\<bar> < 2 ^ 24"
  shows "fl_of (of_integer i) = (if i = 0 then Fin False 0 (- 149)
     else Fin (i < 0) (nat \<bar>i\<bar> * 2 ^ (24 - bitlen (nat \<bar>i\<bar>))) (int (bitlen (nat \<bar>i\<bar>)) - 24))"
    and "finite_float (of_integer i)"
proof -
  define n where "n = nat \<bar>i\<bar>"
  have n: "n < 2 ^ 24" unfolding n_def by (rule nat_abs_less [OF assms])
  have eq: "of_integer i = of_magnitude (i < 0) (small_magnitude n)"
    using fround_small [OF n] by (simp add: of_integer_def n_def)
  have fin: "finite_float (of_integer i)"
  proof (cases "n = 0")
    case False
    then show ?thesis
      using small_magnitude_div(3) [OF _ n] by (simp add: finite_float_def eq of_magnitude_parts min_def)
  qed (simp add: finite_float_def eq of_magnitude_parts small_magnitude_def inf_magnitude_def)
  then show "finite_float (of_integer i)" .
  show "fl_of (of_integer i) = (if i = 0 then Fin False 0 (- 149)
     else Fin (i < 0) (nat \<bar>i\<bar> * 2 ^ (24 - bitlen (nat \<bar>i\<bar>))) (int (bitlen (nat \<bar>i\<bar>)) - 24))"
  proof (cases "i = 0")
    case True
    then have "n = 0" by (simp add: n_def)
    then have "sign_bit (of_integer i) = False" "magnitude (of_integer i) = 0"
      unfolding eq of_magnitude_parts using True by (simp_all add: small_magnitude_def)
    then show ?thesis using True fl_finite [OF fin] by simp
  next
    case False
    then have p: "0 < n" by (simp add: n_def)
    note d = small_magnitude_div [OF p n]
    have mag: "magnitude (of_integer i) = small_magnitude n"
      using d(3) by (simp add: eq of_magnitude_parts)
    have "2 ^ 23 \<le> n * 2 ^ (24 - bitlen n)"
      by (rule scaled_shift [OF p bitlen_le [OF n]])
    then show ?thesis
      unfolding fl_finite [OF fin] Let_def mag d(1,2) n_def [symmetric]
      using False by (simp add: eq of_magnitude_parts)
  qed
qed

lemma to_integer_of_integer:
  assumes "\<bar>i\<bar> < 2 ^ 24"
  shows "to_integer (of_integer i) = Some i"
proof (cases "i = 0")
  case True
  then show ?thesis using of_integer_fl(1) [OF assms] by (simp add: to_integer_def trunc_fin_def)
next
  case False
  define n where "n = nat \<bar>i\<bar>"
  have L: "bitlen n \<le> 24" unfolding n_def by (rule bitlen_le [OF nat_abs_less [OF assms]])
  have "trunc_fin (i < 0) (n * 2 ^ (24 - bitlen n)) (int (bitlen n) - 24) = i"
    using L by (cases "bitlen n = 24") (auto simp: trunc_fin_def n_def nat_diff_distrib Let_def)
  then show ?thesis
    using of_integer_fl(1) [OF assms] False by (simp add: to_integer_def n_def)
qed

lemma fixval_of_integer:
  assumes "\<bar>i\<bar> < 2 ^ 24"
  shows "fixval (of_integer i) = i * 2 ^ 149"
proof (cases "i = 0")
  case True
  then show ?thesis using of_integer_fl(1) [OF assms] by (simp add: fixval_def signed_nat_def)
next
  case False
  define n where "n = nat \<bar>i\<bar>"
  have L: "bitlen n \<le> 24" unfolding n_def by (rule bitlen_le [OF nat_abs_less [OF assms]])
  have "nat (int (bitlen n) - 24 + 149) = bitlen n + 125" by simp
  moreover have "24 - bitlen n + (bitlen n + 125) = 149" using L by simp
  then have "2 ^ (24 - bitlen n) * 2 ^ (bitlen n + 125) = (2::nat) ^ 149" by (simp only: power_add [symmetric])
  ultimately have "n * 2 ^ (24 - bitlen n) * 2 ^ nat (int (bitlen n) - 24 + 149) = n * 2 ^ 149"
    by (simp only: mult.assoc)
  then have "fixval (of_integer i) = signed_nat (i < 0) (n * 2 ^ 149)"
    unfolding fixval_def of_integer_fl(1) [OF assms] n_def [symmetric] using False
    by (simp only: if_False fl.case)
  then show ?thesis by (simp add: signed_nat_def n_def)
qed

lemma of_integer_order:
  assumes "\<bar>i\<bar> < 2 ^ 24" and "\<bar>j\<bar> < 2 ^ 24"
  shows "flt (of_integer i) (of_integer j) \<longleftrightarrow> i < j"
    and "feq (of_integer i) (of_integer j) \<longleftrightarrow> i = j"
  using float_order [OF of_integer_fl(2) [OF assms(1)] of_integer_fl(2) [OF assms(2)]]
  by (simp_all only: fixval_of_integer [OF assms(1)] fixval_of_integer [OF assms(2)]) simp_all

subsection \<open>Conversion to an integer truncates the value\<close>

lemma trunc_nat:
  fixes m :: nat
  assumes "- 149 \<le> e"
  shows "(if 0 \<le> e then m * 2 ^ nat e else m div 2 ^ nat (- e)) = m * 2 ^ nat (e + 149) div 2 ^ 149"
proof (cases "0 \<le> e")
  case True
  then have "nat (e + 149) = nat e + 149" by simp
  then have "m * 2 ^ nat (e + 149) = m * 2 ^ nat e * 2 ^ 149" by (simp only: power_add mult.assoc)
  then show ?thesis using True by (simp only: if_True) simp
next
  case False
  have "nat (- e) + nat (e + 149) = 149" using assms False by simp
  then have "(2::nat) ^ 149 = 2 ^ nat (- e) * 2 ^ nat (e + 149)" by (simp only: power_add [symmetric])
  then have "m * 2 ^ nat (e + 149) div 2 ^ 149 = m * 2 ^ nat (e + 149) div (2 ^ nat (- e) * 2 ^ nat (e + 149))"
    by (simp only:)
  also have "\<dots> = m div 2 ^ nat (- e)" by simp
  finally have "m * 2 ^ nat (e + 149) div 2 ^ 149 = m div 2 ^ nat (- e)" .
  then show ?thesis using False by simp
qed

lemma to_integer_fixval:
  assumes "finite_float x"
  shows "to_integer x = Some (cdiv (fixval x) (2 ^ 149))"
proof -
  obtain s m e where fl: "fl_of x = Fin s m e" "- 149 \<le> e"
    using fl_finite [OF assms] by (auto simp: Let_def split: if_splits)
  let ?k = "m * 2 ^ nat (e + 149)"
  have "trunc_fin s m e = (if s then - int (?k div 2 ^ 149) else int (?k div 2 ^ 149))"
    unfolding trunc_fin_def Let_def trunc_nat [OF fl(2)] ..
  also have "\<dots> = cdiv (signed_nat s ?k) (2 ^ 149)"
    unfolding signed_nat_def cdiv_def by (cases "?k = 0") (auto simp: zdiv_int sgn_if)
  finally show ?thesis by (simp add: to_integer_def fl fixval_def)
qed

lemma cdiv_between:
  assumes "a * k \<le> i" "i \<le> b * k" "a \<le> 0" "0 \<le> b" "0 < (k::int)"
  shows "a \<le> cdiv i k \<and> cdiv i k \<le> b"
proof (cases "0 \<le> i")
  case True
  have "i div k \<le> b" using assms(2,5) by (metis div_le_mono2 less_le nonzero_mult_div_cancel_right zdiv_mono1)
  moreover have "0 \<le> i div k" using True assms(5) by (simp add: pos_imp_zdiv_nonneg_iff)
  ultimately show ?thesis using True assms by (auto simp: cdiv_def sgn_if)
next
  case False
  have "- i \<le> (- a) * k" using assms(1) by simp
  then have "- i div k \<le> (- a) * k div k" using assms(5) by (rule zdiv_mono1)
  also have "\<dots> = - a" using assms(5) by (simp only: nonzero_mult_div_cancel_right)
  finally have "- i div k \<le> - a" .
  moreover have "0 \<le> - i div k" using False assms(5) by (simp add: pos_imp_zdiv_nonneg_iff)
  ultimately show ?thesis using False assms by (auto simp: cdiv_def sgn_if)
qed

lemma to_integer_between:
  assumes x: "finite_float x" and mn: "\<bar>mn\<bar> < 2 ^ 24" "mn \<le> 0" and mx: "\<bar>mx\<bar> < 2 ^ 24" "0 \<le> mx"
    and lo: "\<not> flt x (of_integer mn)" and hi: "\<not> flt (of_integer mx) x"
  shows "\<exists>i. to_integer x = Some i \<and> mn \<le> i \<and> i \<le> mx"
proof -
  have "mn * 2 ^ 149 \<le> fixval x" "fixval x \<le> mx * 2 ^ 149"
    using lo hi float_order(1) [OF x of_integer_fl(2) [OF mn(1)]]
      float_order(1) [OF of_integer_fl(2) [OF mx(1)] x]
    unfolding fixval_of_integer [OF mn(1)] fixval_of_integer [OF mx(1)] by linarith+
  then have "mn \<le> cdiv (fixval x) (2 ^ 149) \<and> cdiv (fixval x) (2 ^ 149) \<le> mx"
    by (rule cdiv_between) (use mn mx in simp_all)
  then show ?thesis using to_integer_fixval [OF x] by simp
qed

lemma infinite_order:
  assumes "\<not> isnan x" and "\<not> finite_float x" and "finite_float y" and "finite_float z"
  shows "flt y x \<and> flt z x \<or> flt x y \<and> flt x z"
proof -
  have "magnitude x div 2 ^ 23 < 256"
    using magnitude_less [of x] by (simp add: div_less_iff_less_mult)
  then have k: "magnitude x div 2 ^ 23 = 255" using assms(2) by (simp add: finite_exponent)
  then have "magnitude x mod 2 ^ 23 = 0" using assms(1) by (auto simp: isnan_def fl_of_def Let_def split: if_splits)
  then have "magnitude x = inf_magnitude"
    using k div_mult_mod_eq [of "magnitude x" "2 ^ 23"] by (simp add: inf_magnitude_def)
  then show ?thesis
    using assms isnan_finite [OF assms(3)] isnan_finite [OF assms(4)]
    by (auto simp: flt_def order_key_def finite_float_def)
qed

end
