(* ===== verification/VM_Math.thy ===== *)
theory VM_Math
  imports VM_Params VM_Float
begin

text \<open>
  The arithmetic and logic byte codes of \<open>c_math.c\<close>. Operands of 8 and 16 bits are promoted to
  \<open>int\<close> and the result is cut back to their width, which is the arithmetic of words; 32-bit
  addition, subtraction and multiplication are those of the two's complement target.
  Undefined in C, and \<^theory_text>\<open>None\<close> here: the quotient and remainder of the smallest 32-bit
  integer by -1, and a shift by less than 0 or more than 31.
\<close>

subsection \<open>Addition, subtraction, multiplication\<close>

definition cMathAdd8 :: "vm \<Rightarrow> vm option" where
  "cMathAdd8 s = do {
     (Tmp, s) \<leftarrow> get8 s;
     (x, s) \<leftarrow> get8 s;
     put8 (Tmp + x) s
   }"

definition cMathAdd16 :: "vm \<Rightarrow> vm option" where
  "cMathAdd16 s = do {
     (Tmp, s) \<leftarrow> get16 s;
     (x, s) \<leftarrow> get16 s;
     put16 (Tmp + x) s
   }"

definition cMathAdd32 :: "vm \<Rightarrow> vm option" where
  "cMathAdd32 s = do {
     (Tmp, s) \<leftarrow> get32 s;
     (x, s) \<leftarrow> get32 s;
     put32 (Tmp + x) s
   }"

definition cMathAddF :: "vm \<Rightarrow> vm option" where
  "cMathAddF s = do {
     (Tmp, s) \<leftarrow> get32 s;
     (x, s) \<leftarrow> get32 s;
     put32 (fadd Tmp x) s
   }"

definition cMathSub8 :: "vm \<Rightarrow> vm option" where
  "cMathSub8 s = do {
     (Tmp, s) \<leftarrow> get8 s;
     (x, s) \<leftarrow> get8 s;
     put8 (Tmp - x) s
   }"

definition cMathSub16 :: "vm \<Rightarrow> vm option" where
  "cMathSub16 s = do {
     (Tmp, s) \<leftarrow> get16 s;
     (x, s) \<leftarrow> get16 s;
     put16 (Tmp - x) s
   }"

definition cMathSub32 :: "vm \<Rightarrow> vm option" where
  "cMathSub32 s = do {
     (Tmp, s) \<leftarrow> get32 s;
     (x, s) \<leftarrow> get32 s;
     put32 (Tmp - x) s
   }"

definition cMathSubF :: "vm \<Rightarrow> vm option" where
  "cMathSubF s = do {
     (Tmp, s) \<leftarrow> get32 s;
     (x, s) \<leftarrow> get32 s;
     put32 (fsub Tmp x) s
   }"

definition cMathMul8 :: "vm \<Rightarrow> vm option" where
  "cMathMul8 s = do {
     (Tmp, s) \<leftarrow> get8 s;
     (x, s) \<leftarrow> get8 s;
     put8 (Tmp * x) s
   }"

definition cMathMul16 :: "vm \<Rightarrow> vm option" where
  "cMathMul16 s = do {
     (Tmp, s) \<leftarrow> get16 s;
     (x, s) \<leftarrow> get16 s;
     put16 (Tmp * x) s
   }"

definition cMathMul32 :: "vm \<Rightarrow> vm option" where
  "cMathMul32 s = do {
     (Tmp, s) \<leftarrow> get32 s;
     (x, s) \<leftarrow> get32 s;
     put32 (Tmp * x) s
   }"

definition cMathMulF :: "vm \<Rightarrow> vm option" where
  "cMathMulF s = do {
     (Tmp, s) \<leftarrow> get32 s;
     (x, s) \<leftarrow> get32 s;
     put32 (fmul Tmp x) s
   }"

subsection \<open>Division\<close>

text \<open>\<open>DATA8_MAX\<close> and the other limits are macros for generated constants; the casts cut them
  to the width of the type. A zero divisor saturates, without an error.\<close>

definition sdiv8 :: "vm \<Rightarrow> DATA8 \<Rightarrow> DATA8 \<Rightarrow> DATA8" where
  "sdiv8 s X Y =
     (if Y = 0 then
        (if sint X > 0 then word_of_int (vmDATA8_MAX (Consts s))
         else if sint X < 0 then word_of_int (vmDATA8_MIN (Consts s)) else X)
      else word_of_int (cdiv (sint X) (sint Y)))"

definition sdiv16 :: "vm \<Rightarrow> DATA16 \<Rightarrow> DATA16 \<Rightarrow> DATA16" where
  "sdiv16 s X Y =
     (if Y = 0 then
        (if sint X > 0 then word_of_int (vmDATA16_MAX (Consts s))
         else if sint X < 0 then word_of_int (vmDATA16_MIN (Consts s)) else X)
      else word_of_int (cdiv (sint X) (sint Y)))"

definition sdiv32 :: "vm \<Rightarrow> DATA32 \<Rightarrow> DATA32 \<Rightarrow> DATA32 option" where
  "sdiv32 s X Y =
     (if Y = 0 then Some
        (if sint X > 0 then word_of_int (vmDATA32_MAX (Consts s))
         else if sint X < 0 then word_of_int (vmDATA32_MIN (Consts s)) else X)
      else if sint X = - (2 ^ 31) \<and> sint Y = - 1 then None
      else Some (word_of_int (cdiv (sint X) (sint Y))))"

definition cMathDiv8 :: "vm \<Rightarrow> vm option" where
  "cMathDiv8 s = do {
     (X, s) \<leftarrow> get8 s;
     (Y, s) \<leftarrow> get8 s;
     put8 (sdiv8 s X Y) s
   }"

definition cMathDiv16 :: "vm \<Rightarrow> vm option" where
  "cMathDiv16 s = do {
     (X, s) \<leftarrow> get16 s;
     (Y, s) \<leftarrow> get16 s;
     put16 (sdiv16 s X Y) s
   }"

definition cMathDiv32 :: "vm \<Rightarrow> vm option" where
  "cMathDiv32 s = do {
     (X, s) \<leftarrow> get32 s;
     (Y, s) \<leftarrow> get32 s;
     q \<leftarrow> sdiv32 s X Y;
     put32 q s
   }"

definition cMathDivF :: "vm \<Rightarrow> vm option" where
  "cMathDivF s = do {
     (X, s) \<leftarrow> get32 s;
     (Y, s) \<leftarrow> get32 s;
     put32 (fdiv X Y) s
   }"

subsection \<open>Logic\<close>

definition cMathOr8 :: "vm \<Rightarrow> vm option" where
  "cMathOr8 s = do {
     (Tmp, s) \<leftarrow> get8 s;
     (x, s) \<leftarrow> get8 s;
     put8 (Tmp OR x) s
   }"

definition cMathOr16 :: "vm \<Rightarrow> vm option" where
  "cMathOr16 s = do {
     (Tmp, s) \<leftarrow> get16 s;
     (x, s) \<leftarrow> get16 s;
     put16 (Tmp OR x) s
   }"

definition cMathOr32 :: "vm \<Rightarrow> vm option" where
  "cMathOr32 s = do {
     (Tmp, s) \<leftarrow> get32 s;
     (x, s) \<leftarrow> get32 s;
     put32 (Tmp OR x) s
   }"

definition cMathAnd8 :: "vm \<Rightarrow> vm option" where
  "cMathAnd8 s = do {
     (Tmp, s) \<leftarrow> get8 s;
     (x, s) \<leftarrow> get8 s;
     put8 (Tmp AND x) s
   }"

definition cMathAnd16 :: "vm \<Rightarrow> vm option" where
  "cMathAnd16 s = do {
     (Tmp, s) \<leftarrow> get16 s;
     (x, s) \<leftarrow> get16 s;
     put16 (Tmp AND x) s
   }"

definition cMathAnd32 :: "vm \<Rightarrow> vm option" where
  "cMathAnd32 s = do {
     (Tmp, s) \<leftarrow> get32 s;
     (x, s) \<leftarrow> get32 s;
     put32 (Tmp AND x) s
   }"

definition cMathXor8 :: "vm \<Rightarrow> vm option" where
  "cMathXor8 s = do {
     (Tmp, s) \<leftarrow> get8 s;
     (x, s) \<leftarrow> get8 s;
     put8 (Tmp XOR x) s
   }"

definition cMathXor16 :: "vm \<Rightarrow> vm option" where
  "cMathXor16 s = do {
     (Tmp, s) \<leftarrow> get16 s;
     (x, s) \<leftarrow> get16 s;
     put16 (Tmp XOR x) s
   }"

definition cMathXor32 :: "vm \<Rightarrow> vm option" where
  "cMathXor32 s = do {
     (Tmp, s) \<leftarrow> get32 s;
     (x, s) \<leftarrow> get32 s;
     put32 (Tmp XOR x) s
   }"

definition shift_ok :: "int \<Rightarrow> bool" where
  "shift_ok n \<longleftrightarrow> 0 \<le> n \<and> n < 32"

definition cMathRl8 :: "vm \<Rightarrow> vm option" where
  "cMathRl8 s = do {
     (Tmp, s) \<leftarrow> get8 s;
     (x, s) \<leftarrow> get8 s;
     if shift_ok (sint x) then put8 (push_bit (unat x) Tmp) s else None
   }"

definition cMathRl16 :: "vm \<Rightarrow> vm option" where
  "cMathRl16 s = do {
     (Tmp, s) \<leftarrow> get16 s;
     (x, s) \<leftarrow> get16 s;
     if shift_ok (sint x) then put16 (push_bit (unat x) Tmp) s else None
   }"

definition cMathRl32 :: "vm \<Rightarrow> vm option" where
  "cMathRl32 s = do {
     (Tmp, s) \<leftarrow> get32 s;
     (x, s) \<leftarrow> get32 s;
     if shift_ok (sint x) then put32 (push_bit (unat x) Tmp) s else None
   }"

subsection \<open>opMATH\<close>

text \<open>\<open>X % Y\<close> after the promotion to \<open>int\<close>; a zero divisor gives 0.\<close>

definition smod8 :: "DATA8 \<Rightarrow> DATA8 \<Rightarrow> DATA8" where
  "smod8 X Y = (if Y = 0 then 0 else word_of_int (cmod (sint X) (sint Y)))"

definition smod16 :: "DATA16 \<Rightarrow> DATA16 \<Rightarrow> DATA16" where
  "smod16 X Y = (if Y = 0 then 0 else word_of_int (cmod (sint X) (sint Y)))"

definition smod32 :: "DATA32 \<Rightarrow> DATA32 \<Rightarrow> DATA32 option" where
  "smod32 X Y =
     (if Y = 0 then Some 0
      else if sint X = - (2 ^ 31) \<and> sint Y = - 1 then None
      else Some (word_of_int (cmod (sint X) (sint Y))))"

text \<open>\<open>(DATAF)0.5\<close>, and the rounding of \<open>scROUND\<close>.\<close>

definition fhalf :: DATAF where "fhalf = 0x3F000000"

definition fround_half :: "DATAF \<Rightarrow> DATAF" where
  "fround_half X = (if flt X 0 then fceil (fsub X fhalf) else ffloor (fadd X fhalf))"

definition clamp_precision :: "DATA8 \<Rightarrow> nat" where
  "clamp_precision Y8 = (if sint Y8 > 9 then 9 else if sint Y8 < 0 then 0 else unat Y8)"

text \<open>The byte codes of \<open>opMATH\<close> with one \<open>float\<close> argument.\<close>

definition math_float :: "vm \<Rightarrow> MATH_SUBCODE \<Rightarrow> (DATAF \<Rightarrow> DATAF) option" where
  "math_float s Cmd = (case Cmd of
     scEXP \<Rightarrow> Some (\<lambda>X. lib_expf (Libm s) X)
   | scFLOOR \<Rightarrow> Some (\<lambda>X. ffloor X)
   | scCEIL \<Rightarrow> Some (\<lambda>X. fceil X)
   | scROUND \<Rightarrow> Some (\<lambda>X. fround_half X)
   | scABS \<Rightarrow> Some (\<lambda>X. fabs X)
   | scNEGATE \<Rightarrow> Some (\<lambda>X. fsub 0 X)
   | scSQRT \<Rightarrow> Some (\<lambda>X. lib_sqrt (Libm s) X)
   | scLOG \<Rightarrow> Some (\<lambda>X. lib_log10 (Libm s) X)
   | scLN \<Rightarrow> Some (\<lambda>X. lib_log (Libm s) X)
   | scSIN \<Rightarrow> Some (\<lambda>X. lib_sinf (Libm s) (DegToRad X))
   | scCOS \<Rightarrow> Some (\<lambda>X. lib_cosf (Libm s) (DegToRad X))
   | scTAN \<Rightarrow> Some (\<lambda>X. lib_tanf (Libm s) (DegToRad X))
   | scASIN \<Rightarrow> Some (\<lambda>X. RadToDeg (lib_asinf (Libm s) X))
   | scACOS \<Rightarrow> Some (\<lambda>X. RadToDeg (lib_acosf (Libm s) X))
   | scATAN \<Rightarrow> Some (\<lambda>X. RadToDeg (lib_atanf (Libm s) X))
   | _ \<Rightarrow> None)"

definition cMath :: "vm \<Rightarrow> vm option" where
  "cMath s = do {
     (Cmd, s) \<leftarrow> get8 s;
     case MATH_subcode (Consts s) Cmd of
       None \<Rightarrow> Some s
     | Some scPOW \<Rightarrow> do {
         (X, s) \<leftarrow> get32 s;
         (Y, s) \<leftarrow> get32 s;
         put32 (lib_powf (Libm s) X Y) s
       }
     | Some scMOD8 \<Rightarrow> do {
         (X8, s) \<leftarrow> get8 s;
         (Y8, s) \<leftarrow> get8 s;
         put8 (smod8 X8 Y8) s
       }
     | Some scMOD16 \<Rightarrow> do {
         (X16, s) \<leftarrow> get16 s;
         (Y16, s) \<leftarrow> get16 s;
         put16 (smod16 X16 Y16) s
       }
     | Some scMOD32 \<Rightarrow> do {
         (X32, s) \<leftarrow> get32 s;
         (Y32, s) \<leftarrow> get32 s;
         r \<leftarrow> smod32 X32 Y32;
         put32 r s
       }
     | Some scMOD \<Rightarrow> do {
         (X, s) \<leftarrow> get32 s;
         (Y, s) \<leftarrow> get32 s;
         put32 (ffmod X Y) s
       }
     | Some scTRUNC \<Rightarrow> do {
         (X, s) \<leftarrow> get32 s;
         (Y8, s) \<leftarrow> get8 s;
         put32 (ftrunc_decimals (clamp_precision Y8) X) s
       }
     | Some sub \<Rightarrow> do {
         f \<leftarrow> math_float s sub;
         (X, s) \<leftarrow> get32 s;
         put32 (f X) s
       }
   }"

subsection \<open>Every operation is a binary operation on its width\<close>

lemma bind_if: "Option.bind (if c then m else n) f = (if c then Option.bind m f else Option.bind n f)"
  by simp

lemma binop_ops:
  "cMathAdd8 = binop load8 store8 (\<lambda>B a b. Some (word_of_int (sint a + sint b)))"
  "cMathSub8 = binop load8 store8 (\<lambda>B a b. Some (word_of_int (sint a - sint b)))"
  "cMathMul8 = binop load8 store8 (\<lambda>B a b. Some (word_of_int (sint a * sint b)))"
  "cMathOr8 = binop load8 store8 (\<lambda>B a b. Some (a OR b))"
  "cMathAnd8 = binop load8 store8 (\<lambda>B a b. Some (a AND b))"
  "cMathXor8 = binop load8 store8 (\<lambda>B a b. Some (a XOR b))"
  "cMathRl8 = binop load8 store8 (\<lambda>B a b. if shift_ok (sint b) then Some (push_bit (unat b) a) else None)"
  "cMathAdd16 = binop load16 store16 (\<lambda>B a b. Some (word_of_int (sint a + sint b)))"
  "cMathSub16 = binop load16 store16 (\<lambda>B a b. Some (word_of_int (sint a - sint b)))"
  "cMathMul16 = binop load16 store16 (\<lambda>B a b. Some (word_of_int (sint a * sint b)))"
  "cMathOr16 = binop load16 store16 (\<lambda>B a b. Some (a OR b))"
  "cMathAnd16 = binop load16 store16 (\<lambda>B a b. Some (a AND b))"
  "cMathXor16 = binop load16 store16 (\<lambda>B a b. Some (a XOR b))"
  "cMathRl16 = binop load16 store16 (\<lambda>B a b. if shift_ok (sint b) then Some (push_bit (unat b) a) else None)"
  "cMathAdd32 = binop load32 store32 (\<lambda>B a b. Some (word_of_int (sint a + sint b)))"
  "cMathSub32 = binop load32 store32 (\<lambda>B a b. Some (word_of_int (sint a - sint b)))"
  "cMathMul32 = binop load32 store32 (\<lambda>B a b. Some (word_of_int (sint a * sint b)))"
  "cMathOr32 = binop load32 store32 (\<lambda>B a b. Some (a OR b))"
  "cMathAnd32 = binop load32 store32 (\<lambda>B a b. Some (a AND b))"
  "cMathXor32 = binop load32 store32 (\<lambda>B a b. Some (a XOR b))"
  "cMathRl32 = binop load32 store32 (\<lambda>B a b. if shift_ok (sint b) then Some (push_bit (unat b) a) else None)"
  "cMathAddF = binop load32 store32 (\<lambda>B a b. Some (fadd a b))"
  "cMathSubF = binop load32 store32 (\<lambda>B a b. Some (fsub a b))"
  "cMathMulF = binop load32 store32 (\<lambda>B a b. Some (fmul a b))"
  "cMathDivF = binop load32 store32 (\<lambda>B a b. Some (fdiv a b))"
  by (rule ext; simp add: binop_def bind_if cMathAdd8_def cMathAdd16_def cMathAdd32_def
      cMathSub8_def cMathSub16_def cMathSub32_def cMathMul8_def cMathMul16_def cMathMul32_def
      cMathOr8_def cMathOr16_def cMathOr32_def cMathAnd8_def cMathAnd16_def cMathAnd32_def
      cMathXor8_def cMathXor16_def cMathXor32_def cMathRl8_def cMathRl16_def cMathRl32_def
      cMathAddF_def cMathSubF_def cMathMulF_def cMathDivF_def cong: if_cong)+

text \<open>Division with a saturating zero divisor, on integers.\<close>

definition quotient :: "int \<Rightarrow> int \<Rightarrow> int \<Rightarrow> int \<Rightarrow> int" where
  "quotient mn mx a b =
     (if b = 0 then (if 0 < a then mx else if a < 0 then mn else 0) else cdiv a b)"

lemma sdiv_quotient:
  "sdiv8 s X Y = word_of_int (quotient (vmDATA8_MIN (Consts s)) (vmDATA8_MAX (Consts s)) (sint X) (sint Y))"
  "sdiv16 s X' Y' = word_of_int (quotient (vmDATA16_MIN (Consts s)) (vmDATA16_MAX (Consts s)) (sint X') (sint Y'))"
  "sdiv32 s x y = (if sint x = - (2 ^ 31) \<and> sint y = - 1 then None else
     Some (word_of_int (quotient (vmDATA32_MIN (Consts s)) (vmDATA32_MAX (Consts s)) (sint x) (sint y))))"
proof -
  have z: "sint w = 0 \<longleftrightarrow> w = 0" for w :: "'a::len word"
    using signed_word_eqI [of w 0] by auto
  have nz: "w = 0" if "\<not> 0 < sint w" "\<not> sint w < 0" for w :: "'a::len word"
    using that z [of w] by linarith
  show "sdiv8 s X Y = word_of_int (quotient (vmDATA8_MIN (Consts s)) (vmDATA8_MAX (Consts s)) (sint X) (sint Y))"
    using nz [of X] by (auto simp: sdiv8_def quotient_def z)
  show "sdiv16 s X' Y' = word_of_int (quotient (vmDATA16_MIN (Consts s)) (vmDATA16_MAX (Consts s)) (sint X') (sint Y'))"
    using nz [of X'] by (auto simp: sdiv16_def quotient_def z)
  show "sdiv32 s x y = (if sint x = - (2 ^ 31) \<and> sint y = - 1 then None else
     Some (word_of_int (quotient (vmDATA32_MIN (Consts s)) (vmDATA32_MAX (Consts s)) (sint x) (sint y))))"
    using nz [of x] by (auto simp: sdiv32_def quotient_def z)
qed

lemma div_ops:
  "cMathDiv8 = binop load8 store8 (\<lambda>B a b.
     Some (word_of_int (quotient (vmDATA8_MIN B) (vmDATA8_MAX B) (sint a) (sint b))))"
  "cMathDiv16 = binop load16 store16 (\<lambda>B a b.
     Some (word_of_int (quotient (vmDATA16_MIN B) (vmDATA16_MAX B) (sint a) (sint b))))"
  "cMathDiv32 = binop load32 store32 (\<lambda>B a b.
     if sint a = - (2 ^ 31) \<and> sint b = - 1 then None
     else Some (word_of_int (quotient (vmDATA32_MIN B) (vmDATA32_MAX B) (sint a) (sint b))))"
  by (rule ext; simp add: binop_def cMathDiv8_def cMathDiv16_def cMathDiv32_def sdiv_quotient)+

text \<open>Remainders.\<close>

lemma mod_ops:
  "get8 s = Some (k, t) \<Longrightarrow> MATH_subcode (Consts t) k = Some scMOD8 \<Longrightarrow>
     cMath s = binop load8 store8 (\<lambda>B a b. Some (smod8 a b)) t"
  "get8 s = Some (k, t) \<Longrightarrow> MATH_subcode (Consts t) k = Some scMOD16 \<Longrightarrow>
     cMath s = binop load16 store16 (\<lambda>B a b. Some (smod16 a b)) t"
  "get8 s = Some (k, t) \<Longrightarrow> MATH_subcode (Consts t) k = Some scMOD32 \<Longrightarrow>
     cMath s = binop load32 store32 (\<lambda>B a b. smod32 a b) t"
  by (simp_all add: cMath_def binop_def)

lemma cmod_range: "b \<noteq> 0 \<Longrightarrow> - \<bar>b\<bar> < cmod a b \<and> cmod a b < \<bar>b\<bar>"
  using cmod_bound [of b a] by auto

lemma cdiv_range: "\<not> (a = - m \<and> b = - 1) \<Longrightarrow> - m \<le> a \<Longrightarrow> a < m \<Longrightarrow> b \<noteq> 0 \<Longrightarrow>
    - m \<le> cdiv a b \<and> cdiv a b < m" for m :: int
proof -
  assume a: "\<not> (a = - m \<and> b = - 1)" "- m \<le> a" "a < m" "b \<noteq> 0"
  have le: "\<bar>cdiv a b\<bar> \<le> \<bar>a\<bar>" by (rule cdiv_bound)
  show ?thesis
  proof (cases "cdiv a b = m")
    case True
    with le a have am: "a = - m" "0 < m" by auto
    with a(1) have b: "b \<noteq> - 1" by simp
    have "b < 0"
    proof (rule ccontr)
      assume "\<not> b < 0"
      then have "0 < b" using a(4) by simp
      then have "0 \<le> m div b" using am by (simp add: pos_imp_zdiv_nonneg_iff)
      then show False using True am \<open>0 < b\<close> by (simp add: cdiv_def)
    qed
    then have "2 \<le> \<bar>b\<bar>" using b by simp
    then have "\<bar>a\<bar> div \<bar>b\<bar> \<le> \<bar>a\<bar> div 2" by (intro zdiv_mono2) auto
    also have "\<dots> < \<bar>a\<bar>" using am by simp
    finally have "\<bar>a\<bar> div \<bar>b\<bar> < m" using am by simp
    then show ?thesis using True \<open>b < 0\<close> am by (simp add: cdiv_def)
  next
    case False
    with le a show ?thesis by auto
  qed
qed

subsection \<open>Properties\<close>

text \<open>C35: the byte codes ADD, SUB and MUL of the three integer widths write the sum,
  difference and product of the two signed operands, wrapped to the width, to the
  destination, those of floats the rounded sum, difference and product of \<open>VM_Float\<close>; they
  move past the three parameters and change nothing else.\<close>

theorem math_arith:
  "implements2 load8 load8 1 cMathAdd8 (\<lambda>B a b. Some (word_of_int (sint a + sint b))) \<and>
   implements2 load8 load8 1 cMathSub8 (\<lambda>B a b. Some (word_of_int (sint a - sint b))) \<and>
   implements2 load8 load8 1 cMathMul8 (\<lambda>B a b. Some (word_of_int (sint a * sint b))) \<and>
   implements2 load16 load16 2 cMathAdd16 (\<lambda>B a b. Some (word_of_int (sint a + sint b))) \<and>
   implements2 load16 load16 2 cMathSub16 (\<lambda>B a b. Some (word_of_int (sint a - sint b))) \<and>
   implements2 load16 load16 2 cMathMul16 (\<lambda>B a b. Some (word_of_int (sint a * sint b))) \<and>
   implements2 load32 load32 4 cMathAdd32 (\<lambda>B a b. Some (word_of_int (sint a + sint b))) \<and>
   implements2 load32 load32 4 cMathSub32 (\<lambda>B a b. Some (word_of_int (sint a - sint b))) \<and>
   implements2 load32 load32 4 cMathMul32 (\<lambda>B a b. Some (word_of_int (sint a * sint b))) \<and>
   implements2 load32 load32 4 cMathAddF (\<lambda>B a b. Some (fadd a b)) \<and>
   implements2 load32 load32 4 cMathSubF (\<lambda>B a b. Some (fsub a b)) \<and>
   implements2 load32 load32 4 cMathMulF (\<lambda>B a b. Some (fmul a b))"
  unfolding binop_ops by (intro conjI implements)

theorem math_arith_witness:
  "result1 load8 1 (sample_vm sample_args) [Const W0 5, Const W1 (- 100), Var Global W0 4] 0x1004
     (Some (- 95)) (cMathAdd8 (sample_vm sample_args))"
  using implements2D [OF conjunct1 [OF math_arith] sample_operands8] by simp

text \<open>OR, AND and XOR of the three widths write the bitwise combination of the
  operands, and RL shifts the first operand left (it does not rotate it) by the second,
  which must lie between 0 and 31; another count is undefined in C.\<close>

theorem math_logic:
  "implements2 load8 load8 1 cMathOr8 (\<lambda>B a b. Some (a OR b)) \<and>
   implements2 load8 load8 1 cMathAnd8 (\<lambda>B a b. Some (a AND b)) \<and>
   implements2 load8 load8 1 cMathXor8 (\<lambda>B a b. Some (a XOR b)) \<and>
   implements2 load16 load16 2 cMathOr16 (\<lambda>B a b. Some (a OR b)) \<and>
   implements2 load16 load16 2 cMathAnd16 (\<lambda>B a b. Some (a AND b)) \<and>
   implements2 load16 load16 2 cMathXor16 (\<lambda>B a b. Some (a XOR b)) \<and>
   implements2 load32 load32 4 cMathOr32 (\<lambda>B a b. Some (a OR b)) \<and>
   implements2 load32 load32 4 cMathAnd32 (\<lambda>B a b. Some (a AND b)) \<and>
   implements2 load32 load32 4 cMathXor32 (\<lambda>B a b. Some (a XOR b)) \<and>
   implements2 load8 load8 1 cMathRl8
     (\<lambda>B a b. if shift_ok (sint b) then Some (push_bit (unat b) a) else None) \<and>
   implements2 load16 load16 2 cMathRl16
     (\<lambda>B a b. if shift_ok (sint b) then Some (push_bit (unat b) a) else None) \<and>
   implements2 load32 load32 4 cMathRl32
     (\<lambda>B a b. if shift_ok (sint b) then Some (push_bit (unat b) a) else None)"
  unfolding binop_ops by (intro conjI implements)

lemma limit_read:
  assumes "limits_ok B"
  shows "sint (word_of_int (quotient (vmDATA8_MIN B) (vmDATA8_MAX B) i 0) :: DATA8) =
      (if 0 < i then vmDATA8_MAX B else if i < 0 then vmDATA8_MIN B else 0)"
    "sint (word_of_int (quotient (vmDATA16_MIN B) (vmDATA16_MAX B) i 0) :: DATA16) =
      (if 0 < i then vmDATA16_MAX B else if i < 0 then vmDATA16_MIN B else 0)"
    "sint (word_of_int (quotient (vmDATA32_MIN B) (vmDATA32_MAX B) i 0) :: DATA32) =
      (if 0 < i then vmDATA32_MAX B else if i < 0 then vmDATA32_MIN B else 0)"
  using assms by (auto simp: quotient_def limits_ok_def sint_of_int_range)

text \<open>C36: DIV of the three integer widths writes the quotient truncated towards zero; a zero
  divisor gives the generated limits \<open>DATA8_MAX\<close> to \<open>DATA32_MAX\<close> for a positive dividend,
  \<open>DATA8_MIN\<close> to \<open>DATA32_MIN\<close> for a negative one and zero for zero, and where the limits lie in
  their types, the destination reads as just these values. Only the quotient of the smallest
  32-bit integer by -1 is undefined. DIV of floats writes the rounded quotient of \<open>VM_Float\<close>.\<close>

theorem math_div:
  "implements2 load8 load8 1 cMathDiv8 (\<lambda>B a b.
     Some (word_of_int (quotient (vmDATA8_MIN B) (vmDATA8_MAX B) (sint a) (sint b)))) \<and>
   implements2 load16 load16 2 cMathDiv16 (\<lambda>B a b.
     Some (word_of_int (quotient (vmDATA16_MIN B) (vmDATA16_MAX B) (sint a) (sint b)))) \<and>
   implements2 load32 load32 4 cMathDiv32 (\<lambda>B a b.
     if sint a = - (2 ^ 31) \<and> sint b = - 1 then None
     else Some (word_of_int (quotient (vmDATA32_MIN B) (vmDATA32_MAX B) (sint a) (sint b)))) \<and>
   implements2 load32 load32 4 cMathDivF (\<lambda>B a b. Some (fdiv a b)) \<and>
   (\<forall>B. limits_ok B \<longrightarrow> (\<forall>a :: DATA8. sint (word_of_int (quotient (vmDATA8_MIN B) (vmDATA8_MAX B) (sint a) 0) :: DATA8) =
        (if 0 < sint a then vmDATA8_MAX B else if sint a < 0 then vmDATA8_MIN B else 0)) \<and>
      (\<forall>a :: DATA16. sint (word_of_int (quotient (vmDATA16_MIN B) (vmDATA16_MAX B) (sint a) 0) :: DATA16) =
        (if 0 < sint a then vmDATA16_MAX B else if sint a < 0 then vmDATA16_MIN B else 0)) \<and>
      (\<forall>a :: DATA32. sint (word_of_int (quotient (vmDATA32_MIN B) (vmDATA32_MAX B) (sint a) 0) :: DATA32) =
        (if 0 < sint a then vmDATA32_MAX B else if sint a < 0 then vmDATA32_MIN B else 0)))"
  unfolding div_ops binop_ops(25) by (intro conjI implements) (simp add: limit_read)

text \<open>5 divided by 0.\<close>

lemma sample_div_zero:
  "operands2 load8 load8 (sample_vm [0x05, 0x00, 0x64]) (Const W0 5) (Const W0 0) (Var Global W0 4) 5 0 0x1004"
  by (simp add: operands2_def operand_value_def operand_addr_def sample_mem_def byte_of_def LC0_def GV0_def primpar_defs)

lemma sample_five: "0 < sint (5 :: DATA8) \<longleftrightarrow> True"
  by simp

theorem math_div_witness:
  "result1 load8 1 (sample_vm [0x05, 0x00, 0x64]) [Const W0 5, Const W0 0, Var Global W0 4] 0x1004
     (Some 127) (cMathDiv8 (sample_vm [0x05, 0x00, 0x64])) \<and> limits_ok sample_consts"
proof -
  have max: "vmDATA8_MAX sample_consts = 127" and ok: "limits_ok sample_consts"
    by (simp_all add: sample_consts_def limits_ok_def)
  moreover have "sint (word_of_int (quotient (vmDATA8_MIN sample_consts) (vmDATA8_MAX sample_consts) (sint (5 :: DATA8)) 0) :: DATA8) = 127"
    using math_div [THEN conjunct2, THEN conjunct2, THEN conjunct2, THEN conjunct2, THEN spec, THEN mp, OF ok,
        THEN conjunct1, THEN spec, of "5 :: DATA8"]
    unfolding max by (rule trans) (simp only: if_True sample_five)
  moreover have "result1 load8 1 (sample_vm [0x05, 0x00, 0x64]) [Const W0 5, Const W0 0, Var Global W0 4] 0x1004
     (Some (word_of_int (quotient (vmDATA8_MIN sample_consts) (vmDATA8_MAX sample_consts) (sint (5 :: DATA8)) (sint (0 :: DATA8)))))
     (cMathDiv8 (sample_vm [0x05, 0x00, 0x64]))"
    using implements2D [OF conjunct1 [OF math_div] sample_div_zero] by simp
  ultimately show ?thesis by (simp add: quotient_def)
qed

text \<open>opMATH with the sub codes MOD8, MOD16 and MOD32 writes the remainder of its
  two operands, and 0 for a zero divisor. The remainder belongs to DIV: the dividend is
  quotient times divisor plus remainder, the remainder is smaller than the divisor and has
  the sign of the dividend.\<close>

theorem math_mod:
  "implements2_sub load8 load8 1 (\<lambda>B k. MATH_subcode B k = Some scMOD8) cMath
     (\<lambda>B a b. Some (smod8 a b)) \<and>
   implements2_sub load16 load16 2 (\<lambda>B k. MATH_subcode B k = Some scMOD16) cMath
     (\<lambda>B a b. Some (smod16 a b)) \<and>
   implements2_sub load32 load32 4 (\<lambda>B k. MATH_subcode B k = Some scMOD32) cMath
     (\<lambda>B a b. smod32 a b)"
  by (intro conjI p8_8.implements_sub p16_16.implements_sub p32_32.implements_sub mod_ops)

text \<open>DIV32 and MOD32 agree: for a divisor other than zero, and unless the
  smallest integer is divided by -1, the dividend is quotient times divisor plus remainder;
  the remainder is smaller than the divisor in absolute value and not of the opposite sign
  of the dividend.\<close>

theorem math_div_mod:
  assumes "sdiv32 s X Y = Some q" and "smod32 X Y = Some r" and "Y \<noteq> 0"
  shows "sint X = sint q * sint Y + sint r \<and> \<bar>sint r\<bar> < \<bar>sint Y\<bar> \<and> 0 \<le> sint X * sint r"
proof -
  have Y: "sint Y \<noteq> 0" using assms(3) signed_word_eqI [of Y 0] by auto
  have ov: "\<not> (sint X = - (2 ^ 31) \<and> sint Y = - 1)"
    and q: "q = word_of_int (cdiv (sint X) (sint Y))" and r: "r = word_of_int (cmod (sint X) (sint Y))"
    using assms by (auto simp: sdiv32_def smod32_def split: if_splits)
  note X = sint32_range [of X] and Yr = sint32_range [of Y]
  have "- (2 ^ 31) \<le> cdiv (sint X) (sint Y) \<and> cdiv (sint X) (sint Y) < 2 ^ 31"
    by (rule cdiv_range) (use ov X Y in auto)
  then have sq: "sint q = cdiv (sint X) (sint Y)" unfolding q by (intro sint_of_int_range) simp_all
  note mb = cmod_range [OF Y, of "sint X"]
  have sr: "sint r = cmod (sint X) (sint Y)" unfolding r
    by (intro sint_of_int_range) (use mb Yr in \<open>simp_all add: abs_if split: if_splits\<close>)
  have "sint X * cmod (sint X) (sint Y) = \<bar>sint X\<bar> * (\<bar>sint X\<bar> mod \<bar>sint Y\<bar>)"
    by (simp add: cmod_abs abs_sgn mult.assoc)
  also have "0 \<le> \<dots>" using Y by (intro mult_nonneg_nonneg) simp_all
  finally have "0 \<le> sint X * cmod (sint X) (sint Y)" .
  then show ?thesis
    using cdiv_cmod [of "sint X" "sint Y"] cmod_bound [OF Y] by (simp add: sq sr)
qed

theorem math_div_mod_witness:
  "sint (- 7 :: DATA32) = sint (- 3 :: DATA32) * sint (2 :: DATA32) + sint (- 1 :: DATA32)"
  using math_div_mod [of "sample_vm []" "- 7" 2 "- 3" "- 1"]
  by (simp add: sdiv32_def smod32_def cdiv_def cmod_def)

end
