(* ===== verification/VM_Info.thy ===== *)
theory VM_Info
  imports VM_Arrays VM_Math
begin

text \<open>
  Byte codes of \<open>lms2012.c\<close> that inform and access: \<open>PROGRAM_INFO\<close>, \<open>INFO\<close>, \<open>BP_SET\<close>,
  \<open>RANDOM\<close>, \<open>MEMORY_WRITE\<close> and \<open>MEMORY_READ\<close>, and the conversions \<open>PORT_CNV_OUTPUT\<close>,
  \<open>PORT_CNV_INPUT\<close> and \<open>NOTE_TO_FREQ\<close>.
\<close>

subsection \<open>Text\<close>

definition bytes :: "string \<Rightarrow> UBYTE list" where
  "bytes cs = map of_char cs"

fun put_bytes :: "UBYTE list \<Rightarrow> ptr \<Rightarrow> vm \<Rightarrow> vm option" where
  "put_bytes [] p s = Some s"
| "put_bytes (b # bs) p s = do { s \<leftarrow> store8 s p b; put_bytes bs (ptr_add p 1) s }"

text \<open>\<open>snprintf\<close> of a text that fits or is cut, with the terminating zero.\<close>

definition snprintf :: "ptr \<Rightarrow> ULONG \<Rightarrow> UBYTE list \<Rightarrow> vm \<Rightarrow> vm option" where
  "snprintf p n cs s = (if n = 0 then Some s else put_bytes (take (unat n - 1) cs @ [0]) p s)"

text \<open>\<open>strcmp\<close> of a text with the bytes at a pointer, up to the first difference.\<close>

fun same_text :: "UBYTE list \<Rightarrow> ptr \<Rightarrow> vm \<Rightarrow> bool option" where
  "same_text [] p s = map_option (\<lambda>b. b = 0) (load8 s p)"
| "same_text (c # cs) p s = do {
     b \<leftarrow> load8 s p;
     if b = c then same_text cs (ptr_add p 1) s else Some False
   }"

subsection \<open>PROGRAM_INFO\<close>

definition info_object :: "PRG \<Rightarrow> OBJID \<Rightarrow> bool" where
  "info_object P ObjIndex \<longleftrightarrow> ObjIndex > 0 \<and> ObjIndex \<le> prg_Objects P \<and> prg_Status P \<noteq> STOPPED"

definition info_obj_stop :: "PRGID \<Rightarrow> vm \<Rightarrow> vm option" where
  "info_obj_stop PrgId s = do {
     (ObjIndex, s) \<leftarrow> get16 s;
     P \<leftarrow> Program s PrgId;
     if info_object P ObjIndex
     then upd_obj (prg_pObjList P) ObjIndex (\<lambda>ob. ob\<lparr>ObjStatus := STOPPED\<rparr>) s
     else Some s
   }"

definition restart_clock :: "PRGID \<Rightarrow> vm \<Rightarrow> vm option" where
  "restart_clock PrgId s = do {
     let (ms, s) = GetTimeMS s;
     s \<leftarrow> upd_prg PrgId (\<lambda>P. P\<lparr>prg_StartTime := ms\<rparr>) s;
     let (us, s) = cTimerGetuS s;
     upd_prg PrgId (\<lambda>P. P\<lparr>prg_RunTime := us\<rparr>) s
   }"

definition info_obj_start :: "PRGID \<Rightarrow> vm \<Rightarrow> vm option" where
  "info_obj_start PrgId s = do {
     (ObjIndex, s) \<leftarrow> get16 s;
     P \<leftarrow> Program s PrgId;
     if info_object P ObjIndex then do {
       s \<leftarrow> (if ObjIndex = 1 then restart_clock PrgId s else Some s);
       let L = prg_pObjList P;
       s \<leftarrow> upd_obj L ObjIndex (\<lambda>ob. ob\<lparr>ObjStatus := RUNNING\<rparr>) s;
       off \<leftarrow> OffsetToInstructions s (prg_pObjHead P) ObjIndex;
       s \<leftarrow> upd_obj L ObjIndex (\<lambda>ob. ob\<lparr>Ip := prg_pImage P + off\<rparr>) s;
       n \<leftarrow> TriggerCount s (prg_pObjHead P) ObjIndex;
       upd_obj L ObjIndex (\<lambda>ob. ob\<lparr>u := n\<rparr>) s
     }
     else Some s
   }"

definition info_speed :: "PRG \<Rightarrow> DATA32 option" where
  "info_speed P = to_word (fdiv (fmul (of_integer (uint (prg_InstrCnt P))) (of_integer 1000000))
     (of_integer (uint (prg_InstrTime P))))"

definition info_name :: "PRGID \<Rightarrow> vm \<Rightarrow> vm option" where
  "info_name PrgId s = do {
     P \<leftarrow> Program s PrgId;
     (p, s) \<leftarrow> PrimParPointer s;
     if prg_Status P \<noteq> STOPPED
     then snprintf p (of_nat (vmFILENAMESIZE (Consts s))) (PathList s PrgId @ prg_Name P @ vmEXT_BYTECODE (Consts s)) s
     else zero_bytes (vmFILENAMESIZE (Consts s)) p s
   }"

fun info_program :: "PROGRAM_INFO_SUBCODE \<Rightarrow> PRGID \<Rightarrow> vm \<Rightarrow> vm option" where
  "info_program scOBJ_STOP PrgId s = info_obj_stop PrgId s"
| "info_program scOBJ_START PrgId s = info_obj_start PrgId s"
| "info_program scGET_STATUS PrgId s = do {
     P \<leftarrow> Program s PrgId;
     put8 (OBJSTAT_code (Consts s) (prg_Status P)) s
   }"
| "info_program scGET_PRGRESULT PrgId s = do {
     P \<leftarrow> Program s PrgId;
     put8 (RESULT_code (Consts s) (prg_Result P)) s
   }"
| "info_program scGET_SPEED PrgId s = do {
     P \<leftarrow> Program s PrgId;
     v \<leftarrow> info_speed P;
     put32 v s
   }"
| "info_program scSET_INSTR PrgId s = do {
     (Instr, s) \<leftarrow> get16 s;
     Some (SetInstructions (scast Instr) s)
   }"
| "info_program scGET_PRGNAME PrgId s = info_name PrgId s"

definition ProgramInfo :: "vm \<Rightarrow> vm option" where
  "ProgramInfo s = do {
     (Cmd, s) \<leftarrow> get8 s;
     (PrgId, s) \<leftarrow> get16 s;
     case PROGRAM_INFO_subcode (Consts s) Cmd of
       Some c \<Rightarrow> info_program c PrgId s
     | None \<Rightarrow> Some (SetDispatchStatus FAILBREAK s)
   }"

subsection \<open>INFO\<close>

definition SetVolumePercent :: "DATA8 \<Rightarrow> vm \<Rightarrow> vm" where
  "SetVolumePercent Volume s = s\<lparr>VolumePercent := Volume\<rparr>"

definition GetVolumePercent :: "vm \<Rightarrow> DATA8" where
  "GetVolumePercent s = VolumePercent s"

definition SetSleepMinutes :: "DATA8 \<Rightarrow> vm \<Rightarrow> vm" where
  "SetSleepMinutes Minutes s = s\<lparr>SleepMinutes := Minutes\<rparr>"

definition GetSleepMinutes :: "vm \<Rightarrow> DATA8" where
  "GetSleepMinutes s = SleepMinutes s"

definition ErrString :: "string list" where
  "ErrString = [''TOO_MANY_ERRORS_TO_BUFFER'', ''TYPEDATA_TABLE_FULL'', ''TYPEDATA_FILE_NOT_FOUND'',
     ''ANALOG_DEVICE_FILE_NOT_FOUND'', ''ANALOG_SHARED_MEMORY'', ''UART_DEVICE_FILE_NOT_FOUND'',
     ''UART_SHARED_MEMORY'', ''IIC_DEVICE_FILE_NOT_FOUND'', ''IIC_SHARED_MEMORY'', ''DISPLAY_SHARED_MEMORY'',
     ''OUTPUT_SHARED_MEMORY'', ''COM_COULD_NOT_OPEN_FILE'', ''COM_NAME_TOO_SHORT'', ''COM_NAME_TOO_LONG'',
     ''COM_INTERNAL'', ''VM_INTERNAL'', ''VM_PROGRAM_VALIDATION'', ''VM_PROGRAM_NOT_STARTED'',
     ''VM_PROGRAM_FAIL_BREAK'', ''VM_PROGRAM_INSTRUCTION_BREAK'', ''VM_PROGRAM_NOT_FOUND'', ''FILE_OPEN_ERROR'',
     ''FILE_READ_ERROR'', ''FILE_WRITE_ERROR'', ''FILE_CLOSE_ERROR'', ''FILE_GET_HANDLE_ERROR'', ''FILE_NAME_ERROR'',
     ''USB_SHARED_MEMORY'', ''OUT_OF_MEMORY'']"

text \<open>\<open>Number %02d\<close> for a number that is not in the table, hence from 29 to 127.\<close>

definition digit :: "nat \<Rightarrow> UBYTE" where
  "digit n = of_nat (48 + n mod 10)"

definition number_text :: "nat \<Rightarrow> UBYTE list" where
  "number_text n = bytes ''Number '' @ (if n < 100 then [digit (n div 10), digit n]
     else [digit (n div 100), digit (n div 10), digit n])"

text \<open>A negative number reads outside the table.\<close>

definition error_text :: "DATA8 \<Rightarrow> UBYTE list option" where
  "error_text Number =
     (if sint Number < 0 then None
      else if sint Number < int ERRORS then Some (bytes (ErrString ! unat Number))
      else Some (number_text (unat Number)))"

definition info_error_text :: "vm \<Rightarrow> vm option" where
  "info_error_text s = do {
     (Number, s) \<leftarrow> get8 s;
     (Length, s) \<leftarrow> get8 s;
     (pDestination, s) \<leftarrow> PrimParPointer s;
     (Length, pDestination, s) \<leftarrow>
       (if 0 \<le> sint (Handle s) then do {
          Tmp \<leftarrow> (if sint Number < int ERRORS then map_option (\<lambda>t. of_nat (length t) + 1) (error_text Number)
                  else Some 10);
          let Length = (if sint Length > sint (Tmp :: DATA8) \<or> Length = - 1 then Tmp else Length);
          (p, s) \<leftarrow> VmMemoryResize (Handle s) (scast Length) s;
          Some (Length, PtrMem p, s)
        }
        else Some (Length, pDestination, s));
     if pDestination \<noteq> NULL then do {
       s \<leftarrow> store8 s pDestination 0;
       if Number \<noteq> 0 then do {
         t \<leftarrow> error_text Number;
         snprintf pDestination (scast Length) t s
       }
       else Some s
     }
     else Some s
   }"

fun info_command :: "INFO_SUBCODE \<Rightarrow> vm \<Rightarrow> vm option" where
  "info_command scSET_ERROR s = do { (Number, s) \<leftarrow> get8 s; Some (LogErrorNumber (scast Number) s) }"
| "info_command scGET_ERROR s = do { let (e, s) = LogErrorGet s; put8 (ucast e) s }"
| "info_command scERRORTEXT s = info_error_text s"
| "info_command scGET_VOLUME s = put8 (GetVolumePercent s) s"
| "info_command scSET_VOLUME s = do { (v, s) \<leftarrow> get8 s; Some (SetVolumePercent v s) }"
| "info_command scGET_MINUTES s = put8 (GetSleepMinutes s) s"
| "info_command scSET_MINUTES s = do { (v, s) \<leftarrow> get8 s; Some (SetSleepMinutes v s) }"

definition Info :: "vm \<Rightarrow> vm option" where
  "Info s = do {
     (Cmd, s) \<leftarrow> get8 s;
     case INFO_subcode (Consts s) Cmd of Some c \<Rightarrow> info_command c s | None \<Rightarrow> Some s
   }"

subsection \<open>BP_SET and RANDOM\<close>

definition clear_brkp :: "nat \<Rightarrow> PRG \<Rightarrow> PRG" where
  "clear_brkp No P = P\<lparr>prg_Brkp := (prg_Brkp P)(No := \<lparr>BrkpAddr = 0, BrkpOpCode = 0\<rparr>)\<rparr>"

definition set_break :: "PRGID \<Rightarrow> nat \<Rightarrow> ULONG \<Rightarrow> vm \<Rightarrow> vm option" where
  "set_break PrgId No Addr s = do {
     P \<leftarrow> Program s PrgId;
     if Addr \<noteq> 0 then do {
       op \<leftarrow> load8 s (PtrMem (prg_pImage P + Addr));
       s \<leftarrow> upd_prg PrgId (\<lambda>P. P\<lparr>prg_Brkp := (prg_Brkp P)(No := \<lparr>BrkpAddr = Addr, BrkpOpCode = op\<rparr>)\<rparr>) s;
       store8 s (PtrMem (prg_pImage P + Addr)) (opBP0_code (Consts s) + of_nat No)
     }
     else do {
       let B = prg_Brkp P No;
       s \<leftarrow> (if BrkpAddr B \<noteq> 0 \<and> BrkpOpCode B \<noteq> 0
             then store8 s (PtrMem (prg_pImage P + BrkpAddr B)) (BrkpOpCode B) else Some s);
       upd_prg PrgId (clear_brkp No) s
     }
   }"

text \<open>A negative breakpoint number passes the test and is an index outside the array.\<close>

definition BreakSet :: "vm \<Rightarrow> vm option" where
  "BreakSet s = do {
     (PrgId, s) \<leftarrow> get16 s;
     (No, s) \<leftarrow> get8 s;
     (Addr, s) \<leftarrow> get32 s;
     if sint No < int MAX_BREAKPOINTS then do {
       P \<leftarrow> Program s PrgId;
       if prg_Status P \<noteq> STOPPED then (if sint No < 0 then None else set_break PrgId (unat No) Addr s)
       else Some s
     }
     else Some s
   }"

definition rand :: "vm \<Rightarrow> ULONG \<times> vm" where
  "rand s = (Rand s (RandNo s), s\<lparr>RandNo := Suc (RandNo s)\<rparr>)"

definition random_between :: "DATA16 \<Rightarrow> DATA16 \<Rightarrow> DATA16 \<Rightarrow> DATA16" where
  "random_between vMin vMax r =
     (let Result = (if sint r < 0 then 0 - r else r) in
      word_of_int (cdiv (sint Result * (sint vMax - sint vMin) + 16383) 32767) + vMin)"

definition Random :: "vm \<Rightarrow> vm option" where
  "Random s = do {
     (vMin, s) \<leftarrow> get16 s;
     (vMax, s) \<leftarrow> get16 s;
     let (r, s) = rand s;
     put16 (random_between vMin vMax (ucast r)) s
   }"

subsection \<open>MEMORY_WRITE and MEMORY_READ\<close>

text \<open>The memory of an object and its size; object 0 stands for the globals.\<close>

definition ram_of :: "PRG \<Rightarrow> OBJID \<Rightarrow> vm \<Rightarrow> (ULONG \<times> ULONG) option" where
  "ram_of P ObjId s =
     (if ObjId = 0 then do { Lng \<leftarrow> GlobalBytes s (prg_pImage P); Some (prg_pGlobal P, Lng) }
      else do {
        ob \<leftarrow> get_obj s (prg_pObjList P) ObjId;
        Lng \<leftarrow> LocalBytes s (prg_pObjHead P) ObjId;
        Some (pLocal ob, Lng)
      })"

text \<open>The loops, with \<open>n\<close> bytes to go.\<close>

fun write_ram :: "nat \<Rightarrow> ULONG \<Rightarrow> ULONG \<Rightarrow> ULONG \<Rightarrow> ULONG \<Rightarrow> ptr \<Rightarrow> vm \<Rightarrow> vm option" where
  "write_ram 0 Tmp Offset Ram Lng pArray s = Some s"
| "write_ram (Suc n) Tmp Offset Ram Lng pArray s = do {
     s \<leftarrow> (if Tmp + Offset < Lng
           then copy_cell load8 store8 (ptr_add pArray Tmp) (PtrMem (Ram + (Tmp + Offset))) s
           else Some s);
     write_ram n (Tmp + 1) Offset Ram Lng pArray s
   }"

fun read_ram :: "nat \<Rightarrow> ULONG \<Rightarrow> ULONG \<Rightarrow> ULONG \<Rightarrow> ULONG \<Rightarrow> ptr \<Rightarrow> vm \<Rightarrow> vm option" where
  "read_ram 0 Tmp Offset Ram Lng pArray s = Some s"
| "read_ram (Suc n) Tmp Offset Ram Lng pArray s = do {
     s \<leftarrow> (if Tmp + Offset < Lng
           then copy_cell load8 store8 (PtrMem (Ram + (Tmp + Offset))) (ptr_add pArray Tmp) s
           else store8 s (ptr_add pArray Tmp) 0);
     read_ram n (Tmp + 1) Offset Ram Lng pArray s
   }"

definition access_memory ::
    "(nat \<Rightarrow> ULONG \<Rightarrow> ULONG \<Rightarrow> ULONG \<Rightarrow> ULONG \<Rightarrow> ptr \<Rightarrow> vm \<Rightarrow> vm option) \<Rightarrow> vm \<Rightarrow> vm option" where
  "access_memory loop s = do {
     (PrgId, s) \<leftarrow> get16 s;
     (ObjId, s) \<leftarrow> get16 s;
     (Offset, s) \<leftarrow> get32 s;
     (n, s) \<leftarrow> get32 s;
     (pArray, s) \<leftarrow> PrimParPointer s;
     if PrgId < MAX_PROGRAMS s then do {
       P \<leftarrow> Program s PrgId;
       if prg_Status P \<noteq> STOPPED \<and> ObjId \<le> prg_Objects P then do {
         (Ram, Lng) \<leftarrow> ram_of P ObjId s;
         loop (unat n) 0 Offset Ram Lng pArray s
       }
       else Some s
     }
     else Some s
   }"

definition MemoryWrite :: "vm \<Rightarrow> vm option" where
  "MemoryWrite s = access_memory write_ram s"

definition MemoryRead :: "vm \<Rightarrow> vm option" where
  "MemoryRead s = access_memory read_ram s"

subsection \<open>Ports and notes\<close>

text \<open>\<open>(DATA8) 1 << ((x % 10) - 1)\<close>; a digit 0 or a negative one shifts by a negative count.\<close>

definition port_bit :: "DATA32 \<Rightarrow> DATA8 option" where
  "port_bit x = (let k = cmod (sint x) 10 - 1 in if k < 0 then None else Some (word_of_int (2 ^ nat k)))"

definition port_layer :: "int \<Rightarrow> DATA8" where
  "port_layer x = (let layer = (word_of_int (cmod x 10 - 1) :: DATA8) in if sint layer < 0 then 0 else layer)"

definition PortCnvOutput :: "vm \<Rightarrow> vm option" where
  "PortCnvOutput s = do {
     (Ports, s) \<leftarrow> get32 s;
     secondPortBitfield \<leftarrow> port_bit Ports;
     let inputPorts = cdiv (sint Ports) 10;
     firstPortBitfield \<leftarrow> port_bit (word_of_int inputPorts);
     let layer = port_layer (cdiv inputPorts 10);
     s \<leftarrow> put8 layer s;
     s \<leftarrow> put8 (firstPortBitfield OR secondPortBitfield) s;
     put8 (if sint firstPortBitfield > sint secondPortBitfield then 1 else 0) s
   }"

definition PortCnvInput :: "vm \<Rightarrow> vm option" where
  "PortCnvInput s = do {
     (inputPorts, s) \<leftarrow> get32 s;
     let port = (word_of_int (cmod (sint inputPorts) 10 - 1) :: DATA8);
     s \<leftarrow> put8 (port_layer (cdiv (sint inputPorts) 100)) s;
     put8 port s
   }"

definition NoteFreq :: "(string \<times> DATA16) list" where
  "NoteFreq = [(''C4'', 262), (''D4'', 294), (''E4'', 330), (''F4'', 349), (''G4'', 392), (''A4'', 440), (''B4'', 494),
     (''C5'', 523), (''D5'', 587), (''E5'', 659), (''F5'', 698), (''G5'', 784), (''A5'', 880), (''B5'', 988),
     (''C6'', 1047), (''D6'', 1175), (''E6'', 1319), (''F6'', 1397), (''G6'', 1568), (''A6'', 1760), (''B6'', 1976),
     (''C#4'', 277), (''D#4'', 311), (''F#4'', 370), (''G#4'', 415), (''A#4'', 466),
     (''C#5'', 554), (''D#5'', 622), (''F#5'', 740), (''G#5'', 831), (''A#5'', 932),
     (''C#6'', 1109), (''D#6'', 1245), (''F#6'', 1480), (''G#6'', 1661), (''A#6'', 1865)]"

fun find_note :: "(string \<times> DATA16) list \<Rightarrow> ptr \<Rightarrow> DATA16 \<Rightarrow> vm \<Rightarrow> DATA16 option" where
  "find_note [] pNote Freq s = Some Freq"
| "find_note ((n, f) # ns) pNote Freq s = do {
     same \<leftarrow> same_text (bytes n) pNote s;
     find_note ns pNote (if same then f else Freq) s
   }"

definition NoteToFreq :: "vm \<Rightarrow> vm option" where
  "NoteToFreq s = do {
     (pNote, s) \<leftarrow> PrimParPointer s;
     Freq \<leftarrow> find_note NoteFreq pNote 440 s;
     put16 Freq s
   }"

subsection \<open>Random numbers\<close>

lemma rounded_le: "(n :: int) \<le> 32767 * d \<Longrightarrow> (n + 16383) div 32767 \<le> d"
  by linarith

lemma rounded_over:
  "(2 :: int) \<le> d \<Longrightarrow> d \<le> 32767 \<Longrightarrow> 1 \<le> (32768 * d - 16383) div 32767 \<and> (32768 * d - 16383) div 32767 \<le> d"
  by linarith

lemma random_value:
  fixes vMin vMax :: DATA16
  assumes r: "0 \<le> k" "k \<le> 32767" and m: "sint vMin \<le> sint vMax"
  defines "q \<equiv> cdiv (k * (sint vMax - sint vMin) + 16383) 32767"
  shows "0 \<le> q" and "q \<le> sint vMax - sint vMin" and "sint (word_of_int q + vMin :: DATA16) = q + sint vMin"
proof -
  let ?d = "sint vMax - sint vMin"
  have d: "0 \<le> ?d" using m by simp
  have "0 < k * ?d + 16383" using mult_nonneg_nonneg [OF r(1) d] by linarith
  then have q: "q = (k * ?d + 16383) div 32767" by (simp add: q_def cdiv_def)
  show "0 \<le> q" unfolding q using r(1) d by (simp add: pos_imp_zdiv_nonneg_iff)
  have "k * ?d \<le> 32767 * ?d" using r(2) d by (rule mult_right_mono)
  then show le: "q \<le> ?d" unfolding q by (rule rounded_le)
  have "(word_of_int q + vMin :: DATA16) = word_of_int (q + sint vMin)" by simp
  moreover have "- 32768 \<le> q + sint vMin" "q + sint vMin < 32768"
    using \<open>0 \<le> q\<close> le sint16_range [of vMin] sint16_range [of vMax] by linarith+
  ultimately show "sint (word_of_int q + vMin :: DATA16) = q + sint vMin"
    using sint_of_int_range [where 'a = 16 and i = "q + sint vMin"] by simp
qed

lemma sint_8000: "sint (0x8000 :: DATA16) = - 32768"
  by simp

lemma sint_minus: "sint (0 - x :: DATA16) = sint (word_of_int (- sint x) :: DATA16)"
  by simp

text \<open>C34: \<open>RANDOM\<close> gives a value between the two bounds, both included, whenever
  the low 16 bits of the random number are not \<open>0x8000\<close>; for that number, of which the code takes
  the absolute value in 16 bits, the result is below the lower bound if the bounds are at least
  2 and at most 32767 apart.\<close>

theorem random_range:
  assumes m: "sint vMin \<le> sint vMax"
  shows "(r \<noteq> 0x8000 \<longrightarrow> sint vMin \<le> sint (random_between vMin vMax r) \<and> sint (random_between vMin vMax r) \<le> sint vMax) \<and>
    (r = 0x8000 \<and> 2 \<le> sint vMax - sint vMin \<and> sint vMax - sint vMin \<le> 32767 + sint vMin \<longrightarrow>
       sint (random_between vMin vMax r) < sint vMin)"
proof -
  let ?d = "sint vMax - sint vMin"
  let ?r = "if sint r < 0 then 0 - r else r"
  have inside: "sint vMin \<le> sint (random_between vMin vMax r) \<and> sint (random_between vMin vMax r) \<le> sint vMax"
    if "r \<noteq> 0x8000"
  proof -
    from that have "sint r \<noteq> - 32768" by (metis sint_8000 signed_word_eqI)
    then have "0 \<le> sint ?r" "sint ?r \<le> 32767"
      using sint16_range [of r] sint_of_int_range [where 'a = 16 and i = "- sint r"] by (auto simp: sint_minus)
    from random_value [OF this m]
    show ?thesis
      by (simp add: random_between_def Let_def)
  qed
  have "sint (random_between vMin vMax r) < sint vMin"
    if "r = 0x8000 \<and> 2 \<le> ?d \<and> ?d \<le> 32767 + sint vMin"
  proof -
    from that have d: "2 \<le> ?d" "?d \<le> 32767 + sint vMin" and r: "sint ?r = - 32768" by (auto simp: sint_8000)
    define e where "e = (32768 * ?d - 16383) div 32767"
    have "cdiv (- 32768 * ?d + 16383) 32767 = - e"
      using d by (simp add: cdiv_def e_def algebra_simps)
    moreover have "?d \<le> 32767" using d(2) sint16_range(2) [of vMax] by linarith
    then have "1 \<le> e" "e \<le> ?d" using rounded_over [of ?d] d(1) unfolding e_def by blast+
    moreover have "sint (word_of_int (- e) + vMin :: DATA16) = sint vMin - e"
      using \<open>1 \<le> e\<close> \<open>e \<le> ?d\<close> d sint16_range [of vMin] sint_of_int_range [where 'a = 16 and i = "sint vMin - e"]
      by (simp add: algebra_simps)
    ultimately show ?thesis using \<open>1 \<le> e\<close>
      unfolding random_between_def Let_def r by simp
  qed
  with inside show ?thesis by blast
qed

theorem random_range_witness:
  "sint (random_between 1 6 0x8000) < 1 \<and> 1 \<le> sint (random_between 1 6 77)"
  using random_range [of 1 6 "0x8000"] random_range [of 1 6 77] by simp

subsection \<open>Writing and reading the memory of an object\<close>

lemma ram_byte: "x < (Lng :: ULONG) \<Longrightarrow> Ram + x \<in> span Ram (unat Lng)"
  using unat_ULONG [of Lng] by (simp add: span_in_iff word_less_nat_alt)

lemma array_byte: "k < n \<Longrightarrow> a + of_nat k \<in> span a n"
  by (auto simp: span_def)

lemma of_nat_later: "j < k \<Longrightarrow> k < 2 ^ 32 \<Longrightarrow> (of_nat k :: ULONG) \<noteq> of_nat j"
  by (simp add: word_of_nat_eq_iff take_bit_nat_eq_self)

lemma write_ram_exec:
  assumes "j + n \<le> m" and "m < 2 ^ 32"
    and "span Ram (unat Lng) \<subseteq> dom (mem s)" and "span a m \<subseteq> dom (mem s)" and "span a m \<inter> span Ram (unat Lng) = {}"
  shows "\<exists>t. write_ram n (of_nat j) off Ram Lng (PtrMem a) s = Some t \<and> writes (span Ram (unat Lng)) s t \<and>
    (\<forall>k. j \<le> k \<longrightarrow> k < j + n \<longrightarrow> of_nat k + off < Lng \<longrightarrow> mem t (Ram + (of_nat k + off)) = mem s (a + of_nat k)) \<and>
    (\<forall>x. (\<forall>k. j \<le> k \<longrightarrow> k < j + n \<longrightarrow> of_nat k + off < Lng \<longrightarrow> x \<noteq> of_nat k + off) \<longrightarrow> mem t (Ram + x) = mem s (Ram + x))"
  using assms
proof (induction n arbitrary: j s)
  case 0
  have "write_ram 0 (of_nat j) off Ram Lng (PtrMem a) s = Some s" by (rule write_ram.simps)
  moreover have "writes (span Ram (unat Lng)) s s" by (rule writes_refl)
  ultimately show ?case by (intro exI [of _ s] conjI allI impI) (assumption | linarith | rule refl)+
next
  case (Suc n)
  let ?W = "span Ram (unat Lng)" and ?x = "of_nat j + off"
  have src: "a + of_nat j \<in> dom (mem s)" using Suc.prems(1,4) array_byte [of j m a] by auto
  obtain r where r: "(if ?x < Lng then copy_cell load8 store8 (PtrMem (a + of_nat j)) (PtrMem (Ram + ?x)) s else Some s) = Some r"
      "writes ?W s r" "?x < Lng \<longrightarrow> mem r (Ram + ?x) = mem s (a + of_nat j)" "\<forall>x. \<not> (?x < Lng \<and> x = ?x) \<longrightarrow> mem r (Ram + x) = mem s (Ram + x)"
  proof (cases "?x < Lng")
    case True
    have in_ram: "Ram + ?x \<in> ?W" by (rule ram_byte [OF True])
    then have "span (Ram + ?x) 1 \<subseteq> dom (mem s)" using Suc.prems(3) by (auto simp: span_1)
    moreover obtain v where v: "load8 s (PtrMem (a + of_nat j)) = Some v" using src by auto
    ultimately obtain r where r: "copy_cell load8 store8 (PtrMem (a + of_nat j)) (PtrMem (Ram + ?x)) s = Some r"
        "writes (span (Ram + ?x) 1) s r" "load8 r (PtrMem (Ram + ?x)) = Some v"
      using f8.copy_cell_exec [of s "PtrMem (a + of_nat j)" v "Ram + ?x"] by metis
    moreover have "mem r (Ram + x) = mem s (Ram + x)" if "x \<noteq> ?x" for x
      by (rule writes_mem [OF r(2)]) (use that in \<open>simp add: span_1\<close>)
    moreover have "writes ?W s r" using writes_mono [OF r(2)] in_ram by (simp add: span_1)
    ultimately show ?thesis using True v by (intro that [of r]) simp_all
  next
    case False
    then show ?thesis using writes_refl by (intro that [of s]) simp_all
  qed
  have dom: "dom (mem r) = dom (mem s)" by (rule writesD(11) [OF r(2)])
  obtain t where t: "write_ram n (of_nat (Suc j)) off Ram Lng (PtrMem a) r = Some t" "writes ?W r t"
      "\<And>k. Suc j \<le> k \<Longrightarrow> k < Suc j + n \<Longrightarrow> of_nat k + off < Lng \<Longrightarrow> mem t (Ram + (of_nat k + off)) = mem r (a + of_nat k)"
      "\<And>x. (\<And>k. Suc j \<le> k \<Longrightarrow> k < Suc j + n \<Longrightarrow> of_nat k + off < Lng \<Longrightarrow> x \<noteq> of_nat k + off) \<Longrightarrow> mem t (Ram + x) = mem r (Ram + x)"
    using Suc.IH [of "Suc j" r] Suc.prems unfolding dom by auto
  have same: "mem r (a + of_nat k) = mem s (a + of_nat k)" if "k < m" for k
    by (rule writes_mem [OF r(2)]) (use array_byte [OF that] Suc.prems(5) in blast)
  have later: "of_nat k + off \<noteq> ?x" if "Suc j \<le> k" "k < Suc j + n" for k
    using of_nat_later [of j k] that Suc.prems(1,2) by simp
  have "mem t (Ram + (of_nat k + off)) = mem s (a + of_nat k)" if k: "j \<le> k" "k < j + Suc n" "of_nat k + off < Lng" for k
  proof (cases "k = j")
    case True
    have "mem t (Ram + ?x) = mem r (Ram + ?x)" by (rule t(4)) (use later in metis)
    with True k(3) r(3) show ?thesis by simp
  next
    case False
    then show ?thesis using t(3) [of k] k same [of k] Suc.prems(1) by simp
  qed
  moreover have "mem t (Ram + x) = mem s (Ram + x)"
    if x: "\<forall>k. j \<le> k \<longrightarrow> k < j + Suc n \<longrightarrow> of_nat k + off < Lng \<longrightarrow> x \<noteq> of_nat k + off" for x
  proof -
    have "mem t (Ram + x) = mem r (Ram + x)" by (rule t(4)) (use x in auto)
    moreover have "\<not> (?x < Lng \<and> x = ?x)" using x by auto
    ultimately show ?thesis using r(4) by simp
  qed
  moreover have "write_ram (Suc n) (of_nat j) off Ram Lng (PtrMem a) s = Some t"
    unfolding write_ram.simps ptr_add.simps of_nat_Suc_word r(1) using t(1) by simp
  ultimately show ?case using writes_trans [OF r(2) t(2)] by blast
qed

lemma read_ram_exec:
  assumes "j + n \<le> m" and "m < 2 ^ 32"
    and "span Ram (unat Lng) \<subseteq> dom (mem s)" and "span a m \<subseteq> dom (mem s)" and "span a m \<inter> span Ram (unat Lng) = {}"
  shows "\<exists>t. read_ram n (of_nat j) off Ram Lng (PtrMem a) s = Some t \<and> writes (span a m) s t \<and>
    (\<forall>k. j \<le> k \<longrightarrow> k < j + n \<longrightarrow>
       mem t (a + of_nat k) = (if of_nat k + off < Lng then mem s (Ram + (of_nat k + off)) else Some 0)) \<and>
    (\<forall>k. k < j \<longrightarrow> mem t (a + of_nat k) = mem s (a + of_nat k))"
  using assms
proof (induction n arbitrary: j s)
  case 0
  have "read_ram 0 (of_nat j) off Ram Lng (PtrMem a) s = Some s" by (rule read_ram.simps)
  then show ?case using writes_refl [of "span a m" s] by (intro exI [of _ s] conjI allI impI) (assumption | linarith | rule refl)+
next
  case (Suc n)
  let ?W = "span Ram (unat Lng)" and ?x = "of_nat j + off" and ?y = "a + of_nat j"
  have y: "?y \<in> span a m" using Suc.prems(1) by (intro array_byte) simp
  then have dst: "span ?y 1 \<subseteq> dom (mem s)" "span ?y 1 \<subseteq> span a m" using Suc.prems(4) by (auto simp: span_1)
  obtain r where r: "(if ?x < Lng then copy_cell load8 store8 (PtrMem (Ram + ?x)) (PtrMem ?y) s else store8 s (PtrMem ?y) 0) = Some r"
      "writes (span ?y 1) s r" "mem r ?y = (if ?x < Lng then mem s (Ram + ?x) else Some 0)"
  proof (cases "?x < Lng")
    case True
    obtain v where v: "load8 s (PtrMem (Ram + ?x)) = Some v" using ram_byte [OF True, of Ram] Suc.prems(3) by auto
    obtain r where r: "copy_cell load8 store8 (PtrMem (Ram + ?x)) (PtrMem ?y) s = Some r"
        "writes (span ?y 1) s r" "load8 r (PtrMem ?y) = Some v"
      using f8.copy_cell_exec [OF v dst(1)] by metis
    with True v show ?thesis by (intro that [of r]) simp_all
  next
    case False
    obtain r where "store8 s (PtrMem ?y) 0 = Some r" "writes (span ?y 1) s r" "load8 r (PtrMem ?y) = Some 0"
      using f8.store_exec [OF dst(1), of 0] by metis
    with False show ?thesis by (intro that [of r]) simp_all
  qed
  have w: "writes (span a m) s r" by (rule writes_mono [OF r(2) dst(2)])
  have dom: "dom (mem r) = dom (mem s)" by (rule writesD(11) [OF w])
  obtain t where t: "read_ram n (of_nat (Suc j)) off Ram Lng (PtrMem a) r = Some t" "writes (span a m) r t"
      "\<And>k. Suc j \<le> k \<Longrightarrow> k < Suc j + n \<Longrightarrow>
         mem t (a + of_nat k) = (if of_nat k + off < Lng then mem r (Ram + (of_nat k + off)) else Some 0)"
      "\<And>k. k < Suc j \<Longrightarrow> mem t (a + of_nat k) = mem r (a + of_nat k)"
    using Suc.IH [of "Suc j" r] Suc.prems unfolding dom by auto
  have ram: "mem r (Ram + x) = mem s (Ram + x)" if "x < Lng" for x
    by (rule writes_mem [OF w]) (use ram_byte [OF that] Suc.prems(5) in blast)
  have "mem t (a + of_nat k) = (if of_nat k + off < Lng then mem s (Ram + (of_nat k + off)) else Some 0)"
    if k: "j \<le> k" "k < j + Suc n" for k
  proof (cases "k = j")
    case True
    then show ?thesis using t(4) [of j] r(3) by simp
  next
    case False
    then show ?thesis using t(3) [of k] k ram [of "of_nat k + off"] by simp
  qed
  moreover have "mem t (a + of_nat k) = mem s (a + of_nat k)" if "k < j" for k
  proof -
    have "a + of_nat k \<noteq> ?y" using of_nat_later [of k j] that Suc.prems(1,2) by auto
    then have "mem r (a + of_nat k) = mem s (a + of_nat k)" using writes_mem [OF r(2), of "a + of_nat k"] by (simp add: span_1)
    then show ?thesis using t(4) [of k] that by simp
  qed
  moreover have "read_ram (Suc n) (of_nat j) off Ram Lng (PtrMem a) s = Some t"
    unfolding read_ram.simps ptr_add.simps of_nat_Suc_word r(1) using t(1) by simp
  ultimately show ?case using writes_trans [OF w t(2)] by blast
qed

text \<open>The parameters: program, object, offset, size and the array, which must be a variable.\<close>

definition memory_args :: "vm \<Rightarrow> operand list \<Rightarrow> PRGID \<Rightarrow> OBJID \<Rightarrow> ULONG \<Rightarrow> ULONG \<Rightarrow> ULONG \<Rightarrow> bool" where
  "memory_args s ps p i off n a \<longleftrightarrow> (\<exists>p1 p2 p3 p4 p5. ps = [p1, p2, p3, p4, p5] \<and>
     code_at s (ObjectIp s) (concat (map enc ps)) \<and> (\<forall>q \<in> set ps. wf q \<and> numeric q) \<and>
     operand_value load16 s p1 = Some p \<and> operand_value load16 s p2 = Some i \<and>
     operand_value load32 s p3 = Some off \<and> operand_value load32 s p4 = Some n \<and> operand_addr s p5 = Some a)"

context cell
begin

lemma get_next:
  assumes rs: "regs_only s t" and c: "code_at t (ObjectIp t) (enc p @ bs)" and p: "wf p" "numeric p"
    and v: "operand_value ld s p = Some x"
  shows "\<exists>r. par_get ld t = Some (x, r) \<and> regs_only s r \<and> code_at r (ObjectIp r) bs \<and>
    ObjectIp r = ObjectIp t + of_nat (length (enc p))"
proof -
  have "operand_value ld t p = Some x" using v value_regs [OF p(2) rs] by simp
  moreover have "code_at t (ObjectIp t) (enc p)" using c by (simp add: code_at_append)
  ultimately obtain r where r: "par_get ld t = Some (x, r)" "regs_only t r" "ObjectIp r = ObjectIp t + of_nat (length (enc p))"
    using get_exec [OF _ p(1)] by (auto simp: past_def)
  moreover have "code_at r (ObjectIp r) bs" using c r(3) by (simp add: code_at_append code_regs [OF r(2)])
  ultimately show ?thesis using regs_only_trans [OF rs r(2)] by blast
qed

end

lemma memory_args_run:
  assumes "memory_args s ps p i off n a"
  shows "\<exists>r1 r2 r3 r4 r. get16 s = Some (p, r1) \<and> get16 r1 = Some (i, r2) \<and> get32 r2 = Some (off, r3) \<and>
    get32 r3 = Some (n, r4) \<and> PrimParPointer r4 = Some (PtrMem a, r) \<and> regs_only s r \<and>
    ObjectIp r = ObjectIp s + of_nat (length (concat (map enc ps)))"
proof -
  obtain p1 p2 p3 p4 p5 where ps: "ps = [p1, p2, p3, p4, p5]" and wf: "\<forall>q \<in> set ps. wf q \<and> numeric q"
      and c: "code_at s (ObjectIp s) (enc p1 @ enc p2 @ enc p3 @ enc p4 @ enc p5)"
      and v: "operand_value load16 s p1 = Some p" "operand_value load16 s p2 = Some i"
        "operand_value load32 s p3 = Some off" "operand_value load32 s p4 = Some n" "operand_addr s p5 = Some a"
    using assms by (auto simp: memory_args_def)
  obtain r1 where r1: "get16 s = Some (p, r1)" "regs_only s r1" "code_at r1 (ObjectIp r1) (enc p2 @ enc p3 @ enc p4 @ enc p5)"
      "ObjectIp r1 = ObjectIp s + of_nat (length (enc p1))"
    using c16.get_next [OF regs_only_refl c] wf v(1) ps by auto
  obtain r2 where r2: "get16 r1 = Some (i, r2)" "regs_only s r2" "code_at r2 (ObjectIp r2) (enc p3 @ enc p4 @ enc p5)"
      "ObjectIp r2 = ObjectIp r1 + of_nat (length (enc p2))"
    using c16.get_next [OF r1(2,3)] wf v(2) ps by auto
  obtain r3 where r3: "get32 r2 = Some (off, r3)" "regs_only s r3" "code_at r3 (ObjectIp r3) (enc p4 @ enc p5)"
      "ObjectIp r3 = ObjectIp r2 + of_nat (length (enc p3))"
    using c32.get_next [OF r2(2,3)] wf v(3) ps by auto
  obtain r4 where r4: "get32 r3 = Some (n, r4)" "regs_only s r4" "code_at r4 (ObjectIp r4) (enc p5)"
      "ObjectIp r4 = ObjectIp r3 + of_nat (length (enc p4))"
    using c32.get_next [OF r3(2,3)] wf v(4) ps by auto
  have w5: "wf p5" "numeric p5" using wf ps by auto
  have "operand_addr r4 p5 = Some a" using v(5) operand_addr_regs [OF w5(2) r4(2)] by simp
  then obtain x h where d: "denote r4 p5 = Some (PtrMem a, x, h)" using denote_addr by blast
  let ?r = "r4\<lparr>ObjectIp := ObjectIp r4 + of_nat (length (enc p5)), Value := x, Handle := h\<rparr>"
  have "PrimParPointer r4 = Some (PtrMem a, ?r)" using decode [OF r4(3) w5(1)] d by simp
  moreover have "regs_only s ?r" using r4(2) by simp
  ultimately show ?thesis
    using r1(1,4) r2(1,4) r3(1,4) r4(1,4)
    by (intro exI [of _ r1] exI [of _ r2] exI [of _ r3] exI [of _ r4] exI [of _ ?r])
      (simp add: ps add.assoc)
qed

text \<open>The memory of object \<open>i\<close> of program \<open>p\<close>, which is not stopped: \<open>Lng\<close> bytes at \<open>Ram\<close>.\<close>

definition ram_at :: "vm \<Rightarrow> PRGID \<Rightarrow> OBJID \<Rightarrow> ULONG \<Rightarrow> ULONG \<Rightarrow> bool" where
  "ram_at s p i Ram Lng \<longleftrightarrow> p < MAX_PROGRAMS s \<and> span Ram (unat Lng) \<subseteq> dom (mem s) \<and>
     (\<exists>P. Program s p = Some P \<and> prg_Status P \<noteq> STOPPED \<and> i \<le> prg_Objects P \<and> ram_of P i s = Some (Ram, Lng))"

lemma ram_of_regs: "regs_only s t \<Longrightarrow> ram_of P i t = ram_of P i s"
proof -
  assume "regs_only s t"
  then obtain ip v h where t: "t = s\<lparr>ObjectIp := ip, Value := v, Handle := h\<rparr>" by (auto simp: regs_only_def)
  show ?thesis
    by (simp add: t ram_of_def GlobalBytes_def LocalBytes_def get_obj_def obj_ptr_def obj_at_def load32_def cong: if_cong)
qed

lemma access_memory_run:
  assumes args: "memory_args s ps p i off n a" and ram: "ram_at s p i Ram Lng"
  shows "\<exists>r. access_memory loop s = loop (unat n) 0 off Ram Lng (PtrMem a) r \<and> regs_only s r \<and>
    ObjectIp r = ObjectIp s + of_nat (length (concat (map enc ps)))"
proof -
  obtain r1 r2 r3 r4 r where r: "get16 s = Some (p, r1)" "get16 r1 = Some (i, r2)" "get32 r2 = Some (off, r3)"
      "get32 r3 = Some (n, r4)" "PrimParPointer r4 = Some (PtrMem a, r)" "regs_only s r"
      "ObjectIp r = ObjectIp s + of_nat (length (concat (map enc ps)))"
    using memory_args_run [OF args] by blast
  obtain P where P: "Program s p = Some P" "prg_Status P \<noteq> STOPPED" "i \<le> prg_Objects P" "ram_of P i s = Some (Ram, Lng)"
      "p < MAX_PROGRAMS s"
    using ram by (auto simp: ram_at_def)
  then have "access_memory loop s = loop (unat n) 0 off Ram Lng (PtrMem a) r"
    using r(1-5) regs_onlyD [OF r(6)] ram_of_regs [OF r(6)] by (simp add: access_memory_def MAX_PROGRAMS_def)
  with r(6,7) show ?thesis by blast
qed

lemma small_word: "unat k < unat n \<longleftrightarrow> k < n" for k :: ULONG
  by (simp add: word_less_nat_alt)

lemma ram_loops_ip:
  "write_ram n T off Ram Lng (PtrMem a) s = Some t \<Longrightarrow> ObjectIp t = ObjectIp s"
  "read_ram n T off Ram Lng (PtrMem a) s = Some t \<Longrightarrow> ObjectIp t = ObjectIp s"
  by (induction n arbitrary: T s) (auto simp: bind_conv copy_cell_def split: if_splits)

text \<open>C32: \<open>MEMORY_WRITE\<close> returns and changes only bytes of the memory of the
  object it names, whatever offset and size it is given: the byte at \<open>x\<close> becomes byte \<open>x - off\<close>
  of the array, if there is one, and stays as it is otherwise.\<close>

theorem memory_write:
  assumes args: "memory_args s ps p i off n a" and ram: "ram_at s p i Ram Lng"
    and arr: "span a (unat n) \<subseteq> dom (mem s)" "span a (unat n) \<inter> span Ram (unat Lng) = {}"
  shows "\<exists>t. MemoryWrite s = Some t \<and> writes (span Ram (unat Lng)) s t \<and>
    ObjectIp t = ObjectIp s + of_nat (length (concat (map enc ps))) \<and>
    (\<forall>x. mem t (Ram + x) = (if x < Lng \<and> x - off < n then mem s (a + (x - off)) else mem s (Ram + x)))"
proof -
  obtain r where r: "MemoryWrite s = write_ram (unat n) 0 off Ram Lng (PtrMem a) r" "regs_only s r"
      "ObjectIp r = ObjectIp s + of_nat (length (concat (map enc ps)))"
    using access_memory_run [OF args ram, of write_ram] by (auto simp: MemoryWrite_def)
  note m = regs_onlyD(1) [OF r(2)]
  have bound: "0 + unat n \<le> unat n" "unat n < 2 ^ 32" using unat_ULONG [of n] by simp_all
  have sub: "span Ram (unat Lng) \<subseteq> dom (mem r)" "span a (unat n) \<subseteq> dom (mem r)"
    using ram arr(1) by (simp_all add: ram_at_def m)
  obtain t where t: "write_ram (unat n) 0 off Ram Lng (PtrMem a) r = Some t" "writes (span Ram (unat Lng)) r t"
      "\<And>k. k < unat n \<Longrightarrow> of_nat k + off < Lng \<Longrightarrow> mem t (Ram + (of_nat k + off)) = mem s (a + of_nat k)"
      "\<And>x. (\<And>k. k < unat n \<Longrightarrow> of_nat k + off < Lng \<Longrightarrow> x \<noteq> of_nat k + off) \<Longrightarrow> mem t (Ram + x) = mem s (Ram + x)"
    using write_ram_exec [OF bound sub arr(2), of off] unfolding m by auto
  have "mem t (Ram + x) = (if x < Lng \<and> x - off < n then mem s (a + (x - off)) else mem s (Ram + x))" for x
  proof (cases "x < Lng \<and> x - off < n")
    case True
    then show ?thesis using t(3) [of "unat (x - off)"] by (simp add: small_word)
  next
    case False
    have "x \<noteq> of_nat k + off" if "k < unat n" "of_nat k + off < Lng" for k
    proof
      assume "x = of_nat k + off"
      then have "x - off < n" "x < Lng" using that bound(2) by (simp_all add: word_less_nat_alt unat_of_nat)
      with False show False by simp
    qed
    then have "mem t (Ram + x) = mem s (Ram + x)" by (rule t(4))
    with False show ?thesis by auto
  qed
  moreover have "ObjectIp t = ObjectIp r" by (rule ram_loops_ip(1) [OF t(1)])
  ultimately show ?thesis
    using r t(1) writes_trans [OF writes_regs [OF r(2)] t(2)] by auto
qed

text \<open>\<open>MEMORY_READ\<close> fills the array from the memory of the object, with zeros
  where the offset leads outside that memory, and changes nothing but the array.\<close>

theorem memory_read:
  assumes args: "memory_args s ps p i off n a" and ram: "ram_at s p i Ram Lng"
    and arr: "span a (unat n) \<subseteq> dom (mem s)" "span a (unat n) \<inter> span Ram (unat Lng) = {}"
  shows "\<exists>t. MemoryRead s = Some t \<and> writes (span a (unat n)) s t \<and>
    ObjectIp t = ObjectIp s + of_nat (length (concat (map enc ps))) \<and>
    (\<forall>k < n. mem t (a + k) = (if k + off < Lng then mem s (Ram + (k + off)) else Some 0))"
proof -
  obtain r where r: "MemoryRead s = read_ram (unat n) 0 off Ram Lng (PtrMem a) r" "regs_only s r"
      "ObjectIp r = ObjectIp s + of_nat (length (concat (map enc ps)))"
    using access_memory_run [OF args ram, of read_ram] by (auto simp: MemoryRead_def)
  note m = regs_onlyD(1) [OF r(2)]
  have bound: "0 + unat n \<le> unat n" "unat n < 2 ^ 32" using unat_ULONG [of n] by simp_all
  have sub: "span Ram (unat Lng) \<subseteq> dom (mem r)" "span a (unat n) \<subseteq> dom (mem r)"
    using ram arr(1) by (simp_all add: ram_at_def m)
  obtain t where t: "read_ram (unat n) 0 off Ram Lng (PtrMem a) r = Some t" "writes (span a (unat n)) r t"
      "\<And>k. k < unat n \<Longrightarrow> mem t (a + of_nat k) = (if of_nat k + off < Lng then mem s (Ram + (of_nat k + off)) else Some 0)"
    using read_ram_exec [OF bound sub arr(2), of off] unfolding m by auto
  have "mem t (a + k) = (if k + off < Lng then mem s (Ram + (k + off)) else Some 0)" if "k < n" for k
    using t(3) [of "unat k"] that by (simp add: small_word)
  moreover have "ObjectIp t = ObjectIp r" by (rule ram_loops_ip(2) [OF t(1)])
  ultimately show ?thesis
    using r t(1) writes_trans [OF writes_regs [OF r(2)] t(2)] by auto
qed

text \<open>Writing four bytes from local variable 0 to the globals from offset 6 on, of which there
  are eight.\<close>

definition sample_access :: vm where
  "sample_access = (sample_vm [])\<lparr>ObjectIp := 0x110,
     mem := (sample_mem [0, 0, 0, 0, 0, 0, 0, 0, 0, 0, 0, 0, 8, 0, 0, 0, 1, 0, 6, 4, 0x40])(0x2000 \<mapsto> 7),
     Program := [1 \<mapsto> sample_prg\<lparr>prg_Status := RUNNING\<rparr>]\<rparr>"

definition sample_access_pars :: "operand list" where
  "sample_access_pars = [Const W0 1, Const W0 0, Const W0 6, Const W0 4, Var Local W0 0]"

lemma sample_access_args: "memory_args sample_access sample_access_pars 1 0 6 4 0x2000"
  by (simp add: memory_args_def sample_access_pars_def LC0_def LV0_def primpar_defs byte_of_def operand_value_def
      c16.ld_value c32.ld_value operand_addr_def sample_access_def sample_mem_def)

lemma span_8: "span a 8 = {a, a + 1, a + 2, a + 3, a + 4, a + 5, a + 6, a + 7}"
proof -
  have "span a 8 = span a (4 + 4)" by simp
  then show ?thesis unfolding span_append span_4 by (auto simp: add.assoc)
qed

lemma sample_access_ram: "ram_at sample_access 1 0 0x1000 8"
proof -
  have "span 0x1000 8 \<subseteq> dom (mem sample_access)"
    by (simp add: span_8 domIff) (simp add: sample_access_def sample_mem_def)
  then show ?thesis
    by (simp add: ram_at_def)
      (simp add: sample_access_def MAX_PROGRAMS_def sample_prg_def ram_of_def GlobalBytes_def load32_def sample_mem_def)
qed

lemma sample_access_array: "span 0x2000 (unat (4 :: ULONG)) \<subseteq> dom (mem sample_access)"
  "span 0x2000 (unat (4 :: ULONG)) \<inter> span 0x1000 (unat (8 :: ULONG)) = {}"
  by (simp_all add: span_4 span_8 domIff) (simp add: sample_access_def sample_mem_def)

theorem memory_write_witness: "\<exists>t. MemoryWrite sample_access = Some t \<and> mem t 0x1006 = Some 7"
proof -
  have "mem sample_access 0x2000 = Some 7" by (simp add: sample_access_def)
  then show ?thesis
    using memory_write [OF sample_access_args sample_access_ram sample_access_array]
    by (auto dest!: spec [of _ 6])
qed

theorem memory_read_witness: "\<exists>t. MemoryRead sample_access = Some t \<and> mem t 0x2002 = Some 0"
  using memory_read [OF sample_access_args sample_access_ram sample_access_array]
  by (auto dest!: spec [of _ 2])

text \<open>C33: setting a break point on a byte code other than 0 and clearing it
  again restores the image, and the program has no break point of that number afterwards.\<close>

theorem break_set_clear:
  assumes P: "Program s p = Some P" and op: "mem s (prg_pImage P + Addr) = Some op" "op \<noteq> 0" and Addr: "Addr \<noteq> 0"
  shows "\<exists>t r. set_break p No Addr s = Some t \<and> mem t (prg_pImage P + Addr) = Some (opBP0_code (Consts s) + of_nat No) \<and>
    set_break p No 0 t = Some r \<and> mem r = mem s \<and> Program r = (Program s)(p \<mapsto> clear_brkp No P)"
proof -
  let ?a = "prg_pImage P + Addr" and ?B = "\<lambda>P. P\<lparr>prg_Brkp := (prg_Brkp P)(No := \<lparr>BrkpAddr = Addr, BrkpOpCode = op\<rparr>)\<rparr>"
  let ?t = "s\<lparr>Program := (Program s)(p \<mapsto> ?B P), mem := (mem s)(?a \<mapsto> opBP0_code (Consts s) + of_nat No)\<rparr>"
  have t: "set_break p No Addr s = Some ?t"
    using P op Addr by (simp add: set_break_def upd_prg_def)
  have "set_break p No 0 ?t = Some (?t\<lparr>mem := mem s, Program := (Program s)(p \<mapsto> clear_brkp No P)\<rparr>)"
    using op Addr by (simp add: set_break_def upd_prg_def clear_brkp_def fun_upd_idem)
  with t show ?thesis by simp
qed

theorem break_set_clear_witness:
  "\<exists>t r. set_break 1 0 16 sample_access = Some t \<and> set_break 1 0 0 t = Some r \<and> mem r = mem sample_access"
proof -
  have "Program sample_access 1 = Some (sample_prg\<lparr>prg_Status := RUNNING\<rparr>)"
    "mem sample_access (prg_pImage (sample_prg\<lparr>prg_Status := RUNNING\<rparr>) + 16) = Some 1"
    by (simp_all add: sample_access_def sample_prg_def sample_mem_def)
  from break_set_clear [OF this, of 0] show ?thesis by auto
qed

end
