(* ===== verification/VM_Compare.thy ===== *)
theory VM_Compare
  imports VM_Params VM_Float
begin

text \<open>
  The compare and select byte codes of \<open>c_compare.c\<close>: a comparison of two operands of one
  type writes 1 or 0 to an 8-bit destination, a selection copies one of two operands.
\<close>

subsection \<open>The code\<close>

definition cCompareLt8 :: "vm \<Rightarrow> vm option" where
  "cCompareLt8 s = do {
     (Tmp, s) \<leftarrow> get8 s;
     (x, s) \<leftarrow> get8 s;
     if sint Tmp < sint x then put8 1 s else put8 0 s
   }"

definition cCompareLt16 :: "vm \<Rightarrow> vm option" where
  "cCompareLt16 s = do {
     (Tmp, s) \<leftarrow> get16 s;
     (x, s) \<leftarrow> get16 s;
     if sint Tmp < sint x then put8 1 s else put8 0 s
   }"

definition cCompareLt32 :: "vm \<Rightarrow> vm option" where
  "cCompareLt32 s = do {
     (Tmp, s) \<leftarrow> get32 s;
     (x, s) \<leftarrow> get32 s;
     if sint Tmp < sint x then put8 1 s else put8 0 s
   }"

definition cCompareLtF :: "vm \<Rightarrow> vm option" where
  "cCompareLtF s = do {
     (Tmp, s) \<leftarrow> get32 s;
     (x, s) \<leftarrow> get32 s;
     if flt Tmp x then put8 1 s else put8 0 s
   }"

definition cCompareGt8 :: "vm \<Rightarrow> vm option" where
  "cCompareGt8 s = do {
     (Tmp, s) \<leftarrow> get8 s;
     (x, s) \<leftarrow> get8 s;
     if sint Tmp > sint x then put8 1 s else put8 0 s
   }"

definition cCompareGt16 :: "vm \<Rightarrow> vm option" where
  "cCompareGt16 s = do {
     (Tmp, s) \<leftarrow> get16 s;
     (x, s) \<leftarrow> get16 s;
     if sint Tmp > sint x then put8 1 s else put8 0 s
   }"

definition cCompareGt32 :: "vm \<Rightarrow> vm option" where
  "cCompareGt32 s = do {
     (Tmp, s) \<leftarrow> get32 s;
     (x, s) \<leftarrow> get32 s;
     if sint Tmp > sint x then put8 1 s else put8 0 s
   }"

definition cCompareGtF :: "vm \<Rightarrow> vm option" where
  "cCompareGtF s = do {
     (Tmp, s) \<leftarrow> get32 s;
     (x, s) \<leftarrow> get32 s;
     if flt x Tmp then put8 1 s else put8 0 s
   }"

definition cCompareEq8 :: "vm \<Rightarrow> vm option" where
  "cCompareEq8 s = do {
     (Tmp, s) \<leftarrow> get8 s;
     (x, s) \<leftarrow> get8 s;
     if Tmp = x then put8 1 s else put8 0 s
   }"

definition cCompareEq16 :: "vm \<Rightarrow> vm option" where
  "cCompareEq16 s = do {
     (Tmp, s) \<leftarrow> get16 s;
     (x, s) \<leftarrow> get16 s;
     if Tmp = x then put8 1 s else put8 0 s
   }"

definition cCompareEq32 :: "vm \<Rightarrow> vm option" where
  "cCompareEq32 s = do {
     (Tmp, s) \<leftarrow> get32 s;
     (x, s) \<leftarrow> get32 s;
     if Tmp = x then put8 1 s else put8 0 s
   }"

definition cCompareEqF :: "vm \<Rightarrow> vm option" where
  "cCompareEqF s = do {
     (Tmp, s) \<leftarrow> get32 s;
     (x, s) \<leftarrow> get32 s;
     if feq Tmp x then put8 1 s else put8 0 s
   }"

definition cCompareNEq8 :: "vm \<Rightarrow> vm option" where
  "cCompareNEq8 s = do {
     (Tmp, s) \<leftarrow> get8 s;
     (x, s) \<leftarrow> get8 s;
     if Tmp \<noteq> x then put8 1 s else put8 0 s
   }"

definition cCompareNEq16 :: "vm \<Rightarrow> vm option" where
  "cCompareNEq16 s = do {
     (Tmp, s) \<leftarrow> get16 s;
     (x, s) \<leftarrow> get16 s;
     if Tmp \<noteq> x then put8 1 s else put8 0 s
   }"

definition cCompareNEq32 :: "vm \<Rightarrow> vm option" where
  "cCompareNEq32 s = do {
     (Tmp, s) \<leftarrow> get32 s;
     (x, s) \<leftarrow> get32 s;
     if Tmp \<noteq> x then put8 1 s else put8 0 s
   }"

definition cCompareNEqF :: "vm \<Rightarrow> vm option" where
  "cCompareNEqF s = do {
     (Tmp, s) \<leftarrow> get32 s;
     (x, s) \<leftarrow> get32 s;
     if \<not> feq Tmp x then put8 1 s else put8 0 s
   }"

definition cCompareLtEq8 :: "vm \<Rightarrow> vm option" where
  "cCompareLtEq8 s = do {
     (Tmp, s) \<leftarrow> get8 s;
     (x, s) \<leftarrow> get8 s;
     if sint Tmp \<le> sint x then put8 1 s else put8 0 s
   }"

definition cCompareLtEq16 :: "vm \<Rightarrow> vm option" where
  "cCompareLtEq16 s = do {
     (Tmp, s) \<leftarrow> get16 s;
     (x, s) \<leftarrow> get16 s;
     if sint Tmp \<le> sint x then put8 1 s else put8 0 s
   }"

definition cCompareLtEq32 :: "vm \<Rightarrow> vm option" where
  "cCompareLtEq32 s = do {
     (Tmp, s) \<leftarrow> get32 s;
     (x, s) \<leftarrow> get32 s;
     if sint Tmp \<le> sint x then put8 1 s else put8 0 s
   }"

definition cCompareLtEqF :: "vm \<Rightarrow> vm option" where
  "cCompareLtEqF s = do {
     (Tmp, s) \<leftarrow> get32 s;
     (x, s) \<leftarrow> get32 s;
     if fle Tmp x then put8 1 s else put8 0 s
   }"

definition cCompareGtEq8 :: "vm \<Rightarrow> vm option" where
  "cCompareGtEq8 s = do {
     (Tmp, s) \<leftarrow> get8 s;
     (x, s) \<leftarrow> get8 s;
     if sint Tmp \<ge> sint x then put8 1 s else put8 0 s
   }"

definition cCompareGtEq16 :: "vm \<Rightarrow> vm option" where
  "cCompareGtEq16 s = do {
     (Tmp, s) \<leftarrow> get16 s;
     (x, s) \<leftarrow> get16 s;
     if sint Tmp \<ge> sint x then put8 1 s else put8 0 s
   }"

definition cCompareGtEq32 :: "vm \<Rightarrow> vm option" where
  "cCompareGtEq32 s = do {
     (Tmp, s) \<leftarrow> get32 s;
     (x, s) \<leftarrow> get32 s;
     if sint Tmp \<ge> sint x then put8 1 s else put8 0 s
   }"

definition cCompareGtEqF :: "vm \<Rightarrow> vm option" where
  "cCompareGtEqF s = do {
     (Tmp, s) \<leftarrow> get32 s;
     (x, s) \<leftarrow> get32 s;
     if fle x Tmp then put8 1 s else put8 0 s
   }"

definition cCompareSelect8 :: "vm \<Rightarrow> vm option" where
  "cCompareSelect8 s = do {
     (Flag, s) \<leftarrow> get8 s;
     (Source1, s) \<leftarrow> get8 s;
     (Source2, s) \<leftarrow> get8 s;
     if Flag \<noteq> 0 then put8 Source1 s else put8 Source2 s
   }"

definition cCompareSelect16 :: "vm \<Rightarrow> vm option" where
  "cCompareSelect16 s = do {
     (Flag, s) \<leftarrow> get8 s;
     (Source1, s) \<leftarrow> get16 s;
     (Source2, s) \<leftarrow> get16 s;
     if Flag \<noteq> 0 then put16 Source1 s else put16 Source2 s
   }"

definition cCompareSelect32 :: "vm \<Rightarrow> vm option" where
  "cCompareSelect32 s = do {
     (Flag, s) \<leftarrow> get8 s;
     (Source1, s) \<leftarrow> get32 s;
     (Source2, s) \<leftarrow> get32 s;
     if Flag \<noteq> 0 then put32 Source1 s else put32 Source2 s
   }"

definition cCompareSelectF :: "vm \<Rightarrow> vm option" where
  "cCompareSelectF s = do {
     (Flag, s) \<leftarrow> get8 s;
     (Source1, s) \<leftarrow> get32 s;
     (Source2, s) \<leftarrow> get32 s;
     if Flag \<noteq> 0 then put32 Source1 s else put32 Source2 s
   }"

text \<open>The entries of \<open>PrimDispatchTable\<close>.\<close>

fun cCompare :: "relation \<Rightarrow> dtype \<Rightarrow> vm \<Rightarrow> vm option" where
  "cCompare LT T8 = cCompareLt8"
| "cCompare LT T16 = cCompareLt16"
| "cCompare LT T32 = cCompareLt32"
| "cCompare LT TF = cCompareLtF"
| "cCompare GT T8 = cCompareGt8"
| "cCompare GT T16 = cCompareGt16"
| "cCompare GT T32 = cCompareGt32"
| "cCompare GT TF = cCompareGtF"
| "cCompare EQ T8 = cCompareEq8"
| "cCompare EQ T16 = cCompareEq16"
| "cCompare EQ T32 = cCompareEq32"
| "cCompare EQ TF = cCompareEqF"
| "cCompare NEQ T8 = cCompareNEq8"
| "cCompare NEQ T16 = cCompareNEq16"
| "cCompare NEQ T32 = cCompareNEq32"
| "cCompare NEQ TF = cCompareNEqF"
| "cCompare LTEQ T8 = cCompareLtEq8"
| "cCompare LTEQ T16 = cCompareLtEq16"
| "cCompare LTEQ T32 = cCompareLtEq32"
| "cCompare LTEQ TF = cCompareLtEqF"
| "cCompare GTEQ T8 = cCompareGtEq8"
| "cCompare GTEQ T16 = cCompareGtEq16"
| "cCompare GTEQ T32 = cCompareGtEq32"
| "cCompare GTEQ TF = cCompareGtEqF"

fun cCompareSelect :: "dtype \<Rightarrow> vm \<Rightarrow> vm option" where
  "cCompareSelect T8 = cCompareSelect8"
| "cCompareSelect T16 = cCompareSelect16"
| "cCompareSelect T32 = cCompareSelect32"
| "cCompareSelect TF = cCompareSelectF"

subsection \<open>The relations\<close>

fun rel_int :: "relation \<Rightarrow> int \<Rightarrow> int \<Rightarrow> bool" where
  "rel_int LT a b \<longleftrightarrow> a < b"
| "rel_int GT a b \<longleftrightarrow> b < a"
| "rel_int EQ a b \<longleftrightarrow> a = b"
| "rel_int NEQ a b \<longleftrightarrow> a \<noteq> b"
| "rel_int LTEQ a b \<longleftrightarrow> a \<le> b"
| "rel_int GTEQ a b \<longleftrightarrow> b \<le> a"

fun rel_float :: "relation \<Rightarrow> DATAF \<Rightarrow> DATAF \<Rightarrow> bool" where
  "rel_float LT a b \<longleftrightarrow> flt a b"
| "rel_float GT a b \<longleftrightarrow> flt b a"
| "rel_float EQ a b \<longleftrightarrow> feq a b"
| "rel_float NEQ a b \<longleftrightarrow> \<not> feq a b"
| "rel_float LTEQ a b \<longleftrightarrow> fle a b"
| "rel_float GTEQ a b \<longleftrightarrow> fle b a"

definition flag_of :: "bool \<Rightarrow> UBYTE" where
  "flag_of b = (if b then 1 else 0)"

lemma sint_eq_iff: "a = b \<longleftrightarrow> sint a = sint b" for a b :: "'a::len word"
  using signed_word_eqI [of a b] by auto

lemma flag_bind: "(if c then f 1 else f 0) = f (flag_of c)"
  by (simp add: flag_of_def)

lemma compare_ops:
  "cCompare R T8 = binop load8 store8 (\<lambda>B a b. Some (flag_of (rel_int R (sint a) (sint b))))"
  "cCompare R T16 = binop load16 store8 (\<lambda>B a b. Some (flag_of (rel_int R (sint a) (sint b))))"
  "cCompare R T32 = binop load32 store8 (\<lambda>B a b. Some (flag_of (rel_int R (sint a) (sint b))))"
  "cCompare R TF = binop load32 store8 (\<lambda>B a b. Some (flag_of (rel_float R a b)))"
  by (rule ext; cases R; simp add: binop_def flag_of_def sint_eq_iff if_distrib [of "\<lambda>x. put8 x _"]
    cCompareLt8_def cCompareLt16_def cCompareLt32_def cCompareLtF_def cCompareGt8_def cCompareGt16_def cCompareGt32_def cCompareGtF_def
    cCompareEq8_def cCompareEq16_def cCompareEq32_def cCompareEqF_def
    cCompareNEq8_def cCompareNEq16_def cCompareNEq32_def cCompareNEqF_def
    cCompareLtEq8_def cCompareLtEq16_def cCompareLtEq32_def cCompareLtEqF_def cCompareGtEq8_def cCompareGtEq16_def cCompareGtEq32_def cCompareGtEqF_def)+

lemma select_ops:
  "get8 s = Some (k, t) \<Longrightarrow> k \<noteq> 0 \<Longrightarrow> cCompareSelect8 s = binop load8 store8 (\<lambda>B a b. Some a) t"
  "get8 s = Some (k, t) \<Longrightarrow> k = 0 \<Longrightarrow> cCompareSelect8 s = binop load8 store8 (\<lambda>B a b. Some b) t"
  "get8 s = Some (k, t) \<Longrightarrow> k \<noteq> 0 \<Longrightarrow> cCompareSelect16 s = binop load16 store16 (\<lambda>B a b. Some a) t"
  "get8 s = Some (k, t) \<Longrightarrow> k = 0 \<Longrightarrow> cCompareSelect16 s = binop load16 store16 (\<lambda>B a b. Some b) t"
  "get8 s = Some (k, t) \<Longrightarrow> k \<noteq> 0 \<Longrightarrow> cCompareSelect32 s = binop load32 store32 (\<lambda>B a b. Some a) t"
  "get8 s = Some (k, t) \<Longrightarrow> k = 0 \<Longrightarrow> cCompareSelect32 s = binop load32 store32 (\<lambda>B a b. Some b) t"
  "get8 s = Some (k, t) \<Longrightarrow> k \<noteq> 0 \<Longrightarrow> cCompareSelectF s = binop load32 store32 (\<lambda>B a b. Some a) t"
  "get8 s = Some (k, t) \<Longrightarrow> k = 0 \<Longrightarrow> cCompareSelectF s = binop load32 store32 (\<lambda>B a b. Some b) t"
  by (simp_all add: cCompareSelect8_def cCompareSelect16_def cCompareSelect32_def
      cCompareSelectF_def binop_def)

subsection \<open>Properties\<close>

text \<open>C37: the 24 compare byte codes write 1 to their 8-bit destination exactly if the
  signed (or floating point) relation holds between the operands, and 0 otherwise.\<close>

theorem compare_relation:
  "implements2 load8 load8 1 (cCompare R T8) (\<lambda>B a b. Some (flag_of (rel_int R (sint a) (sint b)))) \<and>
   implements2 load16 load8 1 (cCompare R T16) (\<lambda>B a b. Some (flag_of (rel_int R (sint a) (sint b)))) \<and>
   implements2 load32 load8 1 (cCompare R T32) (\<lambda>B a b. Some (flag_of (rel_int R (sint a) (sint b)))) \<and>
   implements2 load32 load8 1 (cCompare R TF) (\<lambda>B a b. Some (flag_of (rel_float R a b)))"
  unfolding compare_ops by (intro conjI implements)

theorem compare_relation_witness:
  "result1 load8 1 (sample_vm sample_args) [Const W0 5, Const W1 (- 100), Var Global W0 4] 0x1004
     (Some 1) (cCompareGt8 (sample_vm sample_args))"
  using implements2D [OF conjunct1 [OF compare_relation [of GT]] sample_operands8]
  by (simp add: flag_of_def)

text \<open>on finite floats the relations of the byte codes are those of the
  numbers the operands denote (both zeros are equal); a NaN operand makes every relation but
  "not equal" false.\<close>

theorem compare_float_values:
  "(finite_float a \<and> finite_float b \<longrightarrow> rel_float R a b = rel_int R (fixval a) (fixval b)) \<and>
   (isnan a \<or> isnan b \<longrightarrow> rel_float R a b = (R = NEQ))"
  using float_order [of a b] float_order [of b a] nan_unordered [of a b] nan_unordered [of b a]
  by (cases R) auto

theorem compare_float_values_witness:
  "rel_float LT (of_integer (- 3)) (of_integer 7) \<and> \<not> rel_float GTEQ DATAF_NAN 0"
  using compare_float_values [of "of_integer (- 3)" "of_integer 7" LT]
    compare_float_values [of DATAF_NAN 0 GTEQ] of_integer_fl(2) [of "- 3"] of_integer_fl(2) [of 7]
  by (simp add: fixval_of_integer isnan_def fl_of_def magnitude_def DATAF_NAN_def)

text \<open>the select byte codes copy the first source to the destination if the flag is
  not zero, and the second otherwise.\<close>

theorem compare_select:
  "implements2_sub load8 load8 1 (\<lambda>B k. k \<noteq> 0) cCompareSelect8 (\<lambda>B a b. Some a) \<and>
   implements2_sub load8 load8 1 (\<lambda>B k. k = 0) cCompareSelect8 (\<lambda>B a b. Some b) \<and>
   implements2_sub load16 load16 2 (\<lambda>B k. k \<noteq> 0) cCompareSelect16 (\<lambda>B a b. Some a) \<and>
   implements2_sub load16 load16 2 (\<lambda>B k. k = 0) cCompareSelect16 (\<lambda>B a b. Some b) \<and>
   implements2_sub load32 load32 4 (\<lambda>B k. k \<noteq> 0) cCompareSelect32 (\<lambda>B a b. Some a) \<and>
   implements2_sub load32 load32 4 (\<lambda>B k. k = 0) cCompareSelect32 (\<lambda>B a b. Some b) \<and>
   implements2_sub load32 load32 4 (\<lambda>B k. k \<noteq> 0) cCompareSelectF (\<lambda>B a b. Some a) \<and>
   implements2_sub load32 load32 4 (\<lambda>B k. k = 0) cCompareSelectF (\<lambda>B a b. Some b)"
  by (intro conjI p8_8.implements_sub p16_16.implements_sub p32_32.implements_sub select_ops)

end
