(* ===== verification/VM_Branch.thy ===== *)
theory VM_Branch
  imports VM_Compare
begin

text \<open>
  The branch byte codes of \<open>c_branch.c\<close>: relative jumps, taken unconditionally, on a flag, on
  NaN, or on a comparison of two operands. A branch that is not taken skips its offset
  with \<open>PrimParAdvance\<close>.
\<close>

subsection \<open>The code\<close>

definition cBranchJr :: "vm \<Rightarrow> vm option" where
  "cBranchJr s = do {
     (v, s) \<leftarrow> get32 s;
     Some (AdjustObjectIp v s)
   }"

definition cBranchJrFalse :: "vm \<Rightarrow> vm option" where
  "cBranchJrFalse s = do {
     (x, s) \<leftarrow> get8 s;
     if x = 0 then do {
       (v, s) \<leftarrow> get32 s;
       Some (AdjustObjectIp v s)
     }
     else PrimParAdvance s
   }"

definition cBranchJrTrue :: "vm \<Rightarrow> vm option" where
  "cBranchJrTrue s = do {
     (x, s) \<leftarrow> get8 s;
     if x \<noteq> 0 then do {
       (v, s) \<leftarrow> get32 s;
       Some (AdjustObjectIp v s)
     }
     else PrimParAdvance s
   }"

definition cBranchJrNan :: "vm \<Rightarrow> vm option" where
  "cBranchJrNan s = do {
     (Tmp, s) \<leftarrow> get32 s;
     if isnan Tmp then do {
       (v, s) \<leftarrow> get32 s;
       Some (AdjustObjectIp v s)
     }
     else PrimParAdvance s
   }"

definition cBranchJrLt8 :: "vm \<Rightarrow> vm option" where
  "cBranchJrLt8 s = do {
     (Tmp, s) \<leftarrow> get8 s;
     (x, s) \<leftarrow> get8 s;
     if sint Tmp < sint x then do {
       (v, s) \<leftarrow> get32 s;
       Some (AdjustObjectIp v s)
     }
     else PrimParAdvance s
   }"

definition cBranchJrLt16 :: "vm \<Rightarrow> vm option" where
  "cBranchJrLt16 s = do {
     (Tmp, s) \<leftarrow> get16 s;
     (x, s) \<leftarrow> get16 s;
     if sint Tmp < sint x then do {
       (v, s) \<leftarrow> get32 s;
       Some (AdjustObjectIp v s)
     }
     else PrimParAdvance s
   }"

definition cBranchJrLt32 :: "vm \<Rightarrow> vm option" where
  "cBranchJrLt32 s = do {
     (Tmp, s) \<leftarrow> get32 s;
     (x, s) \<leftarrow> get32 s;
     if sint Tmp < sint x then do {
       (v, s) \<leftarrow> get32 s;
       Some (AdjustObjectIp v s)
     }
     else PrimParAdvance s
   }"

definition cBranchJrLtF :: "vm \<Rightarrow> vm option" where
  "cBranchJrLtF s = do {
     (Tmp, s) \<leftarrow> get32 s;
     (x, s) \<leftarrow> get32 s;
     if flt Tmp x then do {
       (v, s) \<leftarrow> get32 s;
       Some (AdjustObjectIp v s)
     }
     else PrimParAdvance s
   }"

definition cBranchJrGt8 :: "vm \<Rightarrow> vm option" where
  "cBranchJrGt8 s = do {
     (Tmp, s) \<leftarrow> get8 s;
     (x, s) \<leftarrow> get8 s;
     if sint Tmp > sint x then do {
       (v, s) \<leftarrow> get32 s;
       Some (AdjustObjectIp v s)
     }
     else PrimParAdvance s
   }"

definition cBranchJrGt16 :: "vm \<Rightarrow> vm option" where
  "cBranchJrGt16 s = do {
     (Tmp, s) \<leftarrow> get16 s;
     (x, s) \<leftarrow> get16 s;
     if sint Tmp > sint x then do {
       (v, s) \<leftarrow> get32 s;
       Some (AdjustObjectIp v s)
     }
     else PrimParAdvance s
   }"

definition cBranchJrGt32 :: "vm \<Rightarrow> vm option" where
  "cBranchJrGt32 s = do {
     (Tmp, s) \<leftarrow> get32 s;
     (x, s) \<leftarrow> get32 s;
     if sint Tmp > sint x then do {
       (v, s) \<leftarrow> get32 s;
       Some (AdjustObjectIp v s)
     }
     else PrimParAdvance s
   }"

definition cBranchJrGtF :: "vm \<Rightarrow> vm option" where
  "cBranchJrGtF s = do {
     (Tmp, s) \<leftarrow> get32 s;
     (x, s) \<leftarrow> get32 s;
     if flt x Tmp then do {
       (v, s) \<leftarrow> get32 s;
       Some (AdjustObjectIp v s)
     }
     else PrimParAdvance s
   }"

definition cBranchJrEq8 :: "vm \<Rightarrow> vm option" where
  "cBranchJrEq8 s = do {
     (Tmp, s) \<leftarrow> get8 s;
     (x, s) \<leftarrow> get8 s;
     if Tmp = x then do {
       (v, s) \<leftarrow> get32 s;
       Some (AdjustObjectIp v s)
     }
     else PrimParAdvance s
   }"

definition cBranchJrEq16 :: "vm \<Rightarrow> vm option" where
  "cBranchJrEq16 s = do {
     (Tmp, s) \<leftarrow> get16 s;
     (x, s) \<leftarrow> get16 s;
     if Tmp = x then do {
       (v, s) \<leftarrow> get32 s;
       Some (AdjustObjectIp v s)
     }
     else PrimParAdvance s
   }"

definition cBranchJrEq32 :: "vm \<Rightarrow> vm option" where
  "cBranchJrEq32 s = do {
     (Tmp, s) \<leftarrow> get32 s;
     (x, s) \<leftarrow> get32 s;
     if Tmp = x then do {
       (v, s) \<leftarrow> get32 s;
       Some (AdjustObjectIp v s)
     }
     else PrimParAdvance s
   }"

definition cBranchJrEqF :: "vm \<Rightarrow> vm option" where
  "cBranchJrEqF s = do {
     (Tmp, s) \<leftarrow> get32 s;
     (x, s) \<leftarrow> get32 s;
     if feq Tmp x then do {
       (v, s) \<leftarrow> get32 s;
       Some (AdjustObjectIp v s)
     }
     else PrimParAdvance s
   }"

definition cBranchJrNEq8 :: "vm \<Rightarrow> vm option" where
  "cBranchJrNEq8 s = do {
     (Tmp, s) \<leftarrow> get8 s;
     (x, s) \<leftarrow> get8 s;
     if Tmp \<noteq> x then do {
       (v, s) \<leftarrow> get32 s;
       Some (AdjustObjectIp v s)
     }
     else PrimParAdvance s
   }"

definition cBranchJrNEq16 :: "vm \<Rightarrow> vm option" where
  "cBranchJrNEq16 s = do {
     (Tmp, s) \<leftarrow> get16 s;
     (x, s) \<leftarrow> get16 s;
     if Tmp \<noteq> x then do {
       (v, s) \<leftarrow> get32 s;
       Some (AdjustObjectIp v s)
     }
     else PrimParAdvance s
   }"

definition cBranchJrNEq32 :: "vm \<Rightarrow> vm option" where
  "cBranchJrNEq32 s = do {
     (Tmp, s) \<leftarrow> get32 s;
     (x, s) \<leftarrow> get32 s;
     if Tmp \<noteq> x then do {
       (v, s) \<leftarrow> get32 s;
       Some (AdjustObjectIp v s)
     }
     else PrimParAdvance s
   }"

definition cBranchJrNEqF :: "vm \<Rightarrow> vm option" where
  "cBranchJrNEqF s = do {
     (Tmp, s) \<leftarrow> get32 s;
     (x, s) \<leftarrow> get32 s;
     if \<not> feq Tmp x then do {
       (v, s) \<leftarrow> get32 s;
       Some (AdjustObjectIp v s)
     }
     else PrimParAdvance s
   }"

definition cBranchJrLtEq8 :: "vm \<Rightarrow> vm option" where
  "cBranchJrLtEq8 s = do {
     (Tmp, s) \<leftarrow> get8 s;
     (x, s) \<leftarrow> get8 s;
     if sint Tmp \<le> sint x then do {
       (v, s) \<leftarrow> get32 s;
       Some (AdjustObjectIp v s)
     }
     else PrimParAdvance s
   }"

definition cBranchJrLtEq16 :: "vm \<Rightarrow> vm option" where
  "cBranchJrLtEq16 s = do {
     (Tmp, s) \<leftarrow> get16 s;
     (x, s) \<leftarrow> get16 s;
     if sint Tmp \<le> sint x then do {
       (v, s) \<leftarrow> get32 s;
       Some (AdjustObjectIp v s)
     }
     else PrimParAdvance s
   }"

definition cBranchJrLtEq32 :: "vm \<Rightarrow> vm option" where
  "cBranchJrLtEq32 s = do {
     (Tmp, s) \<leftarrow> get32 s;
     (x, s) \<leftarrow> get32 s;
     if sint Tmp \<le> sint x then do {
       (v, s) \<leftarrow> get32 s;
       Some (AdjustObjectIp v s)
     }
     else PrimParAdvance s
   }"

definition cBranchJrLtEqF :: "vm \<Rightarrow> vm option" where
  "cBranchJrLtEqF s = do {
     (Tmp, s) \<leftarrow> get32 s;
     (x, s) \<leftarrow> get32 s;
     if fle Tmp x then do {
       (v, s) \<leftarrow> get32 s;
       Some (AdjustObjectIp v s)
     }
     else PrimParAdvance s
   }"

definition cBranchJrGtEq8 :: "vm \<Rightarrow> vm option" where
  "cBranchJrGtEq8 s = do {
     (Tmp, s) \<leftarrow> get8 s;
     (x, s) \<leftarrow> get8 s;
     if sint Tmp \<ge> sint x then do {
       (v, s) \<leftarrow> get32 s;
       Some (AdjustObjectIp v s)
     }
     else PrimParAdvance s
   }"

definition cBranchJrGtEq16 :: "vm \<Rightarrow> vm option" where
  "cBranchJrGtEq16 s = do {
     (Tmp, s) \<leftarrow> get16 s;
     (x, s) \<leftarrow> get16 s;
     if sint Tmp \<ge> sint x then do {
       (v, s) \<leftarrow> get32 s;
       Some (AdjustObjectIp v s)
     }
     else PrimParAdvance s
   }"

definition cBranchJrGtEq32 :: "vm \<Rightarrow> vm option" where
  "cBranchJrGtEq32 s = do {
     (Tmp, s) \<leftarrow> get32 s;
     (x, s) \<leftarrow> get32 s;
     if sint Tmp \<ge> sint x then do {
       (v, s) \<leftarrow> get32 s;
       Some (AdjustObjectIp v s)
     }
     else PrimParAdvance s
   }"

definition cBranchJrGtEqF :: "vm \<Rightarrow> vm option" where
  "cBranchJrGtEqF s = do {
     (Tmp, s) \<leftarrow> get32 s;
     (x, s) \<leftarrow> get32 s;
     if fle x Tmp then do {
       (v, s) \<leftarrow> get32 s;
       Some (AdjustObjectIp v s)
     }
     else PrimParAdvance s
   }"

text \<open>The entries of \<open>PrimDispatchTable\<close>.\<close>

fun cBranchJrCp :: "relation \<Rightarrow> dtype \<Rightarrow> vm \<Rightarrow> vm option" where
  "cBranchJrCp LT T8 = cBranchJrLt8"
| "cBranchJrCp LT T16 = cBranchJrLt16"
| "cBranchJrCp LT T32 = cBranchJrLt32"
| "cBranchJrCp LT TF = cBranchJrLtF"
| "cBranchJrCp GT T8 = cBranchJrGt8"
| "cBranchJrCp GT T16 = cBranchJrGt16"
| "cBranchJrCp GT T32 = cBranchJrGt32"
| "cBranchJrCp GT TF = cBranchJrGtF"
| "cBranchJrCp EQ T8 = cBranchJrEq8"
| "cBranchJrCp EQ T16 = cBranchJrEq16"
| "cBranchJrCp EQ T32 = cBranchJrEq32"
| "cBranchJrCp EQ TF = cBranchJrEqF"
| "cBranchJrCp NEQ T8 = cBranchJrNEq8"
| "cBranchJrCp NEQ T16 = cBranchJrNEq16"
| "cBranchJrCp NEQ T32 = cBranchJrNEq32"
| "cBranchJrCp NEQ TF = cBranchJrNEqF"
| "cBranchJrCp LTEQ T8 = cBranchJrLtEq8"
| "cBranchJrCp LTEQ T16 = cBranchJrLtEq16"
| "cBranchJrCp LTEQ T32 = cBranchJrLtEq32"
| "cBranchJrCp LTEQ TF = cBranchJrLtEqF"
| "cBranchJrCp GTEQ T8 = cBranchJrGtEq8"
| "cBranchJrCp GTEQ T16 = cBranchJrGtEq16"
| "cBranchJrCp GTEQ T32 = cBranchJrGtEq32"
| "cBranchJrCp GTEQ TF = cBranchJrGtEqF"

subsection \<open>Jumping or skipping\<close>

text \<open>What all branches end with: read the offset and add it if the branch is taken, skip it
  otherwise.\<close>

definition jump_if :: "bool \<Rightarrow> vm \<Rightarrow> vm option" where
  "jump_if c s = (if c then do { (v, s) \<leftarrow> get32 s; Some (AdjustObjectIp v s) } else PrimParAdvance s)"

lemma branch_ops:
  "cBranchJrCp R T8 s = do { (a, s) \<leftarrow> get8 s; (b, s) \<leftarrow> get8 s; jump_if (rel_int R (sint a) (sint b)) s }"
  "cBranchJrCp R T16 s = do { (a, s) \<leftarrow> get16 s; (b, s) \<leftarrow> get16 s; jump_if (rel_int R (sint a) (sint b)) s }"
  "cBranchJrCp R T32 s = do { (a, s) \<leftarrow> get32 s; (b, s) \<leftarrow> get32 s; jump_if (rel_int R (sint a) (sint b)) s }"
  "cBranchJrCp R TF s = do { (a, s) \<leftarrow> get32 s; (b, s) \<leftarrow> get32 s; jump_if (rel_float R a b) s }"
  by (cases R; simp add: jump_if_def sint_eq_iff
    cBranchJrLt8_def cBranchJrLt16_def cBranchJrLt32_def cBranchJrLtF_def cBranchJrGt8_def cBranchJrGt16_def cBranchJrGt32_def cBranchJrGtF_def
    cBranchJrEq8_def cBranchJrEq16_def cBranchJrEq32_def cBranchJrEqF_def
    cBranchJrNEq8_def cBranchJrNEq16_def cBranchJrNEq32_def cBranchJrNEqF_def
    cBranchJrLtEq8_def cBranchJrLtEq16_def cBranchJrLtEq32_def cBranchJrLtEqF_def cBranchJrGtEq8_def cBranchJrGtEq16_def cBranchJrGtEq32_def cBranchJrGtEqF_def)+

lemma branch_flag_ops:
  "cBranchJr s = jump_if True s"
  "cBranchJrFalse s = do { (x, s) \<leftarrow> get8 s; jump_if (x = 0) s }"
  "cBranchJrTrue s = do { (x, s) \<leftarrow> get8 s; jump_if (x \<noteq> 0) s }"
  "cBranchJrNan s = do { (x, s) \<leftarrow> get32 s; jump_if (isnan x) s }"
  by (simp_all add: jump_if_def cBranchJr_def cBranchJrFalse_def cBranchJrTrue_def cBranchJrNan_def)

text \<open>\<open>jumped s ip c v t\<close>: only the registers of the decoder changed, and the instruction
  pointer is \<open>ip\<close>, plus the offset \<open>v\<close> if the branch was taken.\<close>

definition jumped :: "vm \<Rightarrow> ULONG \<Rightarrow> bool \<Rightarrow> ULONG \<Rightarrow> vm option \<Rightarrow> bool" where
  "jumped s ip c v out \<longleftrightarrow>
     (\<exists>t. out = Some t \<and> regs_only s t \<and> ObjectIp t = (if c then ip + v else ip))"

lemma value_same_ip:
  assumes r: "regs_only s t" and ip: "ObjectIp t = ObjectIp s" and v: "operand_value load32 s p = Some v"
  shows "operand_value load32 t p = Some v"
proof (cases "numeric p")
  case True
  then show ?thesis using c32.value_regs [OF True r] v by simp
next
  case False
  then show ?thesis
  proof (cases p)
    case (Str cs)
    then show ?thesis
      using v load32_mem_cong [of "t\<lparr>Value := Value t\<rparr>" "s\<lparr>Value := Value s\<rparr>" "ObjectIp s + 1"] ip regs_onlyD(1) [OF r]
      by (simp add: operand_value_def)
  next
    case (Lab i)
    have "load32 (t\<lparr>Value := w\<rparr>) (PtrValue 0) = load32 (s\<lparr>Value := w\<rparr>) (PtrValue 0)" for w
      by (simp add: c32.ld_value)
    then show ?thesis
      using v ip regs_onlyD(6,7) [OF r]
      by (auto simp: Lab operand_value_def label_of_def bind_conv split: if_splits)
  qed (use False in auto)
qed

lemma jump_if_exec:
  assumes c: "code_at s (ObjectIp s) (enc o1)" and wf: "wf o1" and v: "operand_value load32 s o1 = Some v"
  shows "jumped s (ObjectIp s + of_nat (length (enc o1))) c v (jump_if c s)"
proof -
  obtain t where t: "get32 s = Some (v, t)" "past o1 s t" using c32.get_exec [OF c wf v] by blast
  then obtain q where q: "PrimParPointer s = Some (q, t)" by (auto simp: par_get_def bind_conv)
  from pointer_advance [OF q] t show ?thesis
    by (auto simp: jumped_def jump_if_def past_def AdjustObjectIp_def)
qed

text \<open>The parameters of a branch: those it compares, then the offset, which may be a label and is
  then relative to the end of the instruction.\<close>

definition branch_operands :: "(vm \<Rightarrow> ptr \<Rightarrow> 'a option) \<Rightarrow> vm \<Rightarrow> operand list \<Rightarrow> 'a list \<Rightarrow>
    operand \<Rightarrow> ULONG \<Rightarrow> bool" where
  "branch_operands ld s ps as o1 v \<longleftrightarrow>
     code_at s (ObjectIp s) (concat (map enc ps) @ enc o1) \<and> list_all wf ps \<and> wf o1 \<and>
     list_all numeric ps \<and> map (operand_value ld s) ps = map Some as \<and>
     operand_value load32 (s\<lparr>ObjectIp := ObjectIp s + of_nat (length (concat (map enc ps)))\<rparr>) o1 = Some v"

definition end_of :: "vm \<Rightarrow> operand list \<Rightarrow> ULONG" where
  "end_of s ps = ObjectIp s + of_nat (length (concat (map enc ps)))"

lemma jumped_past: "regs_only s t \<Longrightarrow> jumped t ip c v out \<Longrightarrow> jumped s ip c v out"
  unfolding jumped_def using regs_only_trans by blast

context cell
begin

lemma branch1_exec:
  assumes ops: "branch_operands ld s [p] [a] o1 v"
  shows "jumped s (end_of s [p, o1]) (f a) v
    (do { (a, s) \<leftarrow> par_get ld s; jump_if (f a) s })"
proof -
  obtain t where t: "par_get ld s = Some (a, t)" "past p s t"
    using get_exec [of s p a] ops by (auto simp: branch_operands_def code_at_append)
  then have r: "regs_only s t" and ip: "ObjectIp t = ObjectIp s + of_nat (length (enc p))"
    by (simp_all add: past_def)
  have "operand_value load32 t o1 = Some v"
    by (rule value_same_ip [of "s\<lparr>ObjectIp := ObjectIp s + of_nat (length (enc p))\<rparr>"])
      (use ops r ip in \<open>auto simp: branch_operands_def\<close>)
  then have "jumped t (ObjectIp t + of_nat (length (enc o1))) (f a) v (jump_if (f a) t)"
    using ops ip by (intro jump_if_exec) (auto simp: branch_operands_def code_at_append code_regs [OF r])
  then show ?thesis
    using jumped_past [OF r] t(1) by (simp add: end_of_def ip add.assoc)
qed

lemma branch2_exec:
  assumes ops: "branch_operands ld s [p, q] [a, b] o1 v"
  shows "jumped s (end_of s [p, q, o1]) (f a b) v
    (do { (a, s) \<leftarrow> par_get ld s; (b, s) \<leftarrow> par_get ld s; jump_if (f a b) s })"
proof -
  obtain t where t: "par_get ld s = Some (a, t)" "past p s t"
    using get_exec [of s p a] ops by (auto simp: branch_operands_def code_at_append)
  then have r: "regs_only s t" and ip: "ObjectIp t = ObjectIp s + of_nat (length (enc p))"
    by (simp_all add: past_def)
  have "operand_value load32 (t\<lparr>ObjectIp := ObjectIp t + of_nat (length (enc q))\<rparr>) o1 = Some v"
    by (rule value_same_ip [of "s\<lparr>ObjectIp := ObjectIp s + of_nat (length (enc p @ enc q))\<rparr>"])
      (use ops r ip in \<open>auto simp: branch_operands_def add.assoc\<close>)
  then have "branch_operands ld t [q] [b] o1 v"
    using ops by (auto simp: branch_operands_def code_at_append code_regs [OF r] ip value_regs [OF _ r])
  from branch1_exec [OF this, of "f a"] show ?thesis
    using jumped_past [OF r] t(1) by (simp add: end_of_def ip add.assoc)
qed

end

lemma jump_label:
  assumes "Program s (ProgramId s) = Some P" and "0 < i" and "i < MAX_LABELS"
  shows "operand_value load32 s (Lab i) = Some (prg_Label P (unat i) - (ObjectIp s + 2 - prg_pImage P))"
  using assms by (simp add: operand_value_def label_of_def c32.ld_value)

subsection \<open>Properties\<close>

text \<open>every conditional branch on a comparison jumps by its offset from the end of
  the instruction if the relation holds between its operands, and continues at the end of
  the instruction otherwise; it changes nothing else.\<close>

theorem branch_relation:
  "(branch_operands load8 s [p, q] [a8, b8] o1 v \<longrightarrow>
     jumped s (end_of s [p, q, o1]) (rel_int R (sint a8) (sint b8)) v (cBranchJrCp R T8 s)) \<and>
   (branch_operands load16 s [p, q] [a16, b16] o1 v \<longrightarrow>
     jumped s (end_of s [p, q, o1]) (rel_int R (sint a16) (sint b16)) v (cBranchJrCp R T16 s)) \<and>
   (branch_operands load32 s [p, q] [a, b] o1 v \<longrightarrow>
     jumped s (end_of s [p, q, o1]) (rel_int R (sint a) (sint b)) v (cBranchJrCp R T32 s) \<and>
     jumped s (end_of s [p, q, o1]) (rel_float R a b) v (cBranchJrCp R TF s))"
  unfolding branch_ops
  using c8.branch2_exec [of s p q a8 b8 o1 v "\<lambda>a b. rel_int R (sint a) (sint b)"]
    c16.branch2_exec [of s p q a16 b16 o1 v "\<lambda>a b. rel_int R (sint a) (sint b)"]
    c32.branch2_exec [of s p q a b o1 v "\<lambda>a b. rel_int R (sint a) (sint b)"]
    c32.branch2_exec [of s p q a b o1 v "rel_float R"]
  by blast

definition sample_branch :: "UBYTE list" where
  "sample_branch = enc (Const W0 5) @ enc (Const W0 9) @ enc (Const W1 (- 4))"

lemma sample_branch_operands:
  "branch_operands load8 (sample_vm sample_branch) [Const W0 5, Const W0 9] [5, 9] (Const W1 (- 4)) (- 4)"
proof -
  have b: "sample_branch = [5, 9, 0x81, 0xFC]"
    by (simp add: sample_branch_def LC0_def LC1_def primpar_defs byte_of_def)
  have "code_at (sample_vm sample_branch) 0x100 sample_branch"
    by (simp add: b sample_mem_def)
  then show ?thesis
    by (simp add: branch_operands_def sample_branch_def operand_value_def c32.ld_value byte_of_def LC0_def)
qed

theorem branch_relation_witness:
  "\<exists>t. cBranchJrLt8 (sample_vm sample_branch) = Some t \<and> ObjectIp t = 0x100"
proof -
  have "jumped (sample_vm sample_branch) (end_of (sample_vm sample_branch) [Const W0 5, Const W0 9, Const W1 (- 4)])
      (rel_int LT (sint (5 :: DATA8)) (sint (9 :: DATA8))) (- 4) (cBranchJrCp LT T8 (sample_vm sample_branch))"
    using branch_relation sample_branch_operands by blast
  then show ?thesis by (auto simp: jumped_def end_of_def LC0_def LC1_def)
qed

text \<open>JR_TRUE, JR_FALSE and JR_NAN jump exactly if their operand is not zero, zero,
  or not a number; JR always jumps.\<close>

theorem branch_flag:
  "(branch_operands load8 s [p] [k] o1 v \<longrightarrow>
     jumped s (end_of s [p, o1]) (k \<noteq> 0) v (cBranchJrTrue s) \<and>
     jumped s (end_of s [p, o1]) (k = 0) v (cBranchJrFalse s)) \<and>
   (branch_operands load32 s [p] [x] o1 v \<longrightarrow>
     jumped s (end_of s [p, o1]) (isnan x) v (cBranchJrNan s)) \<and>
   (branch_operands load8 s [] [] o1 v \<longrightarrow>
     jumped s (end_of s [o1]) True v (cBranchJr s))"
proof -
  have "branch_operands load8 s [] [] o1 v \<longrightarrow> jumped s (end_of s [o1]) True v (cBranchJr s)"
    using jump_if_exec [of s o1 v True] by (auto simp: branch_operands_def end_of_def branch_flag_ops(1))
  then show ?thesis
    unfolding branch_flag_ops(2-4)
    using c8.branch1_exec [of s p k o1 v "\<lambda>k. k \<noteq> 0"] c8.branch1_exec [of s p k o1 v "\<lambda>k. k = 0"]
      c32.branch1_exec [of s p x o1 v isnan]
    by blast
qed

theorem branch_flag_witness:
  "\<exists>t. cBranchJrTrue (sample_vm sample_branch) = Some t \<and> ObjectIp t = 0x10B"
proof -
  have "branch_operands load8 (sample_vm sample_branch) [Const W0 5] [5] (Const W0 9) 9"
    using sample_branch_operands
    by (auto simp: branch_operands_def operand_value_def c32.ld_value code_at_append simp del: enc.simps)
  then have "jumped (sample_vm sample_branch) (end_of (sample_vm sample_branch) [Const W0 5, Const W0 9])
      ((5 :: DATA8) \<noteq> 0) 9 (cBranchJrTrue (sample_vm sample_branch))"
    using branch_flag by blast
  then show ?thesis by (auto simp: jumped_def end_of_def LC0_def)
qed

text \<open>a branch whose offset is a label that is defined in the program goes to the
  label's address in the image, wherever the branch stands.\<close>

theorem branch_to_label:
  assumes "code_at s (ObjectIp s) (enc (Lab i))" and "wf (Lab i)" and "0 < i" and "i < MAX_LABELS"
    and "Program s (ProgramId s) = Some P"
  shows "\<exists>t. cBranchJr s = Some t \<and> regs_only s t \<and> ObjectIp t = prg_pImage P + prg_Label P (unat i)"
proof -
  have v: "operand_value load32 s (Lab i) = Some (prg_Label P (unat i) - (ObjectIp s + 2 - prg_pImage P))"
    by (rule jump_label [OF assms(5,3,4)])
  have len: "of_nat (length (enc (Lab i))) = (2 :: ULONG)" by (simp add: LAB1_def)
  show ?thesis
    using jump_if_exec [OF assms(1,2) v, of True] unfolding branch_flag_ops(1) [symmetric] len
    by (simp add: jumped_def add.commute)
qed

theorem branch_to_label_witness:
  "\<exists>t. cBranchJr (sample_vm [0xA0, 7]) = Some t \<and> ObjectIp t = 0x100"
  using branch_to_label [of "sample_vm [0xA0, 7]" 7 sample_prg]
  by (auto simp: LAB1_def primpar_defs byte_of_def sample_mem_def sample_prg_def MAX_LABELS_def)

end
