(* ===== verification/VM_Move.thy ===== *)
theory VM_Move
  imports VM_Params VM_Float
begin

text \<open>
  The move byte codes of \<open>c_move.c\<close>: copies between the four types, which carry the "not a
  number" code of one type to that of the other and limit a value to the range of a
  narrower type, and the indexed reads and writes. The specification of a conversion is
  that of its values: \<^theory_text>\<open>None\<close> for not a number, else the integer.
\<close>

subsection \<open>The code\<close>

text \<open>\<open>while (Length)\<close> of \<open>cMoveInitBytes\<close>. A negative length makes the loop run until the
  counter overflows, which is undefined.\<close>

fun init_bytes :: "nat \<Rightarrow> ptr \<Rightarrow> vm \<Rightarrow> vm option" where
  "init_bytes 0 pDestination s = Some s"
| "init_bytes (Suc n) pDestination s = do {
     (b, s) \<leftarrow> get8 s;
     s \<leftarrow> store8 s pDestination b;
     init_bytes n (ptr_add pDestination 1) s
   }"

definition cMoveInitBytes :: "vm \<Rightarrow> vm option" where
  "cMoveInitBytes s = do {
     (pDestination, s) \<leftarrow> PrimParPointer s;
     (Length, s) \<leftarrow> get32 s;
     if sint Length < 0 then None else init_bytes (unat Length) pDestination s
   }"

text \<open>The conversions, with the casts of the code.\<close>

definition widen8_16 :: "DATA8 \<Rightarrow> DATA16" where
  "widen8_16 Tmp = (if Tmp \<noteq> DATA8_NAN then scast Tmp else DATA16_NAN)"

definition widen8_32 :: "DATA8 \<Rightarrow> DATA32" where
  "widen8_32 Tmp = (if Tmp \<noteq> DATA8_NAN then scast Tmp else DATA32_NAN)"

definition widen16_32 :: "DATA16 \<Rightarrow> DATA32" where
  "widen16_32 Tmp = (if Tmp \<noteq> DATA16_NAN then scast Tmp else DATA32_NAN)"

definition float_of8 :: "DATA8 \<Rightarrow> DATAF" where
  "float_of8 Tmp = (if Tmp \<noteq> DATA8_NAN then of_integer (sint Tmp) else DATAF_NAN)"

definition float_of16 :: "DATA16 \<Rightarrow> DATAF" where
  "float_of16 Tmp = (if Tmp \<noteq> DATA16_NAN then of_integer (sint Tmp) else DATAF_NAN)"

definition float_of32 :: "DATA32 \<Rightarrow> DATAF" where
  "float_of32 Tmp = (if Tmp \<noteq> DATA32_NAN then of_integer (sint Tmp) else DATAF_NAN)"

definition narrow16_8 :: "bytecodes \<Rightarrow> DATA16 \<Rightarrow> DATA8" where
  "narrow16_8 B Tmp =
     (if Tmp \<noteq> DATA16_NAN then
        (let Tmp = (if sint Tmp > vmDATA8_MAX B then word_of_int (vmDATA8_MAX B) else Tmp);
             Tmp = (if sint Tmp < vmDATA8_MIN B then word_of_int (vmDATA8_MIN B) else Tmp)
         in ucast Tmp)
      else DATA8_NAN)"

definition narrow32_8 :: "bytecodes \<Rightarrow> DATA32 \<Rightarrow> DATA8" where
  "narrow32_8 B Tmp =
     (if Tmp \<noteq> DATA32_NAN then
        (let Tmp = (if sint Tmp > vmDATA8_MAX B then word_of_int (vmDATA8_MAX B) else Tmp);
             Tmp = (if sint Tmp < vmDATA8_MIN B then word_of_int (vmDATA8_MIN B) else Tmp)
         in ucast Tmp)
      else DATA8_NAN)"

definition narrow32_16 :: "bytecodes \<Rightarrow> DATA32 \<Rightarrow> DATA16" where
  "narrow32_16 B Tmp =
     (if Tmp \<noteq> DATA32_NAN then
        (let Tmp = (if sint Tmp > vmDATA16_MAX B then word_of_int (vmDATA16_MAX B) else Tmp);
             Tmp = (if sint Tmp < vmDATA16_MIN B then word_of_int (vmDATA16_MIN B) else Tmp)
         in ucast Tmp)
      else DATA16_NAN)"

definition narrowF_8 :: "bytecodes \<Rightarrow> DATAF \<Rightarrow> DATA8 option" where
  "narrowF_8 B Tmp =
     (if \<not> isnan Tmp then
        (let Tmp = (if flt (of_integer (vmDATA8_MAX B)) Tmp then of_integer (vmDATA8_MAX B) else Tmp);
             Tmp = (if flt Tmp (of_integer (vmDATA8_MIN B)) then of_integer (vmDATA8_MIN B) else Tmp)
         in to_word Tmp)
      else Some DATA8_NAN)"

definition narrowF_16 :: "bytecodes \<Rightarrow> DATAF \<Rightarrow> DATA16 option" where
  "narrowF_16 B Tmp =
     (if \<not> isnan Tmp then
        (let Tmp = (if flt (of_integer (vmDATA16_MAX B)) Tmp then of_integer (vmDATA16_MAX B) else Tmp);
             Tmp = (if flt Tmp (of_integer (vmDATA16_MIN B)) then of_integer (vmDATA16_MIN B) else Tmp)
         in to_word Tmp)
      else Some DATA16_NAN)"

definition narrowF_32 :: "bytecodes \<Rightarrow> DATAF \<Rightarrow> DATA32 option" where
  "narrowF_32 B Tmp =
     (if \<not> isnan Tmp then
        (let Tmp = (if flt (of_integer (vmDATA32_MAX B)) Tmp then of_integer (vmDATA32_MAX B) else Tmp);
             Tmp = (if flt Tmp (of_integer (vmDATA32_MIN B)) then of_integer (vmDATA32_MIN B) else Tmp)
         in to_word Tmp)
      else Some DATA32_NAN)"

definition cMove8to8 :: "vm \<Rightarrow> vm option" where
  "cMove8to8 s = do {
     (Tmp, s) \<leftarrow> get8 s;
     put8 Tmp s
   }"

definition cMove8to16 :: "vm \<Rightarrow> vm option" where
  "cMove8to16 s = do {
     (Tmp, s) \<leftarrow> get8 s;
     put16 (widen8_16 Tmp) s
   }"

definition cMove8to32 :: "vm \<Rightarrow> vm option" where
  "cMove8to32 s = do {
     (Tmp, s) \<leftarrow> get8 s;
     put32 (widen8_32 Tmp) s
   }"

definition cMove8toF :: "vm \<Rightarrow> vm option" where
  "cMove8toF s = do {
     (Tmp, s) \<leftarrow> get8 s;
     put32 (float_of8 Tmp) s
   }"

definition cMove16to8 :: "vm \<Rightarrow> vm option" where
  "cMove16to8 s = do {
     (Tmp, s) \<leftarrow> get16 s;
     put8 (narrow16_8 (Consts s) Tmp) s
   }"

definition cMove16to16 :: "vm \<Rightarrow> vm option" where
  "cMove16to16 s = do {
     (Tmp, s) \<leftarrow> get16 s;
     put16 Tmp s
   }"

definition cMove16to32 :: "vm \<Rightarrow> vm option" where
  "cMove16to32 s = do {
     (Tmp, s) \<leftarrow> get16 s;
     put32 (widen16_32 Tmp) s
   }"

definition cMove16toF :: "vm \<Rightarrow> vm option" where
  "cMove16toF s = do {
     (Tmp, s) \<leftarrow> get16 s;
     put32 (float_of16 Tmp) s
   }"

definition cMove32to8 :: "vm \<Rightarrow> vm option" where
  "cMove32to8 s = do {
     (Tmp, s) \<leftarrow> get32 s;
     put8 (narrow32_8 (Consts s) Tmp) s
   }"

definition cMove32to16 :: "vm \<Rightarrow> vm option" where
  "cMove32to16 s = do {
     (Tmp, s) \<leftarrow> get32 s;
     put16 (narrow32_16 (Consts s) Tmp) s
   }"

definition cMove32to32 :: "vm \<Rightarrow> vm option" where
  "cMove32to32 s = do {
     (Tmp, s) \<leftarrow> get32 s;
     put32 Tmp s
   }"

definition cMove32toF :: "vm \<Rightarrow> vm option" where
  "cMove32toF s = do {
     (Tmp, s) \<leftarrow> get32 s;
     put32 (float_of32 Tmp) s
   }"

definition cMoveFto8 :: "vm \<Rightarrow> vm option" where
  "cMoveFto8 s = do {
     (Tmp, s) \<leftarrow> get32 s;
     x \<leftarrow> narrowF_8 (Consts s) Tmp;
     put8 x s
   }"

definition cMoveFto16 :: "vm \<Rightarrow> vm option" where
  "cMoveFto16 s = do {
     (Tmp, s) \<leftarrow> get32 s;
     x \<leftarrow> narrowF_16 (Consts s) Tmp;
     put16 x s
   }"

definition cMoveFto32 :: "vm \<Rightarrow> vm option" where
  "cMoveFto32 s = do {
     (Tmp, s) \<leftarrow> get32 s;
     x \<leftarrow> narrowF_32 (Consts s) Tmp;
     put32 x s
   }"

definition cMoveFtoF :: "vm \<Rightarrow> vm option" where
  "cMoveFtoF s = do {
     (Tmp, s) \<leftarrow> get32 s;
     put32 Tmp s
   }"

text \<open>\<open>pTmp[Index]\<close> with a signed 8-bit index.\<close>

definition element :: "ptr \<Rightarrow> DATA8 \<Rightarrow> ULONG \<Rightarrow> ptr" where
  "element pTmp Index n = ptr_add pTmp (scast Index * n)"

definition cMoveRead8 :: "vm \<Rightarrow> vm option" where
  "cMoveRead8 s = do {
     (pTmp, s) \<leftarrow> PrimParPointer s;
     (Index, s) \<leftarrow> get8 s;
     (p, s) \<leftarrow> PrimParPointer s;
     x \<leftarrow> load8 s (element pTmp Index 1);
     store8 s p x
   }"

definition cMoveWrite8 :: "vm \<Rightarrow> vm option" where
  "cMoveWrite8 s = do {
     (Tmp, s) \<leftarrow> get8 s;
     (Index, s) \<leftarrow> get8 s;
     (pTmp, s) \<leftarrow> PrimParPointer s;
     store8 s (element pTmp Index 1) Tmp
   }"

definition cMoveRead16 :: "vm \<Rightarrow> vm option" where
  "cMoveRead16 s = do {
     (pTmp, s) \<leftarrow> PrimParPointer s;
     (Index, s) \<leftarrow> get8 s;
     (p, s) \<leftarrow> PrimParPointer s;
     x \<leftarrow> load16 s (element pTmp Index 2);
     store16 s p x
   }"

definition cMoveWrite16 :: "vm \<Rightarrow> vm option" where
  "cMoveWrite16 s = do {
     (Tmp, s) \<leftarrow> get16 s;
     (Index, s) \<leftarrow> get8 s;
     (pTmp, s) \<leftarrow> PrimParPointer s;
     store16 s (element pTmp Index 2) Tmp
   }"

definition cMoveRead32 :: "vm \<Rightarrow> vm option" where
  "cMoveRead32 s = do {
     (pTmp, s) \<leftarrow> PrimParPointer s;
     (Index, s) \<leftarrow> get8 s;
     (p, s) \<leftarrow> PrimParPointer s;
     x \<leftarrow> load32 s (element pTmp Index 4);
     store32 s p x
   }"

definition cMoveWrite32 :: "vm \<Rightarrow> vm option" where
  "cMoveWrite32 s = do {
     (Tmp, s) \<leftarrow> get32 s;
     (Index, s) \<leftarrow> get8 s;
     (pTmp, s) \<leftarrow> PrimParPointer s;
     store32 s (element pTmp Index 4) Tmp
   }"

definition cMoveReadF :: "vm \<Rightarrow> vm option" where
  "cMoveReadF s = do {
     (pTmp, s) \<leftarrow> PrimParPointer s;
     (Index, s) \<leftarrow> get8 s;
     (p, s) \<leftarrow> PrimParPointer s;
     x \<leftarrow> load32 s (element pTmp Index 4);
     store32 s p x
   }"

definition cMoveWriteF :: "vm \<Rightarrow> vm option" where
  "cMoveWriteF s = do {
     (Tmp, s) \<leftarrow> get32 s;
     (Index, s) \<leftarrow> get8 s;
     (pTmp, s) \<leftarrow> PrimParPointer s;
     store32 s (element pTmp Index 4) Tmp
   }"

text \<open>The entries of \<open>PrimDispatchTable\<close>.\<close>

fun cMove :: "dtype \<Rightarrow> dtype \<Rightarrow> vm \<Rightarrow> vm option" where
  "cMove T8 T8 = cMove8to8"
| "cMove T8 T16 = cMove8to16"
| "cMove T8 T32 = cMove8to32"
| "cMove T8 TF = cMove8toF"
| "cMove T16 T8 = cMove16to8"
| "cMove T16 T16 = cMove16to16"
| "cMove T16 T32 = cMove16to32"
| "cMove T16 TF = cMove16toF"
| "cMove T32 T8 = cMove32to8"
| "cMove T32 T16 = cMove32to16"
| "cMove T32 T32 = cMove32to32"
| "cMove T32 TF = cMove32toF"
| "cMove TF T8 = cMoveFto8"
| "cMove TF T16 = cMoveFto16"
| "cMove TF T32 = cMoveFto32"
| "cMove TF TF = cMoveFtoF"

fun cMoveRead :: "dtype \<Rightarrow> vm \<Rightarrow> vm option" where
  "cMoveRead T8 = cMoveRead8"
| "cMoveRead T16 = cMoveRead16"
| "cMoveRead T32 = cMoveRead32"
| "cMoveRead TF = cMoveReadF"

fun cMoveWrite :: "dtype \<Rightarrow> vm \<Rightarrow> vm option" where
  "cMoveWrite T8 = cMoveWrite8"
| "cMoveWrite T16 = cMoveWrite16"
| "cMoveWrite T32 = cMoveWrite32"
| "cMoveWrite TF = cMoveWriteF"

subsection \<open>Values\<close>

definition val8 :: "DATA8 \<Rightarrow> int option" where
  "val8 x = (if x = DATA8_NAN then None else Some (sint x))"

definition val16 :: "DATA16 \<Rightarrow> int option" where
  "val16 x = (if x = DATA16_NAN then None else Some (sint x))"

definition val32 :: "DATA32 \<Rightarrow> int option" where
  "val32 x = (if x = DATA32_NAN then None else Some (sint x))"

definition clamp :: "int \<Rightarrow> int \<Rightarrow> int \<Rightarrow> int" where
  "clamp mn mx i = max mn (min mx i)"

definition data8 :: "int option \<Rightarrow> DATA8" where
  "data8 v = (case v of None \<Rightarrow> DATA8_NAN | Some i \<Rightarrow> word_of_int i)"

definition data16 :: "int option \<Rightarrow> DATA16" where
  "data16 v = (case v of None \<Rightarrow> DATA16_NAN | Some i \<Rightarrow> word_of_int i)"

definition data32 :: "int option \<Rightarrow> DATA32" where
  "data32 v = (case v of None \<Rightarrow> DATA32_NAN | Some i \<Rightarrow> word_of_int i)"

definition dataF :: "int option \<Rightarrow> DATAF" where
  "dataF v = (case v of None \<Rightarrow> DATAF_NAN | Some i \<Rightarrow> of_integer i)"

text \<open>The integer a conversion from a float has to write.\<close>

definition valF :: "int \<Rightarrow> int \<Rightarrow> DATAF \<Rightarrow> int option" where
  "valF mn mx x = (if isnan x then None
     else if flt (of_integer mx) x then Some mx
     else if flt x (of_integer mn) then Some mn
     else to_integer x)"

lemma move_ops:
  "cMove8to8 = unop load8 store8 (\<lambda>B a. Some a)"
  "cMove8to16 = unop load8 store16 (\<lambda>B a. Some (widen8_16 a))"
  "cMove8to32 = unop load8 store32 (\<lambda>B a. Some (widen8_32 a))"
  "cMove8toF = unop load8 store32 (\<lambda>B a. Some (float_of8 a))"
  "cMove16to8 = unop load16 store8 (\<lambda>B a. Some (narrow16_8 B a))"
  "cMove16to16 = unop load16 store16 (\<lambda>B a. Some a)"
  "cMove16to32 = unop load16 store32 (\<lambda>B a. Some (widen16_32 a))"
  "cMove16toF = unop load16 store32 (\<lambda>B a. Some (float_of16 a))"
  "cMove32to8 = unop load32 store8 (\<lambda>B a. Some (narrow32_8 B a))"
  "cMove32to16 = unop load32 store16 (\<lambda>B a. Some (narrow32_16 B a))"
  "cMove32to32 = unop load32 store32 (\<lambda>B a. Some a)"
  "cMove32toF = unop load32 store32 (\<lambda>B a. Some (float_of32 a))"
  "cMoveFto8 = unop load32 store8 (\<lambda>B a. narrowF_8 B a)"
  "cMoveFto16 = unop load32 store16 (\<lambda>B a. narrowF_16 B a)"
  "cMoveFto32 = unop load32 store32 (\<lambda>B a. narrowF_32 B a)"
  "cMoveFtoF = unop load32 store32 (\<lambda>B a. Some a)"
  by (rule ext; simp add: unop_def cMove8to8_def cMove8to16_def cMove8to32_def cMove8toF_def 
  cMove16to8_def cMove16to16_def cMove16to32_def cMove16toF_def 
  cMove32to8_def cMove32to16_def cMove32to32_def cMove32toF_def 
  cMoveFto8_def cMoveFto16_def cMoveFto32_def cMoveFtoF_def)+

lemma nan_sint: "x = DATA8_NAN \<longleftrightarrow> sint x = - 128" "y = DATA16_NAN \<longleftrightarrow> sint y = - 32768"
  "z = DATA32_NAN \<longleftrightarrow> sint z = - 2147483648"
  using signed_word_eqI [of x DATA8_NAN] signed_word_eqI [of y DATA16_NAN] signed_word_eqI [of z DATA32_NAN]
  by (auto simp: DATA8_NAN_def DATA16_NAN_def DATA32_NAN_def)

lemma sint_nan [simp]: "sint DATA8_NAN = - 128" "sint DATA16_NAN = - 32768" "sint DATA32_NAN = - 2147483648"
  by (simp_all add: DATA8_NAN_def DATA16_NAN_def DATA32_NAN_def)

lemma widen_values:
  "widen8_16 a = data16 (val8 a)" "widen8_32 a = data32 (val8 a)" "widen16_32 b = data32 (val16 b)"
  "float_of8 a = dataF (val8 a)" "float_of16 b = dataF (val16 b)" "float_of32 c = dataF (val32 c)"
  by (simp_all add: widen8_16_def widen8_32_def widen16_32_def float_of8_def float_of16_def
      float_of32_def data16_def data32_def dataF_def val8_def val16_def val32_def)

lemma ucast_word_of_int: "LENGTH('b::len) \<le> LENGTH('a::len) \<Longrightarrow>
    ucast (word_of_int i :: 'a word) = (word_of_int i :: 'b word)"
  by (rule bit_word_eqI) (auto simp: bit_ucast_iff bit_word_of_int_iff)

text \<open>Narrowing: limiting in the wider type and cutting is limiting the integer.\<close>

lemma narrow_generic:
  fixes a :: "'a::len word"
  assumes len: "LENGTH('b::len) \<le> LENGTH('a)" and rng: "- (2 ^ (LENGTH('a) - 1)) \<le> mn" "mn \<le> mx" "mx < 2 ^ (LENGTH('a) - 1)"
  shows "(let t = (if sint a > mx then word_of_int mx else a);
              t = (if sint t < mn then word_of_int mn else t) in ucast t) = (word_of_int (clamp mn mx (sint a)) :: 'b word)"
proof -
  have mx: "sint (word_of_int mx :: 'a word) = mx" by (rule sint_of_int_range) (use rng in auto)
  have a: "ucast a = (word_of_int (sint a) :: 'b word)"
    using ucast_word_of_int [OF len, of "sint a"] by simp
  show ?thesis
    using rng a by (auto simp: Let_def clamp_def mx ucast_word_of_int [OF len] max_def min_def)
qed

lemma narrow_values:
  assumes "limits_ok B"
  shows "narrow16_8 B a = data8 (map_option (clamp (vmDATA8_MIN B) (vmDATA8_MAX B)) (val16 a))"
    and "narrow32_8 B b = data8 (map_option (clamp (vmDATA8_MIN B) (vmDATA8_MAX B)) (val32 b))"
    and "narrow32_16 B b = data16 (map_option (clamp (vmDATA16_MIN B) (vmDATA16_MAX B)) (val32 b))"
  using assms narrow_generic [where ?'a = 16 and ?'b = 8, of "vmDATA8_MIN B" "vmDATA8_MAX B" a]
    narrow_generic [where ?'a = 32 and ?'b = 8, of "vmDATA8_MIN B" "vmDATA8_MAX B" b]
    narrow_generic [where ?'a = 32 and ?'b = 16, of "vmDATA16_MIN B" "vmDATA16_MAX B" b]
  by (auto simp: narrow16_8_def narrow32_8_def narrow32_16_def data8_def data16_def val16_def
      val32_def limits_ok_def)

lemma val_data:
  "v = None \<or> (\<exists>i. v = Some i \<and> - 128 < i \<and> i \<le> 127) \<Longrightarrow> val8 (data8 v) = v"
  "v = None \<or> (\<exists>i. v = Some i \<and> - 32768 < i \<and> i \<le> 32767) \<Longrightarrow> val16 (data16 v) = v"
  "v = None \<or> (\<exists>i. v = Some i \<and> - 2147483648 < i \<and> i \<le> 2147483647) \<Longrightarrow> val32 (data32 v) = v"
proof -
  have s8: "sint (word_of_int i :: 8 word) = i" if "- 128 < i" "i \<le> 127" for i
    using that by (intro sint_of_int_range) simp_all
  have s16: "sint (word_of_int i :: 16 word) = i" if "- 32768 < i" "i \<le> 32767" for i
    using that by (intro sint_of_int_range) simp_all
  have s32: "sint (word_of_int i :: 32 word) = i" if "- 2147483648 < i" "i \<le> 2147483647" for i
    using that by (intro sint_of_int_range) simp_all
  show "v = None \<or> (\<exists>i. v = Some i \<and> - 128 < i \<and> i \<le> 127) \<Longrightarrow> val8 (data8 v) = v"
    using s8 by (auto simp: val8_def data8_def nan_sint)
  show "v = None \<or> (\<exists>i. v = Some i \<and> - 32768 < i \<and> i \<le> 32767) \<Longrightarrow> val16 (data16 v) = v"
    using s16 by (auto simp: val16_def data16_def nan_sint)
  show "v = None \<or> (\<exists>i. v = Some i \<and> - 2147483648 < i \<and> i \<le> 2147483647) \<Longrightarrow> val32 (data32 v) = v"
    using s32 by (auto simp: val32_def data32_def nan_sint)
qed

lemma val_range:
  "val8 a = None \<or> (\<exists>i. val8 a = Some i \<and> - 128 < i \<and> i \<le> 127)"
  "val16 b = None \<or> (\<exists>i. val16 b = Some i \<and> - 32768 < i \<and> i \<le> 32767)"
  "val32 c = None \<or> (\<exists>i. val32 c = Some i \<and> - 2147483648 < i \<and> i \<le> 2147483647)"
  using sint8_range [of a] sint16_range [of b] sint32_range [of c]
  by (auto simp: val8_def val16_def val32_def nan_sint)

lemma data_val: "data8 (val8 a) = a" "data16 (val16 b) = b" "data32 (val32 c) = c"
  by (simp_all add: data8_def val8_def data16_def val16_def data32_def val32_def)

text \<open>The values a type of the limits \<open>mn\<close> and \<open>mx\<close> is meant to hold.\<close>

definition in_range :: "int \<Rightarrow> int \<Rightarrow> int option \<Rightarrow> bool" where
  "in_range mn mx v \<longleftrightarrow> (case v of None \<Rightarrow> True | Some i \<Rightarrow> mn \<le> i \<and> i \<le> mx)"

lemma clamp_in_range: "in_range mn mx v \<Longrightarrow> map_option (clamp mn mx) v = v"
  by (auto simp: in_range_def clamp_def split: option.splits)

lemma clamped_range: "mn \<le> mx \<Longrightarrow> in_range mn mx (map_option (clamp mn mx) v)"
  by (auto simp: in_range_def clamp_def split: option.splits)

lemma narrowF_generic:
  assumes mn: "- (2 ^ (LENGTH('b::len) - 1)) < mn" "mn \<le> 0" "\<bar>mn\<bar> < 2 ^ 24"
    and mx: "0 < mx" "mx < 2 ^ (LENGTH('b) - 1)" "\<bar>mx\<bar> < 2 ^ 24" and nan: "\<not> isnan x"
  shows "\<exists>i. valF mn mx x = Some i \<and> mn \<le> i \<and> i \<le> mx \<and>
    (let t = (if flt (of_integer mx) x then of_integer mx else x);
         t = (if flt t (of_integer mn) then of_integer mn else t) in to_word t) = Some (word_of_int i :: 'b word)"
proof -
  have w: "to_word (of_integer i) = Some (word_of_int i :: 'b word)" if "mn \<le> i" "i \<le> mx" for i
  proof -
    have "\<bar>i\<bar> < 2 ^ 24" using that mn(2,3) mx(1,3) by auto
    then show ?thesis
      using that mn(1) mx(2) by (auto simp: to_word_def to_integer_of_integer)
  qed
  have ord: "\<not> flt (of_integer mx) (of_integer mn)"
    using of_integer_order(1) [OF mx(3) mn(3)] mn(2) mx(1) by simp
  show ?thesis
  proof (cases "flt (of_integer mx) x \<or> flt x (of_integer mn)")
    case True
    have "\<not> (flt (of_integer mx) x \<and> flt x (of_integer mn))"
      using ord by (auto simp: flt_def)
    then show ?thesis
      using True nan w [of mx] w [of mn] ord mn(2) mx(1) by (auto simp: valF_def Let_def)
  next
    case False
    then have fin: "finite_float x"
      using infinite_order [OF nan _ of_integer_fl(2) [OF mx(3)] of_integer_fl(2) [OF mn(3)]] by blast
    obtain i where i: "to_integer x = Some i" "mn \<le> i" "i \<le> mx"
      using to_integer_between [OF fin mn(3,2) mx(3)] False mx(1) by auto
    then show ?thesis
      using False nan mn(1) mx(2) by (auto simp: valF_def Let_def to_word_def)
  qed
qed

lemma narrowF_values:
  assumes "limits_ok B"
  shows "narrowF_8 B x = Some (data8 (valF (vmDATA8_MIN B) (vmDATA8_MAX B) x))"
    and "narrowF_16 B x = Some (data16 (valF (vmDATA16_MIN B) (vmDATA16_MAX B) x))"
  using assms narrowF_generic [where ?'b = 8, of "vmDATA8_MIN B" "vmDATA8_MAX B" x]
    narrowF_generic [where ?'b = 16, of "vmDATA16_MIN B" "vmDATA16_MAX B" x]
  by (cases "isnan x"; auto simp: narrowF_8_def narrowF_16_def limits_ok_def data8_def data16_def valF_def)+

lemma valF_dataF:
  assumes "in_range mn mx v" and "\<bar>mn\<bar> < 2 ^ 24" and "\<bar>mx\<bar> < 2 ^ 24" and "mn \<le> 0" and "0 \<le> mx"
  shows "valF mn mx (dataF v) = v"
proof (cases v)
  case None
  then show ?thesis
    by (simp add: dataF_def valF_def isnan_def fl_of_def magnitude_def DATAF_NAN_def)
next
  case (Some i)
  then have r: "mn \<le> i" "i \<le> mx" using assms(1) by (auto simp: in_range_def)
  then have i: "\<bar>i\<bar> < 2 ^ 24" using assms by auto
  show ?thesis
    using Some r isnan_finite [OF of_integer_fl(2) [OF i]] of_integer_order(1) [OF assms(3) i]
      of_integer_order(1) [OF i assms(2)]
    by (simp add: dataF_def valF_def to_integer_of_integer [OF i])
qed

lemma of_integer_max: "of_integer 2147483647 = 0x4F000000" "of_integer (- 2147483647) = 0xCF000000"
  by (simp_all add: of_integer_def fround_def rnd_def exponent_of_def scaled_def round_even_def
      pack_def of_magnitude_def inf_magnitude_def bitlen.simps Let_def)

lemma max_float:
  "finite_float 0x4F000000" "fixval 0x4F000000 = 2 ^ 31 * 2 ^ 149"
  "finite_float 0xCF000000" "fixval 0xCF000000 = - (2 ^ 31 * 2 ^ 149)"
  by (simp_all add: finite_float_def magnitude_def inf_magnitude_def fixval_def fl_of_def
      sign_bit_def signed_nat_def Let_def)

lemma to_word_large:
  assumes "finite_float x" and "2 ^ 31 * 2 ^ 149 \<le> fixval x"
  shows "(to_word x :: 32 word option) = None"
proof -
  have "2 ^ 31 * 2 ^ 149 div 2 ^ 149 \<le> fixval x div 2 ^ 149"
    by (rule zdiv_mono1) (use assms(2) in simp_all)
  then have "2 ^ 31 \<le> fixval x div 2 ^ 149" by simp
  moreover have "0 < fixval x" using assms(2) by simp
  ultimately have "2 ^ 31 \<le> cdiv (fixval x) (2 ^ 149)" by (simp add: cdiv_def)
  then show ?thesis by (simp add: to_word_def to_integer_fixval [OF assms(1)])
qed

subsection \<open>Properties\<close>

text \<open>the move byte codes between integer types, and from them to a float, write the
  conversion of their operand, which keeps the value (not a number included) when the
  destination is wider, and limits it to the range of the destination type when it is
  narrower.\<close>

theorem move_values:
  "implements1 load8 load8 1 cMove8to8 (\<lambda>B a. Some a) \<and>
   implements1 load16 load16 2 cMove16to16 (\<lambda>B a. Some a) \<and>
   implements1 load32 load32 4 cMove32to32 (\<lambda>B a. Some a) \<and>
   implements1 load32 load32 4 cMoveFtoF (\<lambda>B a. Some a) \<and>
   implements1 load8 load16 2 cMove8to16 (\<lambda>B a. Some (data16 (val8 a))) \<and>
   implements1 load8 load32 4 cMove8to32 (\<lambda>B a. Some (data32 (val8 a))) \<and>
   implements1 load16 load32 4 cMove16to32 (\<lambda>B a. Some (data32 (val16 a))) \<and>
   implements1 load8 load32 4 cMove8toF (\<lambda>B a. Some (dataF (val8 a))) \<and>
   implements1 load16 load32 4 cMove16toF (\<lambda>B a. Some (dataF (val16 a))) \<and>
   implements1 load32 load32 4 cMove32toF (\<lambda>B a. Some (dataF (val32 a)))"
  unfolding move_ops widen_values by (intro conjI implements)

text \<open>with limits as documented, a move to a narrower integer type writes the
  value limited to that type, and not a number for not a number; what it writes is never
  outside the limits.\<close>

theorem move_narrow:
  assumes "limits_ok (Consts s)"
  shows "(operands1 load16 load8 s p r a16 d \<longrightarrow> result1 load8 1 s [p, r] d
       (Some (data8 (map_option (clamp (vmDATA8_MIN (Consts s)) (vmDATA8_MAX (Consts s))) (val16 a16)))) (cMove16to8 s)) \<and>
   (operands1 load32 load8 s p r a d \<longrightarrow> result1 load8 1 s [p, r] d
       (Some (data8 (map_option (clamp (vmDATA8_MIN (Consts s)) (vmDATA8_MAX (Consts s))) (val32 a)))) (cMove32to8 s)) \<and>
   (operands1 load32 load16 s p r a d \<longrightarrow> result1 load16 2 s [p, r] d
       (Some (data16 (map_option (clamp (vmDATA16_MIN (Consts s)) (vmDATA16_MAX (Consts s))) (val32 a)))) (cMove32to16 s))"
  unfolding move_ops narrow_values [OF assms, symmetric]
  using p16_8.unop_exec [of s p r a16 d "\<lambda>B a. Some (narrow16_8 B a)"]
    p32_8.unop_exec [of s p r a d "\<lambda>B a. Some (narrow32_8 B a)"]
    p32_16.unop_exec [of s p r a d "\<lambda>B a. Some (narrow32_16 B a)"]
  by blast

text \<open>with limits as documented, a move from a float to 8 or 16 bits is never
  undefined, for infinities and numbers of any size: it writes the integer part limited to
  the range of the type, or not a number.\<close>

theorem move_float:
  assumes "limits_ok (Consts s)"
  shows "(operands1 load32 load8 s p r x d \<longrightarrow> result1 load8 1 s [p, r] d
       (Some (data8 (valF (vmDATA8_MIN (Consts s)) (vmDATA8_MAX (Consts s)) x))) (cMoveFto8 s)) \<and>
   (operands1 load32 load16 s p r x d \<longrightarrow> result1 load16 2 s [p, r] d
       (Some (data16 (valF (vmDATA16_MIN (Consts s)) (vmDATA16_MAX (Consts s)) x))) (cMoveFto16 s))"
  unfolding move_ops narrowF_values [OF assms, symmetric]
  using p32_8.unop_exec [of s p r x d narrowF_8] p32_16.unop_exec [of s p r x d narrowF_16]
  by blast

text \<open>C38: a move from a float to 32 bits is undefined for every float from 2 to the
  31st upwards: the limit \<open>DATA32_MAX\<close> is rounded up when it is converted to a float, so it
  lets 2 to the 31st pass.\<close>

theorem move_float32_undefined:
  assumes "vmDATA32_MAX B = 2147483647" and "vmDATA32_MIN B = - 2147483647"
    and "finite_float x" and "2 ^ 31 * 2 ^ 149 \<le> fixval x"
  shows "narrowF_32 B x = None"
proof -
  have "\<not> flt t 0xCF000000" if "finite_float t" "2 ^ 31 * 2 ^ 149 \<le> fixval t" for t
    using float_order(1) [OF that(1) max_float(3)] that(2) max_float(4) by simp
  then show ?thesis
    using assms isnan_finite [OF assms(3)] to_word_large [OF assms(3,4)]
      to_word_large [OF max_float(1)] max_float(1,2)
    by (simp add: narrowF_32_def of_integer_max Let_def)
qed

theorem move_float32_undefined_witness:
  "narrowF_32 sample_consts 0x4F000000 = None"
  using move_float32_undefined [where B = sample_consts and x = "0x4F000000"] max_float by simp

text \<open>a value of a narrow type survives a move to a wider type, or to a float,
  and back, if it is not a number or within the limits of the type.\<close>

theorem move_roundtrip:
  assumes "limits_ok B"
  shows "(in_range (vmDATA8_MIN B) (vmDATA8_MAX B) (val8 a) \<longrightarrow>
       narrow16_8 B (widen8_16 a) = a \<and> narrow32_8 B (widen8_32 a) = a \<and>
       narrowF_8 B (float_of8 a) = Some a) \<and>
   (in_range (vmDATA16_MIN B) (vmDATA16_MAX B) (val16 b) \<longrightarrow>
       narrow32_16 B (widen16_32 b) = b \<and> narrowF_16 B (float_of16 b) = Some b)"
proof -
  have v: "val16 (data16 (val8 a)) = val8 a" "val32 (data32 (val8 a)) = val8 a" "val32 (data32 (val16 b)) = val16 b"
    using val_range(1) [of a] val_range(2) [of b] by (intro val_data; auto)+
  have lim: "\<bar>vmDATA8_MIN B\<bar> < 2 ^ 24" "\<bar>vmDATA8_MAX B\<bar> < 2 ^ 24" "\<bar>vmDATA16_MIN B\<bar> < 2 ^ 24"
      "\<bar>vmDATA16_MAX B\<bar> < 2 ^ 24" "vmDATA8_MIN B \<le> 0" "0 \<le> vmDATA8_MAX B" "vmDATA16_MIN B \<le> 0"
      "0 \<le> vmDATA16_MAX B"
    using assms by (auto simp: limits_ok_def)
  show ?thesis
    using lim by (auto simp: narrow_values [OF assms] narrowF_values [OF assms] widen_values v
        clamp_in_range data_val valF_dataF)
qed

theorem move_roundtrip_witness:
  "narrowF_16 sample_consts (float_of16 (- 1234)) = Some (- 1234)"
  using move_roundtrip [OF sample_limits, where a = 0 and b = "- 1234"]
  by (simp add: val16_def DATA16_NAN_def in_range_def)

definition sample_move :: "UBYTE list" where
  "sample_move = enc (Const W2 300) @ enc (Var Global W0 4)"

lemma sample_move_operands:
  "operands1 load16 load8 (sample_vm sample_move) (Const W2 300) (Var Global W0 4) 300 0x1004"
  "operands1 load32 load8 (sample_vm sample_move) (Const W2 300) (Var Global W0 4) 300 0x1004"
  "operands1 load8 load16 (sample_vm sample_move) (Const W2 300) (Var Global W0 4) 44 0x1004"
proof -
  have b: "sample_move = [0x82, 0x2C, 0x01, 0x64]"
    by (simp add: sample_move_def LC2_def GV0_def primpar_defs byte_of_def)
  have "code_at (sample_vm sample_move) 0x100 sample_move"
    by (simp add: b sample_mem_def)
  then have c: "code_at (sample_vm sample_move) 0x100 (enc (Const W2 300) @ enc (Var Global W0 4))"
    by (simp only: sample_move_def)
  show "operands1 load16 load8 (sample_vm sample_move) (Const W2 300) (Var Global W0 4) 300 0x1004"
    "operands1 load32 load8 (sample_vm sample_move) (Const W2 300) (Var Global W0 4) 300 0x1004"
    "operands1 load8 load16 (sample_vm sample_move) (Const W2 300) (Var Global W0 4) 44 0x1004"
    unfolding operands1_def sample_vm_sel
    by (use c in \<open>simp_all add: operand_value_def operand_addr_def c16.ld_value c32.ld_value byte_of_def
        sample_mem_def b load16_def del: enc.simps\<close>)
qed

theorem move_values_witness:
  "result1 load16 2 (sample_vm sample_move) [Const W2 300, Var Global W0 4] 0x1004
     (Some 44) (cMove8to16 (sample_vm sample_move))"
  using implements1D [OF conjunct1 [OF conjunct2 [OF conjunct2 [OF conjunct2 [OF conjunct2 [OF move_values]]]]]
      sample_move_operands(3)]
  by (simp add: val8_def DATA8_NAN_def data16_def)

theorem move_narrow_witness:
  "result1 load8 1 (sample_vm sample_move) [Const W2 300, Var Global W0 4] 0x1004
     (Some 127) (cMove16to8 (sample_vm sample_move))"
proof -
  have "result1 load8 1 (sample_vm sample_move) [Const W2 300, Var Global W0 4] 0x1004
     (Some (data8 (map_option (clamp (- 127) 127) (val16 300)))) (cMove16to8 (sample_vm sample_move))"
    using move_narrow [of "sample_vm sample_move"] sample_limits sample_move_operands(1) by simp
  then show ?thesis by (simp add: val16_def DATA16_NAN_def data8_def clamp_def)
qed

theorem move_float_witness:
  "result1 load8 1 (sample_vm sample_move) [Const W2 300, Var Global W0 4] 0x1004
     (Some (data8 (valF (- 127) 127 300))) (cMoveFto8 (sample_vm sample_move))"
  using move_float [of "sample_vm sample_move"] sample_limits sample_move_operands(2) by simp

end
