(* ===== verification/VM_Dispatch.thy ===== *)
theory VM_Dispatch
  imports VM_Info VM_Compare VM_Branch VM_Move
begin

text \<open>
  The interpreter of \<open>lms2012.c\<close>: the table of byte codes (\<open>PrimDispatchTable\<close>), break points
  and the monitor, the test mode, one round of the scheduler (\<open>mSchedCtrl\<close>) and the execution
  of a byte code stream for C code (\<open>ExecuteByteCode\<close>). The modules that are not modelled are
  given by two parameters: \<open>others\<close> is what their byte codes do to the machine, \<open>devices\<close> what
  their periodic updates do.
\<close>

subsection \<open>The byte codes of one name\<close>

fun cMathAdd :: "dtype \<Rightarrow> vm \<Rightarrow> vm option" where
  "cMathAdd T8 = cMathAdd8" | "cMathAdd T16 = cMathAdd16" | "cMathAdd T32 = cMathAdd32" | "cMathAdd TF = cMathAddF"

fun cMathSub :: "dtype \<Rightarrow> vm \<Rightarrow> vm option" where
  "cMathSub T8 = cMathSub8" | "cMathSub T16 = cMathSub16" | "cMathSub T32 = cMathSub32" | "cMathSub TF = cMathSubF"

fun cMathMul :: "dtype \<Rightarrow> vm \<Rightarrow> vm option" where
  "cMathMul T8 = cMathMul8" | "cMathMul T16 = cMathMul16" | "cMathMul T32 = cMathMul32" | "cMathMul TF = cMathMulF"

fun cMathDiv :: "dtype \<Rightarrow> vm \<Rightarrow> vm option" where
  "cMathDiv T8 = cMathDiv8" | "cMathDiv T16 = cMathDiv16" | "cMathDiv T32 = cMathDiv32" | "cMathDiv TF = cMathDivF"

text \<open>The logical byte codes do not exist for floats.\<close>

fun cMathLogic :: "OPCODE \<Rightarrow> (vm \<Rightarrow> vm option) option" where
  "cMathLogic (opOR T8) = Some cMathOr8" | "cMathLogic (opOR T16) = Some cMathOr16" | "cMathLogic (opOR T32) = Some cMathOr32"
| "cMathLogic (opAND T8) = Some cMathAnd8" | "cMathLogic (opAND T16) = Some cMathAnd16" | "cMathLogic (opAND T32) = Some cMathAnd32"
| "cMathLogic (opXOR T8) = Some cMathXor8" | "cMathLogic (opXOR T16) = Some cMathXor16" | "cMathLogic (opXOR T32) = Some cMathXor32"
| "cMathLogic (opRL T8) = Some cMathRl8" | "cMathLogic (opRL T16) = Some cMathRl16" | "cMathLogic (opRL T32) = Some cMathRl32"
| "cMathLogic _ = None"

subsection \<open>The dispatch table\<close>

text \<open>The handler of a byte code other than a break point; \<open>None\<close> for those of the other
  modules.\<close>

fun handler :: "OPCODE \<Rightarrow> (vm \<Rightarrow> vm option) option" where
  "handler opERROR = Some Error"
| "handler opNOP = Some Nop"
| "handler opPROGRAM_STOP = Some ProgramStop"
| "handler opPROGRAM_START = Some ProgramStart"
| "handler opOBJECT_STOP = Some ObjectStop"
| "handler opOBJECT_START = Some ObjectStart"
| "handler opOBJECT_TRIG = Some ObjectTrig"
| "handler opOBJECT_WAIT = Some ObjectWait"
| "handler opRETURN = Some ObjectReturn"
| "handler opCALL = Some ObjectCall"
| "handler opOBJECT_END = Some ObjectEnd"
| "handler opSLEEP = Some Sleep"
| "handler opPROGRAM_INFO = Some ProgramInfo"
| "handler opLABEL = Some DefLabel"
| "handler opDO = Some Do"
| "handler (opADD ty) = Some (cMathAdd ty)"
| "handler (opSUB ty) = Some (cMathSub ty)"
| "handler (opMUL ty) = Some (cMathMul ty)"
| "handler (opDIV ty) = Some (cMathDiv ty)"
| "handler (opOR ty) = cMathLogic (opOR ty)"
| "handler (opAND ty) = cMathLogic (opAND ty)"
| "handler (opXOR ty) = cMathLogic (opXOR ty)"
| "handler (opRL ty) = cMathLogic (opRL ty)"
| "handler opINIT_BYTES = Some cMoveInitBytes"
| "handler (opMOVE ty1 ty2) = Some (cMove ty1 ty2)"
| "handler opJR = Some cBranchJr"
| "handler opJR_FALSE = Some cBranchJrFalse"
| "handler opJR_TRUE = Some cBranchJrTrue"
| "handler opJR_NAN = Some cBranchJrNan"
| "handler (opCP rel ty) = Some (cCompare rel ty)"
| "handler (opSELECT ty) = Some (cCompareSelect ty)"
| "handler (opJR_CP rel ty) = Some (cBranchJrCp rel ty)"
| "handler opINFO = Some Info"
| "handler opTIMER_WAIT = Some cTimerWait"
| "handler opTIMER_READY = Some cTimerReady"
| "handler opTIMER_READ = Some cTimerRead"
| "handler opBP_SET = Some BreakSet"
| "handler opMATH = Some cMath"
| "handler opRANDOM = Some Random"
| "handler opTIMER_READ_US = Some cTimerReaduS"
| "handler opARRAY = Some cMemoryArray"
| "handler opARRAY_WRITE = Some cMemoryArrayWrite"
| "handler opARRAY_READ = Some cMemoryArrayRead"
| "handler opARRAY_APPEND = Some cMemoryArrayAppend"
| "handler (opREAD ty) = Some (cMoveRead ty)"
| "handler (opWRITE ty) = Some (cMoveWrite ty)"
| "handler opMEMORY_WRITE = Some MemoryWrite"
| "handler opMEMORY_READ = Some MemoryRead"
| "handler opPORT_CNV_OUTPUT = Some PortCnvOutput"
| "handler opPORT_CNV_INPUT = Some PortCnvInput"
| "handler opNOTE_TO_FREQ = Some NoteToFreq"
| "handler _ = None"

definition is_break :: "OPCODE \<Rightarrow> bool" where
  "is_break c \<longleftrightarrow> c = opBP0 \<or> c = opBP1 \<or> c = opBP2 \<or> c = opBP3"

text \<open>\<open>BreakPoint\<close> up to the call of the byte code it stands for: it puts back the original
  byte code, or skips the break point if there is none, and shows the break or, for number 3,
  pulses the test pin.\<close>

definition break_enter :: "vm \<Rightarrow> (ULONG \<times> UBYTE \<times> vm) option" where
  "break_enter s = do {
     let TmpIp = ObjectIp s - 1;
     No \<leftarrow> load8 s (PtrMem TmpIp);
     P \<leftarrow> Program s (ProgramId s);
     let op = BrkpOpCode (prg_Brkp P (unat (No AND 3)));
     s \<leftarrow> (if op \<noteq> 0 then store8 (s\<lparr>ObjectIp := TmpIp\<rparr>) (PtrMem TmpIp) op else Some s);
     let s = (if No AND 3 = 3 then s\<lparr>Trace := CallUiTestpin 0 # CallUiTestpin 1 # Trace s\<rparr> else s\<lparr>Debug := 1\<rparr>);
     Some (TmpIp, No, s)
   }"

text \<open>\<open>PrimDispatchTable[b]()\<close>, where the byte code \<open>b\<close> has just been fetched. The byte code a
  break point stands for may be a break point again.\<close>

partial_function (option) dispatch :: "(UBYTE \<Rightarrow> vm \<Rightarrow> vm option) \<Rightarrow> UBYTE \<Rightarrow> vm \<Rightarrow> vm option" where
  "dispatch others b s =
     (if is_break (opcode (Consts s) b) then do {
        (TmpIp, No, s) \<leftarrow> break_enter s;
        (b', s) \<leftarrow> fetch s;
        s \<leftarrow> dispatch others b' s;
        store8 s (PtrMem TmpIp) No
      }
      else (case handler (opcode (Consts s) b) of Some h \<Rightarrow> h s | None \<Rightarrow> others b s))"

text \<open>\<open>PrimDispatchTable[*(VMInstance.ObjectIp++)]()\<close>\<close>

definition execute :: "(UBYTE \<Rightarrow> vm \<Rightarrow> vm option) \<Rightarrow> vm \<Rightarrow> vm option" where
  "execute others s = do { (b, s) \<leftarrow> fetch s; dispatch others b s }"

subsection \<open>The monitor\<close>

text \<open>\<open>cUiEscape\<close> reads the keyboard of the terminal.\<close>

definition cUiEscape :: "vm \<Rightarrow> UBYTE \<times> vm" where
  "cUiEscape s = (Keys s (KeyNo s), s\<lparr>KeyNo := Suc (KeyNo s)\<rparr>)"

definition monitor_step :: "(UBYTE \<Rightarrow> vm \<Rightarrow> vm option) \<Rightarrow> vm \<Rightarrow> vm option" where
  "monitor_step others s = (let s = s\<lparr>Priority := SavedPriority s\<rparr> in execute others (s\<lparr>Priority := Priority s - 1\<rparr>))"

text \<open>What \<open>Monitor\<close> prints is left out.\<close>

definition Monitor :: "(UBYTE \<Rightarrow> vm \<Rightarrow> vm option) \<Rightarrow> vm \<Rightarrow> vm option" where
  "Monitor others s = do {
     let s = (if Debug s = 1
              then snd (cUiEscape (s\<lparr>SavedPriority := Priority s, Debug := Debug s + 1\<rparr>)) else s);
     if Debug s = 2 then do {
       let (Esc, s) = cUiEscape s;
       if Esc = 0x20 then do { s \<leftarrow> monitor_step others s; Some (s\<lparr>Debug := Debug s - 1\<rparr>) }
       else if Esc = 0x3C then do { s \<leftarrow> monitor_step others s; Some (s\<lparr>Debug := 0\<rparr>) }
       else Some (s\<lparr>Priority := 0\<rparr>)
     }
     else Some s
   }"

subsection \<open>The test mode\<close>

text \<open>The devices can be opened or not; what is sent to them is left out.\<close>

definition TstOpen :: "UWORD \<Rightarrow> vm \<Rightarrow> RESULT \<times> vm" where
  "TstOpen Time s =
     (if Time > 0 \<and> Time \<le> 30000 then
        (if Test s = 0 then (if TestDevices s then (OK, s\<lparr>Test := Time\<rparr>) else (FAIL, s))
         else (OK, s\<lparr>Test := Time\<rparr>))
      else (FAIL, s))"

definition TstClose :: "vm \<Rightarrow> vm" where
  "TstClose s = (if Test s \<noteq> 0 \<and> TestDevices s then s\<lparr>Test := 0\<rparr> else s)"

subsection \<open>The scheduler\<close>

text \<open>The byte codes of a time slice.\<close>

partial_function (option) time_slice :: "(UBYTE \<Rightarrow> vm \<Rightarrow> vm option) \<Rightarrow> vm \<Rightarrow> vm option" where
  "time_slice others s =
     (if Priority s = 0 then Some s
      else if Debug s \<noteq> 0 then do { s \<leftarrow> Monitor others s; time_slice others s }
      else do {
        s \<leftarrow> execute others (s\<lparr>Priority := Priority s - 1\<rparr>);
        time_slice others (s\<lparr>InstrCnt := InstrCnt s + 1\<rparr>)
      })"

text \<open>The updates of the other modules, every 2 and every 10 milliseconds. What such a call
  does to the machine is given by the parameter \<open>devices\<close>, like the byte codes of these modules: the power
  checks of \<open>cUiUpdate\<close> may end the user's program, \<open>cInputUpdate\<close> may log an error. The
  call itself is also noted in \<open>Trace\<close>.\<close>

type_synonym devices = "event \<Rightarrow> vm \<Rightarrow> vm option"

definition call_module :: "devices \<Rightarrow> event \<Rightarrow> vm \<Rightarrow> vm option" where
  "call_module devices e s = devices e (s\<lparr>Trace := e # Trace s\<rparr>)"

definition update_fast :: "devices \<Rightarrow> vm \<Rightarrow> vm option" where
  "update_fast devices s =
     (let Time = NewTime s - OldTime1 s in
      if Time \<ge> UPDATE_TIME1 then do {
        s \<leftarrow> call_module devices CallComUpdate (s\<lparr>OldTime1 := OldTime1 s + Time\<rparr>);
        s \<leftarrow> call_module devices CallSoundUpdate s;
        call_module devices CallDynloadUpdateVM s
      }
      else Some s)"

definition update_slow :: "devices \<Rightarrow> ULONG \<Rightarrow> vm \<Rightarrow> vm option" where
  "update_slow devices Time s = do {
     s \<leftarrow> call_module devices (CallInputUpdate (ucast Time)) (s\<lparr>OldTime2 := OldTime2 s + Time\<rparr>);
     call_module devices (CallUiUpdate (ucast Time)) s
   }"

definition update_test :: "UWORD \<Rightarrow> vm \<Rightarrow> vm" where
  "update_test Time s =
     (if Test s \<noteq> 0 then (if Test s > Time then s\<lparr>Test := Test s - Time\<rparr> else TstClose s) else s)"

definition updates :: "devices \<Rightarrow> vm \<Rightarrow> vm option" where
  "updates devices s = do {
     let (ms, s) = GetTimeMS s;
     s \<leftarrow> update_fast devices (s\<lparr>NewTime := ms\<rparr>);
     let Time = NewTime s - OldTime2 s;
     if Time \<ge> UPDATE_TIME2 then do {
       s \<leftarrow> update_slow devices Time s;
       Some (update_test (ucast Time) s)
     }
     else Some s
   }"

text \<open>\<open>ExecuteByteCode\<close> makes the same updates without the test mode.\<close>

definition stream_updates :: "devices \<Rightarrow> vm \<Rightarrow> vm option" where
  "stream_updates devices s = do {
     let (ms, s) = GetTimeMS s;
     s \<leftarrow> update_fast devices (s\<lparr>NewTime := ms\<rparr>);
     let Time = NewTime s - OldTime2 s;
     if Time \<ge> UPDATE_TIME2 then update_slow devices Time s else Some s
   }"

definition set_result :: "RESULT \<Rightarrow> vm \<Rightarrow> vm option" where
  "set_result r s = upd_prg (ProgramId s) (\<lambda>P. P\<lparr>prg_Result := r\<rparr>) s"

text \<open>The end of a slice after \<open>FAILBREAK\<close>; the second component is \<open>*pRestart\<close>.\<close>

definition fail_break :: "UBYTE \<Rightarrow> vm \<Rightarrow> (UBYTE \<times> vm) option" where
  "fail_break pRestart s =
     (if ProgramId s \<noteq> GUI_SLOT (Consts s) then do {
        let s = (if ProgramId s \<noteq> CMD_SLOT (Consts s) then s\<lparr>Trace := SetWarningDspStat # Trace s\<rparr> else s);
        s \<leftarrow> ProgramEnd (ProgramId s) s;
        s \<leftarrow> set_result FAIL s;
        Some (pRestart, s)
      }
      else Some (1, LogErrorNumber VM_INTERNAL s))"

definition instr_break :: "vm \<Rightarrow> vm option" where
  "instr_break s =
     (if DispatchStatus s = INSTRBREAK then
        set_result FAIL (if ProgramId s \<noteq> CMD_SLOT (Consts s) then LogErrorNumber VM_PROGRAM_INSTRUCTION_BREAK s else s)
      else Some s)"

definition leave_object :: "vm \<Rightarrow> (RESULT \<times> vm) option" where
  "leave_object s = do {
     s \<leftarrow> ObjectExit s;
     (Result, s) \<leftarrow> ObjectExec s;
     s \<leftarrow> (if Result = STOP then do {
             s \<leftarrow> ProgramExit s;
             s \<leftarrow> ProgramEnd (ProgramId s) s;
             Some (s\<lparr>DispatchStatus := NOBREAK\<rparr>)
           }
           else if DispatchStatus s \<noteq> STOPBREAK then ProgramExit s else Some s);
     Some (Result, s)
   }"

definition mSchedCtrl ::
    "(UBYTE \<Rightarrow> vm \<Rightarrow> vm option) \<Rightarrow> devices \<Rightarrow> UBYTE \<Rightarrow> vm \<Rightarrow> (RESULT \<times> UBYTE \<times> vm) option" where
  "mSchedCtrl others devices pRestart s = do {
     s \<leftarrow> (if DispatchStatus s \<noteq> STOPBREAK then ProgramInit s else Some s);
     (d, s) \<leftarrow> ObjectInit s;
     s \<leftarrow> time_slice others (SetDispatchStatus d s);
     s \<leftarrow> updates devices s;
     (Result, pRestart, s) \<leftarrow>
       (if DispatchStatus s = FAILBREAK then do {
          (pRestart, s) \<leftarrow> fail_break pRestart s;
          Some (FAIL, pRestart, s)
        }
        else do {
          s \<leftarrow> instr_break s;
          (Result, s) \<leftarrow> leave_object s;
          Some (Result, pRestart, s)
        });
     (Result, s) \<leftarrow> (if DispatchStatus s \<noteq> STOPBREAK then ProgramExec s else Some (Result, s));
     Some (if pRestart = 1 then FAIL else Result, pRestart, s)
   }"

subsection \<open>Byte code streams of C code\<close>

definition long_press :: "vm \<Rightarrow> bool \<times> vm" where
  "long_press s = (LongPress s (PressNo s), s\<lparr>PressNo := Suc (PressNo s)\<rparr>)"

text \<open>Whether the next byte code is \<open>opOBJECT_END\<close>.\<close>

definition at_end :: "vm \<Rightarrow> bool option" where
  "at_end s = map_option (\<lambda>b. opcode (Consts s) b = opOBJECT_END) (mem s (ObjectIp s))"

partial_function (option) run_codes :: "(UBYTE \<Rightarrow> vm \<Rightarrow> vm option) \<Rightarrow> vm \<Rightarrow> vm option" where
  "run_codes others s =
     (if Priority s = 0 then Some s
      else do {
        e \<leftarrow> at_end s;
        if e then Some s
        else do {
          s \<leftarrow> execute others (s\<lparr>Priority := Priority s - 1\<rparr>);
          run_codes others s
        }
      })"

partial_function (option) run_stream :: "(UBYTE \<Rightarrow> vm \<Rightarrow> vm option) \<Rightarrow> devices \<Rightarrow> vm \<Rightarrow> vm option" where
  "run_stream others devices s = do {
     e \<leftarrow> at_end s;
     if e then Some s
     else do {
       let (pressed, s) = long_press s;
       if pressed then Some s
       else do {
         s \<leftarrow> run_codes others (s\<lparr>DispatchStatus := NOBREAK, Priority := C_PRIORITY\<rparr>);
         s \<leftarrow> stream_updates devices s;
         run_stream others devices s
       }
     }
   }"

definition ExecuteByteCode ::
    "(UBYTE \<Rightarrow> vm \<Rightarrow> vm option) \<Rightarrow> devices \<Rightarrow> ULONG \<Rightarrow> ULONG \<Rightarrow> ULONG \<Rightarrow> vm \<Rightarrow> (DSPSTAT \<times> vm) option" where
  "ExecuteByteCode others devices pByteCode pGlobals pLocals s = do {
     let s = s\<lparr>ObjIpSave := ObjectIp s, ObjGlobalSave := pGlobal s, ObjLocalSave := ObjectLocal s,
               DispatchStatusSave := DispatchStatus s, PrioritySave := Priority s\<rparr>;
     s \<leftarrow> run_stream others devices (s\<lparr>ObjectIp := pByteCode, pGlobal := pGlobals, ObjectLocal := pLocals, Priority := 1\<rparr>);
     Some (DispatchStatus s,
       s\<lparr>Priority := PrioritySave s, DispatchStatus := DispatchStatusSave s, ObjectLocal := ObjLocalSave s,
         pGlobal := ObjGlobalSave s, ObjectIp := ObjIpSave s\<rparr>)
   }"

end
