(* ===== verification/VM_Invariant.thy ===== *)
theory VM_Invariant
  imports VM_Dispatch
begin

text \<open>
  Invariants of the machine. The locale \<open>code_invariant\<close> states which steps a property of
  states has to survive - single registers, stores into mapped memory, the operations of the
  memory pools - and proves once that every byte code keeps such a property; its extension
  \<open>machine_invariant\<close> does the same for the monitor, a round of the scheduler and
  byte code streams. What the modules that are not modelled may do to the machine is the
  relation \<open>acts\<close>; \<open>module_invariant\<close> shows by induction on it that they keep the property too.
  Interpretations give the invariant of the memory pools, the state's
  types, the saved registers and the bound of a time slice.
\<close>

subsection \<open>What holds of a result\<close>

definition holds :: "('a \<Rightarrow> bool) \<Rightarrow> 'a option \<Rightarrow> bool" where
  "holds Q m \<longleftrightarrow> (\<forall>x. m = Some x \<longrightarrow> Q x)"

lemma holdsI: "(\<And>x. m = Some x \<Longrightarrow> Q x) \<Longrightarrow> holds Q m"
  by (simp add: holds_def)

lemma holdsD: "holds Q m \<Longrightarrow> m = Some x \<Longrightarrow> Q x"
  by (simp add: holds_def)

named_theorems keeps

lemma holds_Some [keeps]: "Q x \<Longrightarrow> holds Q (Some x)"
  and holds_None [keeps]: "holds Q None"
  and holds_if [keeps]: "\<lbrakk>c \<Longrightarrow> holds Q a; \<not> c \<Longrightarrow> holds Q b\<rbrakk> \<Longrightarrow> holds Q (if c then a else b)"
  and holds_option [keeps]: "\<lbrakk>holds Q a; \<And>x. holds Q (f x)\<rbrakk> \<Longrightarrow> holds Q (case m of None \<Rightarrow> a | Some x \<Rightarrow> f x)"
  by (simp_all add: holds_def split: option.split)

text \<open>A step that delivers a value and no state, of the types that occur.\<close>

lemma holds_bind_pure: "(\<And>x. holds Q (f x)) \<Longrightarrow> holds Q (Option.bind m f)" for m :: "'b option"
  by (cases m) (simp_all add: holds_def)

lemma holds_let_pure: "(\<And>x. holds Q (f x)) \<Longrightarrow> holds Q (Let e f)" for e :: 'a
  by (simp add: holds_def Let_def)

lemma holds_pair_pure [keeps]: "(\<And>x y. holds Q (f x y)) \<Longrightarrow> holds Q (case p of (x, y) \<Rightarrow> f x y)"
  for f :: "'a::len word \<Rightarrow> 'b::len word \<Rightarrow> _"
  by (cases p) simp

lemmas pure_steps [keeps] =
  holds_bind_pure [where 'b = "'b::len word"] holds_let_pure [where 'a = "'b::len word"]
  holds_bind_pure [where 'b = bool] holds_let_pure [where 'a = bool]
  holds_bind_pure [where 'b = "'b::len word \<times> 'c::len word"]
  holds_bind_pure [where 'b = PRG] holds_let_pure [where 'a = BRKP]
  holds_bind_pure [where 'b = OBJ] holds_bind_pure [where 'b = OBJSTAT]
  holds_bind_pure [where 'b = RESULT] holds_let_pure [where 'a = DSPSTAT]
  holds_let_pure [where 'a = ptr] holds_bind_pure [where 'b = "UBYTE list"]
  holds_let_pure [where 'a = int] holds_let_pure [where 'a = nat]
  holds_bind_pure [where 'b = "DATAF \<Rightarrow> DATAF"]

text \<open>Stores that only change mapped bytes or the register \<open>Value\<close>.\<close>

definition storing :: "(vm \<Rightarrow> ptr \<Rightarrow> 'a \<Rightarrow> vm option) \<Rightarrow> bool" where
  "storing st \<longleftrightarrow> (\<forall>s p x t. st s p x = Some t \<longrightarrow>
     (\<exists>m. t = s\<lparr>mem := m\<rparr> \<and> dom m = dom (mem s)) \<or> (\<exists>v. t = s\<lparr>Value := v\<rparr>))"

context cell begin

lemma storing_st: "storing st"
  unfolding storing_def
proof (intro allI impI)
  fix s p x t assume "st s p x = Some t"
  then show "(\<exists>m. t = s\<lparr>mem := m\<rparr> \<and> dom m = dom (mem s)) \<or> (\<exists>v. t = s\<lparr>Value := v\<rparr>)"
    by (cases p) (auto dest: st_mem st_value)
qed

end

lemmas storing_all [keeps] = c8.storing_st c16.storing_st c32.storing_st

subsection \<open>Byte codes\<close>

locale code_invariant =
  fixes P :: "vm \<Rightarrow> bool"
  assumes ObjectIp [keeps]: "P s \<Longrightarrow> P (s\<lparr>ObjectIp := ip\<rparr>)"
    and Value [keeps]: "P s \<Longrightarrow> P (s\<lparr>Value := v\<rparr>)"
    and Handle [keeps]: "P s \<Longrightarrow> P (s\<lparr>Handle := h\<rparr>)"
    and ObjectId [keeps]: "P s \<Longrightarrow> P (s\<lparr>ObjectId := i\<rparr>)"
    and ObjectLocal [keeps]: "P s \<Longrightarrow> P (s\<lparr>ObjectLocal := a\<rparr>)"
    and ObjHeap [keeps]: "P s \<Longrightarrow> P (s\<lparr>ObjHeap := obs\<rparr>)"
    and RefCount [keeps]: "P s \<Longrightarrow> P (s\<lparr>RefCount := r\<rparr>)"
    and Trace [keeps]: "P s \<Longrightarrow> P (s\<lparr>Trace := es\<rparr>)"
    and ClockNo [keeps]: "P s \<Longrightarrow> P (s\<lparr>ClockNo := n\<rparr>)"
    and TimeuS [keeps]: "P s \<Longrightarrow> P (s\<lparr>TimeuS := v\<rparr>)"
    and RandNo [keeps]: "P s \<Longrightarrow> P (s\<lparr>RandNo := n\<rparr>)"
    and VolumePercent [keeps]: "P s \<Longrightarrow> P (s\<lparr>VolumePercent := b\<rparr>)"
    and SleepMinutes [keeps]: "P s \<Longrightarrow> P (s\<lparr>SleepMinutes := b\<rparr>)"
    and Debug [keeps]: "P s \<Longrightarrow> P (s\<lparr>Debug := d\<rparr>)"
    and SetDispatchStatus [keeps]: "P s \<Longrightarrow> P (SetDispatchStatus st s)"
    and LogErrorNumber [keeps]: "P s \<Longrightarrow> P (LogErrorNumber e s)"
    and LogErrorGet: "P s \<Longrightarrow> P (snd (LogErrorGet s))"
    and mapped: "P s \<Longrightarrow> dom m = dom (mem s) \<Longrightarrow> P (s\<lparr>mem := m\<rparr>)"
    and Program: "P s \<Longrightarrow> Program s p \<noteq> None \<Longrightarrow> P (s\<lparr>Program := (Program s)(p \<mapsto> Q)\<rparr>)"
    and alloc [keeps]: "P s \<Longrightarrow> holds (\<lambda>x. P (snd (snd x))) (cMemoryAlloc p ty sz s)"
    and reallocate [keeps]: "P s \<Longrightarrow> holds (\<lambda>x. P (snd x)) (cMemoryReallocate p h sz s)"
    and free_handle [keeps]: "P s \<Longrightarrow> holds (\<lambda>x. P (snd x)) (cMemoryFreeHandle p h s)"
    and PathList [keeps]: "P s \<Longrightarrow> P (s\<lparr>PathList := pl\<rparr>)"
    and validate [keeps]: "P s \<Longrightarrow> holds (\<lambda>x. P (snd x)) (cValidateProgram p a s)"
begin

text \<open>Steps that deliver a state, alone or after other results.\<close>

lemma bind_vm [keeps]: "holds P m \<Longrightarrow> (\<And>s. P s \<Longrightarrow> holds Q (f s)) \<Longrightarrow> holds Q (Option.bind m f)"
  by (cases m) (simp_all add: holds_def)

lemma bind_pair [keeps]:
  "holds (\<lambda>x. P (snd x)) m \<Longrightarrow> (\<And>a s. P s \<Longrightarrow> holds Q (f a s)) \<Longrightarrow>
    holds Q (Option.bind m (\<lambda>(a, s). f a s))"
  by (cases m) (auto simp: holds_def)

lemma bind_triple [keeps]:
  "holds (\<lambda>x. P (snd (snd x))) m \<Longrightarrow> (\<And>a b s. P s \<Longrightarrow> holds Q (f a b s)) \<Longrightarrow>
    holds Q (Option.bind m (\<lambda>(a, b, s). f a b s))"
  by (cases m) (auto simp: holds_def)

lemma let_vm [keeps]: "P e \<Longrightarrow> (\<And>s. P s \<Longrightarrow> holds Q (f s)) \<Longrightarrow> holds Q (Let e f)"
  by simp

lemma let_pair [keeps]:
  "P (snd e) \<Longrightarrow> (\<And>a s. P s \<Longrightarrow> holds Q (f a s)) \<Longrightarrow> holds Q (let (a, s) = e in f a s)"
  by (cases e) simp

lemma plain_states [keeps]:
  "P s \<Longrightarrow> P (snd (a, s))" "P s \<Longrightarrow> P (snd (snd (a, b, s)))"
  "\<lbrakk>c \<Longrightarrow> P s; \<not> c \<Longrightarrow> P t\<rbrakk> \<Longrightarrow> P (if c then s else t)"
  "\<lbrakk>c \<Longrightarrow> P (snd x); \<not> c \<Longrightarrow> P (snd y)\<rbrakk> \<Longrightarrow> P (snd (if c then x else y))"
  by simp_all

lemma let_state [keeps]: "P e \<Longrightarrow> (\<And>s. P s \<Longrightarrow> P (f s)) \<Longrightarrow> P (Let e f)"
  by simp

lemma map_state [keeps]:
  "holds (\<lambda>x. P (snd x)) m \<Longrightarrow> holds P (map_option snd m)"
  "holds P n \<Longrightarrow> holds (\<lambda>x. P (snd x)) (map_option (Pair b) n)"
  by (auto simp: holds_def)

lemma store: "P s \<Longrightarrow> storing st \<Longrightarrow> holds P (st s p x)"
  unfolding storing_def by (rule holdsI) (blast intro: mapped Value)

lemma stores [keeps]:
  assumes "P s"
  shows "holds P (store8 s p b)" "holds P (store16 s p w)" "holds P (store32 s p l)"
  by (intro store assms keeps)+

lemma upd_prg [keeps]: "P s \<Longrightarrow> holds P (upd_prg p f s)"
  by (auto simp: holds_def upd_prg_def bind_conv intro: Program)

lemma upd_obj [keeps]: "P s \<Longrightarrow> holds P (upd_obj L i f s)"
  by (auto simp: holds_def upd_obj_def bind_conv intro: ObjHeap)

text \<open>Parameters.\<close>

lemma fetches [keeps]:
  assumes "P s"
  shows "holds (\<lambda>x. P (snd x)) (fetch s)" "holds P (fetch_or k s)" "holds P (fetch_1 s)"
    "holds P (fetch_2 s)" "holds P (fetch_4 s)"
proof -
  have f: "holds (\<lambda>x. P (snd x)) (fetch s)" if "P s" for s
    unfolding fetch_def by (intro keeps that)
  have o: "holds P (fetch_or k s)" if "P s" for k s
    unfolding fetch_or_def by (intro keeps f that; assumption)
  have 1: "holds P (fetch_1 s)" if "P s" for s
    unfolding fetch_1_def by (intro keeps f that; assumption)
  show "holds (\<lambda>x. P (snd x)) (fetch s)" "holds P (fetch_or k s)" "holds P (fetch_1 s)"
    using f o 1 assms by blast+
  show "holds P (fetch_2 s)" "holds P (fetch_4 s)"
    unfolding fetch_2_def fetch_4_def by (intro keeps o 1 assms; assumption)+
qed

lemma pointer [keeps]:
  assumes "P s"
  shows "holds (\<lambda>x. P (snd x)) (long_variable d s)" "holds (\<lambda>x. P (snd x)) (label_constant s)"
    "holds (\<lambda>x. P (snd x)) (long_constant d s)"
  unfolding long_variable_def label_constant_def long_constant_def
  by (intro keeps assms; assumption)+

lemma indirection [keeps]: "P s \<Longrightarrow> holds (\<lambda>x. P (snd x)) (indirection d (p, s))"
  unfolding indirection_def prod.case by (intro keeps; assumption)

lemma PrimParPointer [keeps]: "P s \<Longrightarrow> holds (\<lambda>x. P (snd x)) (PrimParPointer s)"
  unfolding PrimParPointer_def by (intro keeps; assumption)

lemma par_get [keeps]: "P s \<Longrightarrow> holds (\<lambda>x. P (snd x)) (par_get ld s)" for ld :: "vm \<Rightarrow> ptr \<Rightarrow> 'a::len word option"
  unfolding par_get_def by (intro keeps; assumption)

lemma par_put [keeps]: "P s \<Longrightarrow> storing st \<Longrightarrow> holds P (par_put st x s)"
  unfolding par_put_def by (intro keeps store; assumption)


lemma instruction_pointer [keeps]:
  assumes "P s"
  shows "P (AdjustObjectIp v s)" "P (SetObjectIp v s)"
  unfolding AdjustObjectIp_def SetObjectIp_def by (intro keeps assms)+

lemma PrimParAdvance [keeps]: "P s \<Longrightarrow> holds P (PrimParAdvance s)"
  unfolding PrimParAdvance_def advance_def by (intro keeps; assumption)

lemma copy_cell [keeps]: "P s \<Longrightarrow> storing st \<Longrightarrow> holds P (copy_cell ld st src dst s)"
  unfolding copy_cell_def by (rule holds_bind_pure) (rule store)

text \<open>Arithmetic, comparisons, branches and moves.\<close>

lemma arithmetic [keeps]:
  assumes "P s"
  shows "holds P (cMathAdd8 s)" "holds P (cMathAdd16 s)" "holds P (cMathAdd32 s)"
    "holds P (cMathAddF s)" "holds P (cMathSub8 s)" "holds P (cMathSub16 s)"
    "holds P (cMathSub32 s)" "holds P (cMathSubF s)" "holds P (cMathMul8 s)"
    "holds P (cMathMul16 s)" "holds P (cMathMul32 s)" "holds P (cMathMulF s)"
    "holds P (cMathDiv8 s)" "holds P (cMathDiv16 s)" "holds P (cMathDiv32 s)"
    "holds P (cMathDivF s)" "holds P (cMathOr8 s)" "holds P (cMathOr16 s)" "holds P (cMathOr32 s)"
    "holds P (cMathAnd8 s)" "holds P (cMathAnd16 s)" "holds P (cMathAnd32 s)"
    "holds P (cMathXor8 s)" "holds P (cMathXor16 s)" "holds P (cMathXor32 s)" "holds P (cMathRl8 s)"
    "holds P (cMathRl16 s)" "holds P (cMathRl32 s)"
  unfolding cMathAdd8_def cMathAdd16_def cMathAdd32_def cMathAddF_def cMathSub8_def cMathSub16_def
    cMathSub32_def cMathSubF_def cMathMul8_def cMathMul16_def cMathMul32_def cMathMulF_def
    cMathDiv8_def cMathDiv16_def cMathDiv32_def cMathDivF_def cMathOr8_def cMathOr16_def cMathOr32_def
    cMathAnd8_def cMathAnd16_def cMathAnd32_def cMathXor8_def cMathXor16_def cMathXor32_def
    cMathRl8_def cMathRl16_def cMathRl32_def
  by (intro keeps assms; assumption)+

lemma comparisons [keeps]:
  assumes "P s"
  shows "holds P (cCompareLt8 s)" "holds P (cCompareLt16 s)" "holds P (cCompareLt32 s)"
    "holds P (cCompareLtF s)" "holds P (cCompareGt8 s)" "holds P (cCompareGt16 s)"
    "holds P (cCompareGt32 s)" "holds P (cCompareGtF s)" "holds P (cCompareEq8 s)"
    "holds P (cCompareEq16 s)" "holds P (cCompareEq32 s)" "holds P (cCompareEqF s)"
    "holds P (cCompareNEq8 s)" "holds P (cCompareNEq16 s)" "holds P (cCompareNEq32 s)"
    "holds P (cCompareNEqF s)" "holds P (cCompareLtEq8 s)" "holds P (cCompareLtEq16 s)"
    "holds P (cCompareLtEq32 s)" "holds P (cCompareLtEqF s)" "holds P (cCompareGtEq8 s)"
    "holds P (cCompareGtEq16 s)" "holds P (cCompareGtEq32 s)" "holds P (cCompareGtEqF s)"
    "holds P (cCompareSelect8 s)" "holds P (cCompareSelect16 s)" "holds P (cCompareSelect32 s)"
    "holds P (cCompareSelectF s)"
  unfolding cCompareLt8_def cCompareLt16_def cCompareLt32_def cCompareLtF_def cCompareGt8_def
    cCompareGt16_def cCompareGt32_def cCompareGtF_def cCompareEq8_def cCompareEq16_def
    cCompareEq32_def cCompareEqF_def cCompareNEq8_def cCompareNEq16_def cCompareNEq32_def
    cCompareNEqF_def cCompareLtEq8_def cCompareLtEq16_def cCompareLtEq32_def cCompareLtEqF_def
    cCompareGtEq8_def cCompareGtEq16_def cCompareGtEq32_def cCompareGtEqF_def cCompareSelect8_def
    cCompareSelect16_def cCompareSelect32_def cCompareSelectF_def
  by (intro keeps assms; assumption)+

lemma branches [keeps]:
  assumes "P s"
  shows "holds P (cBranchJr s)" "holds P (cBranchJrFalse s)" "holds P (cBranchJrTrue s)"
    "holds P (cBranchJrNan s)" "holds P (cBranchJrLt8 s)" "holds P (cBranchJrLt16 s)"
    "holds P (cBranchJrLt32 s)" "holds P (cBranchJrLtF s)" "holds P (cBranchJrGt8 s)"
    "holds P (cBranchJrGt16 s)" "holds P (cBranchJrGt32 s)" "holds P (cBranchJrGtF s)"
    "holds P (cBranchJrEq8 s)" "holds P (cBranchJrEq16 s)" "holds P (cBranchJrEq32 s)"
    "holds P (cBranchJrEqF s)" "holds P (cBranchJrNEq8 s)" "holds P (cBranchJrNEq16 s)"
    "holds P (cBranchJrNEq32 s)" "holds P (cBranchJrNEqF s)" "holds P (cBranchJrLtEq8 s)"
    "holds P (cBranchJrLtEq16 s)" "holds P (cBranchJrLtEq32 s)" "holds P (cBranchJrLtEqF s)"
    "holds P (cBranchJrGtEq8 s)" "holds P (cBranchJrGtEq16 s)" "holds P (cBranchJrGtEq32 s)"
    "holds P (cBranchJrGtEqF s)"
  unfolding cBranchJr_def cBranchJrFalse_def cBranchJrTrue_def cBranchJrNan_def cBranchJrLt8_def
    cBranchJrLt16_def cBranchJrLt32_def cBranchJrLtF_def cBranchJrGt8_def cBranchJrGt16_def
    cBranchJrGt32_def cBranchJrGtF_def cBranchJrEq8_def cBranchJrEq16_def cBranchJrEq32_def
    cBranchJrEqF_def cBranchJrNEq8_def cBranchJrNEq16_def cBranchJrNEq32_def cBranchJrNEqF_def
    cBranchJrLtEq8_def cBranchJrLtEq16_def cBranchJrLtEq32_def cBranchJrLtEqF_def cBranchJrGtEq8_def
    cBranchJrGtEq16_def cBranchJrGtEq32_def cBranchJrGtEqF_def
  by (intro keeps assms; assumption)+

lemma moves [keeps]:
  assumes "P s"
  shows "holds P (cMove8to8 s)" "holds P (cMove8to16 s)" "holds P (cMove8to32 s)"
    "holds P (cMove8toF s)" "holds P (cMove16to8 s)" "holds P (cMove16to16 s)"
    "holds P (cMove16to32 s)" "holds P (cMove16toF s)" "holds P (cMove32to8 s)"
    "holds P (cMove32to16 s)" "holds P (cMove32to32 s)" "holds P (cMove32toF s)"
    "holds P (cMoveFto8 s)" "holds P (cMoveFto16 s)" "holds P (cMoveFto32 s)"
    "holds P (cMoveFtoF s)" "holds P (cMoveRead8 s)" "holds P (cMoveWrite8 s)"
    "holds P (cMoveRead16 s)" "holds P (cMoveWrite16 s)" "holds P (cMoveRead32 s)"
    "holds P (cMoveWrite32 s)" "holds P (cMoveReadF s)" "holds P (cMoveWriteF s)"
  unfolding cMove8to8_def cMove8to16_def cMove8to32_def cMove8toF_def cMove16to8_def cMove16to16_def
    cMove16to32_def cMove16toF_def cMove32to8_def cMove32to16_def cMove32to32_def cMove32toF_def
    cMoveFto8_def cMoveFto16_def cMoveFto32_def cMoveFtoF_def cMoveRead8_def cMoveWrite8_def
    cMoveRead16_def cMoveWrite16_def cMoveRead32_def cMoveWrite32_def cMoveReadF_def cMoveWriteF_def
  by (intro keeps assms; assumption)+


lemma cMath [keeps]: "P s \<Longrightarrow> holds P (cMath s)"
  unfolding cMath_def
  apply (intro keeps; assumption?)
  subgoal for Cmd t sub by (cases sub) (simp_all only: MATH_SUBCODE.case, (intro keeps; assumption)+)
  done

lemma init_bytes [keeps]: "P s \<Longrightarrow> holds P (init_bytes n p s)"
proof (induction n arbitrary: p s)
  case (Suc n)
  show ?case unfolding init_bytes.simps by (intro keeps Suc; assumption)
qed (simp add: keeps)

lemma cMoveInitBytes [keeps]: "P s \<Longrightarrow> holds P (cMoveInitBytes s)"
  unfolding cMoveInitBytes_def by (intro keeps; assumption)

lemma zero_bytes [keeps]: "P s \<Longrightarrow> holds P (zero_bytes n p s)"
proof (induction n arbitrary: p s)
  case (Suc n)
  show ?case unfolding zero_bytes.simps by (intro keeps Suc; assumption)
qed (simp add: keeps)

lemma copy_bytes [keeps]: "P s \<Longrightarrow> holds P (copy_bytes n src dst s)"
proof (induction n arbitrary: src dst s)
  case (Suc n)
  show ?case unfolding copy_bytes.simps by (intro keeps Suc; assumption)
qed (simp add: keeps)

text \<open>Timers.\<close>

lemma clocks [keeps]:
  assumes "P s"
  shows "P (snd (cTimerGetmS s))" "P (snd (cTimerGetuS s))" "P (snd (GetTimeMS s))"
  using assms unfolding cTimerGetmS_def cTimerGetuS_def GetTimeMS_def gettimeofday_def Let_def
  by (simp_all add: keeps)

lemma timers [keeps]:
  assumes "P s"
  shows "holds P (cTimerWait s)" "holds P (cTimerReady s)" "holds P (cTimerRead s)" "holds P (cTimerReaduS s)"
  unfolding cTimerWait_def cTimerReady_def cTimerRead_def cTimerReaduS_def
  by (intro keeps assms; assumption)+

text \<open>Objects and programs.\<close>

lemma objects [keeps]:
  assumes "P s"
  shows "holds P (ObjectReset i s)" "holds P (ObjectEnQueue i s)" "holds P (ObjectDeQueue i s)"
  unfolding ObjectReset_def ObjectEnQueue_def ObjectDeQueue_def
  by (intro keeps assms; assumption)+

lemma clear_memory [keeps]: "P s \<Longrightarrow> holds P (clear_memory n a s)"
proof (induction n arbitrary: a s)
  case (Suc n)
  show ?case unfolding clear_memory.simps by (intro keeps Suc; assumption)
qed (simp add: keeps)

lemma place_object [keeps]: "P s \<Longrightarrow> holds P (place_object a s)"
  unfolding place_object_def by (intro keeps; assumption)

lemma reset_object [keeps]: "P s \<Longrightarrow> holds (\<lambda>x. P (snd x)) (reset_object p a d i b s)"
  unfolding reset_object_def by (intro keeps; assumption)


lemma reset_objects [keeps]:
  assumes "P s"
  shows "holds P (reset_objects p a d i b s)"
proof (rule holdsI)
  fix t assume "reset_objects p a d i b s = Some t"
  then show "P t"
    using assms
  proof (induction rule: reset_objects.raw_induct [rotated, consumes 1, case_names step])
    case (step ro p a d i b s t)
    have IH: "P u \<Longrightarrow> holds P (ro p a d j c u)" for j c u
      using step(1) by (auto simp: holds_def)
    show ?case
      by (rule holdsD [OF _ step(2)]) (intro keeps IH step(3); assumption)
  qed
qed

lemma count_user [keeps]: "P s \<Longrightarrow> P (count_user s)"
  unfolding count_user_def open_modules_def by (intro keeps; assumption)

lemma layout_program [keeps]: "P s \<Longrightarrow> holds P (layout_program p a g d b s)"
  unfolding layout_program_def by (intro keeps; assumption)

lemma start_program [keeps]: "P s \<Longrightarrow> holds P (start_program p s)"
  unfolding start_program_def by (intro keeps; assumption)

lemma cMemoryOpen [keeps]: "P s \<Longrightarrow> holds (\<lambda>x. P (snd x)) (cMemoryOpen p sz s)"
  unfolding cMemoryOpen_def by (intro keeps; assumption)

lemma cMemoryResize [keeps]: "P s \<Longrightarrow> holds (\<lambda>x. P (snd x)) (cMemoryResize p h n s)"
  unfolding cMemoryResize_def by (intro keeps; assumption)

lemma VmMemoryResize [keeps]: "P s \<Longrightarrow> holds (\<lambda>x. P (snd x)) (VmMemoryResize h n s)"
  unfolding VmMemoryResize_def by (intro keeps; assumption)

lemma free_handles [keeps]: "P s \<Longrightarrow> holds P (free_handles p hs s)"
proof (induction hs arbitrary: s)
  case (Cons h hs)
  show ?case unfolding free_handles.simps by (intro keeps Cons; assumption)
qed (simp add: keeps)

lemma cMemoryClose [keeps]: "P s \<Longrightarrow> holds P (cMemoryClose p s)"
  unfolding cMemoryClose_def cMemoryFreeProgram_def by (intro keeps; assumption)

lemma ProgramReset [keeps]: "P s \<Longrightarrow> holds (\<lambda>x. P (snd x)) (ProgramReset p a g d s)"
  unfolding ProgramReset_def by (intro keeps; assumption)

lemma ProgramEnd [keeps]: "P s \<Longrightarrow> holds P (ProgramEnd p s)"
  unfolding ProgramEnd_def close_modules_def by (intro keeps; assumption)

text \<open>Calls.\<close>

lemma copy_string [keeps]: "P s \<Longrightarrow> holds (\<lambda>x. P (snd (snd x))) (copy_string n f src dst s)"
proof (induction n arbitrary: f src dst s)
  case (Suc n)
  show ?case unfolding copy_string.simps by (intro keeps Suc; assumption)
qed (simp add: keeps)

lemma pars_locals [keeps]:
  assumes "P s"
  shows "holds (\<lambda>x. P (snd (snd x))) (par_to_local ty ip l r s)"
    "holds (\<lambda>x. P (snd (snd x))) (local_to_par ty ip l r s)"
  unfolding par_to_local_def local_to_par_def by (intro keeps assms; assumption)+

lemma copy_pars [keeps]:
  assumes "\<And>ty ip l r s. P s \<Longrightarrow> holds (\<lambda>x. P (snd (snd x))) (body ty ip l r s)" and "P s"
  shows "holds (\<lambda>x. P (snd x)) (copy_pars body n ip l s)"
  using assms(2)
proof (induction n arbitrary: ip l s)
  case (Suc n)
  show ?case unfolding copy_pars.simps by (intro keeps Suc assms(1); assumption)
qed (simp add: keeps)

lemma copies [keeps]:
  assumes "P s"
  shows "holds P (CopyParsToLocals i s)" "holds P (CopyLocalsToPars i s)"
  unfolding CopyParsToLocals_def CopyLocalsToPars_def by (intro keeps assms; assumption)+


lemma end_programs [keeps]: "P s \<Longrightarrow> holds P (end_programs n s)"
proof (induction n arbitrary: s)
  case (Suc n)
  show ?case unfolding end_programs.simps by (intro keeps Suc; assumption)
qed (simp add: keeps)

lemma program_codes [keeps]:
  assumes "P s"
  shows "holds P (Error s)" "holds P (Nop s)" "holds P (ProgramStop s)" "holds P (ProgramStart s)" "holds P (Do s)"
    "holds P (Sleep s)" "holds P (DefLabel s)"
  unfolding Error_def Nop_def ProgramStop_def ProgramStart_def Do_def Sleep_def DefLabel_def
  by (intro keeps assms; assumption)+

lemma start_stop [keeps]:
  assumes "P s"
  shows "holds P (start_called i s)" "holds P (stop_called i s)"
  unfolding start_called_def stop_called_def by (intro keeps assms; assumption)+

lemma object_codes [keeps]:
  assumes "P s"
  shows "holds P (ObjectStop s)" "holds P (ObjectStart s)" "holds P (ObjectTrig s)" "holds P (ObjectWait s)"
    "holds P (ObjectCall s)" "holds P (ObjectReturn s)" "holds P (ObjectEnd s)"
  unfolding ObjectStop_def ObjectStart_def ObjectTrig_def ObjectWait_def ObjectCall_def ObjectReturn_def ObjectEnd_def
  by (intro keeps assms; assumption)+

text \<open>Arrays.\<close>

lemma elements [keeps]:
  assumes "P s"
  shows "holds (\<lambda>x. P (snd x)) (put_element ty a i p s)" "holds (\<lambda>x. P (snd x)) (get_element ty a i s)"
  unfolding put_element_def get_element_def by (intro keeps assms; assumption)+

lemma fill_elements [keeps]:
  assumes "storing st"
  shows "P s \<Longrightarrow> holds P (fill_elements st sz d n a s)"
proof (induction n arbitrary: a s)
  case (Suc n)
  show ?case unfolding fill_elements.simps by (intro keeps store Suc assms; assumption)
qed (simp add: keeps)

lemma init_elements [keeps]:
  fixes ld :: "vm \<Rightarrow> ptr \<Rightarrow> 'a::len word option"
  assumes "storing st"
  shows "P s \<Longrightarrow> holds P (init_elements ld st sz n a s)"
proof (induction n arbitrary: a s)
  case (Suc n)
  show ?case unfolding init_elements.simps by (intro keeps store Suc assms; assumption)
qed (simp add: keeps)

lemma fill_with [keeps]: "P s \<Longrightarrow> storing st \<Longrightarrow> holds (\<lambda>x. P (snd x)) (fill_with ld st sz n a s)"
  for ld :: "vm \<Rightarrow> ptr \<Rightarrow> 'a::len word option"
  unfolding fill_with_def by (intro keeps; assumption)

lemma array_init [keeps]: "P s \<Longrightarrow> storing st \<Longrightarrow> holds (\<lambda>x. P (snd x)) (array_init ld st sz p s)"
  for ld :: "vm \<Rightarrow> ptr \<Rightarrow> 'a::len word option"
  unfolding array_init_def by (intro keeps; assumption)

lemma read_content [keeps]: "P s \<Longrightarrow> holds (\<lambda>x. P (snd (snd x))) (read_content n a i k dst s)"
proof (induction n arbitrary: i dst s)
  case (Suc n)
  show ?case unfolding read_content.simps by (intro keeps Suc; assumption)
qed (simp add: keeps)

lemma write_content [keeps]: "P s \<Longrightarrow> holds P (write_content n a i k src s)"
proof (induction n arbitrary: i src s)
  case (Suc n)
  show ?case unfolding write_content.simps by (intro keeps Suc; assumption)
qed (simp add: keeps)

lemma array_commands [keeps]:
  assumes "P s"
  shows "holds (\<lambda>x. P (snd x)) (array_create ty sz p s)" "holds (\<lambda>x. P (snd x)) (array_size s)"
    "holds (\<lambda>x. P (snd x)) (array_resize p s)" "holds (\<lambda>x. P (snd x)) (array_destroy p s)"
    "holds (\<lambda>x. P (snd x)) (array_fill s)" "holds (\<lambda>x. P (snd x)) (array_copy p s)"
    "holds (\<lambda>x. P (snd x)) (array_read_content p s)" "holds (\<lambda>x. P (snd x)) (array_write_content p s)"
    "holds (\<lambda>x. P (snd x)) (array_read_size p s)"
  unfolding array_create_def array_size_def array_resize_def array_destroy_def array_fill_def array_copy_def
    array_read_content_def array_write_content_def array_read_size_def
  by (intro keeps assms; assumption)+

lemma array_command [keeps]: "P s \<Longrightarrow> holds (\<lambda>x. P (snd x)) (array_command c p s)"
  by (cases c) (simp_all add: keeps)


lemma write_element [keeps]: "P s \<Longrightarrow> holds (\<lambda>x. P (snd x)) (write_element p h i q off n s)"
  unfolding write_element_def by (intro keeps; assumption)

lemma more_elements [keeps]:
  assumes "P s"
  shows "holds (\<lambda>x. P (snd x)) (store_element p h i q s)" "holds (\<lambda>x. P (snd x)) (append_element p h q s)"
  unfolding store_element_def append_element_def by (intro keeps assms; assumption)+

lemma array_codes [keeps]:
  assumes "P s"
  shows "holds P (cMemoryArray s)" "holds P (cMemoryArrayWrite s)" "holds P (cMemoryArrayRead s)"
    "holds P (cMemoryArrayAppend s)"
  unfolding cMemoryArray_def cMemoryArrayWrite_def cMemoryArrayRead_def cMemoryArrayAppend_def
  by (intro keeps assms; assumption)+

text \<open>Information, random numbers and memory access.\<close>

lemma put_bytes [keeps]: "P s \<Longrightarrow> holds P (put_bytes bs p s)"
proof (induction bs arbitrary: p s)
  case (Cons b bs)
  show ?case unfolding put_bytes.simps by (intro keeps Cons; assumption)
qed (simp add: keeps)

lemma snprintf [keeps]: "P s \<Longrightarrow> holds P (snprintf p n t s)"
  unfolding snprintf_def by (intro keeps; assumption)

lemma restart_clock [keeps]: "P s \<Longrightarrow> holds P (restart_clock p s)"
  unfolding restart_clock_def by (intro keeps; assumption)

lemma infos [keeps]:
  assumes "P s"
  shows "holds P (info_obj_stop p s)" "holds P (info_obj_start p s)" "holds P (info_name p s)"
    "holds P (info_error_text s)"
  unfolding info_obj_stop_def info_obj_start_def info_name_def info_error_text_def
  by (intro keeps assms; assumption)+

lemma info_program: "P s \<Longrightarrow> c \<noteq> scSET_INSTR \<Longrightarrow> holds P (info_program c p s)"
  by (cases c) (simp_all only: info_program.simps simp_thms, (intro keeps; assumption)+)

lemma info_command [keeps]: "P s \<Longrightarrow> holds P (info_command c s)"
  unfolding GetVolumePercent_def
  by (cases c) (simp_all only: info_command.simps SetVolumePercent_def SetSleepMinutes_def,
      (intro keeps LogErrorGet; assumption)+)

lemma ram_loops [keeps]:
  assumes "P s"
  shows "holds P (write_ram n i off ram lng a s)" "holds P (read_ram n i off ram lng a s)"
proof -
  show "holds P (write_ram n i off ram lng a s)"
    using assms
  proof (induction n arbitrary: i s)
    case (Suc n)
    show ?case unfolding write_ram.simps by (intro keeps Suc; assumption)
  qed (simp add: keeps)
  show "holds P (read_ram n i off ram lng a s)"
    using assms
  proof (induction n arbitrary: i s)
    case (Suc n)
    show ?case unfolding read_ram.simps by (intro keeps Suc; assumption)
  qed (simp add: keeps)
qed

lemma access_memory [keeps]:
  assumes "\<And>n i off ram lng a s. P s \<Longrightarrow> holds P (body n i off ram lng a s)"
  shows "P s \<Longrightarrow> holds P (access_memory body s)"
  unfolding access_memory_def by (intro keeps assms; assumption)

lemma set_break [keeps]: "P s \<Longrightarrow> holds P (set_break p n a s)"
  unfolding set_break_def by (intro keeps; assumption)

lemma rand [keeps]: "P s \<Longrightarrow> P (snd (rand s))"
  by (simp add: rand_def keeps)

lemma info_codes [keeps]:
  assumes "P s"
  shows "holds P (Info s)" "holds P (BreakSet s)" "holds P (Random s)" "holds P (MemoryWrite s)"
    "holds P (MemoryRead s)" "holds P (PortCnvOutput s)" "holds P (PortCnvInput s)" "holds P (NoteToFreq s)"
  unfolding Info_def BreakSet_def Random_def MemoryWrite_def MemoryRead_def PortCnvOutput_def PortCnvInput_def
    NoteToFreq_def
  by (intro keeps assms; assumption)+

text \<open>All byte codes but \<open>PROGRAM_INFO\<close>, which sets the priority.\<close>

lemma tables [keeps]:
  assumes "P s"
  shows "holds P (cMathAdd ty s)" "holds P (cMathSub ty s)" "holds P (cMathMul ty s)" "holds P (cMathDiv ty s)"
    "holds P (cCompare r ty s)" "holds P (cCompareSelect ty s)" "holds P (cBranchJrCp r ty s)"
    "holds P (cMove ty ty' s)" "holds P (cMoveRead ty s)" "holds P (cMoveWrite ty s)"
  using assms
  by (cases ty; cases ty'; cases r; simp add: keeps)+

lemma logic: "cMathLogic c = Some h \<Longrightarrow> P s \<Longrightarrow> holds P (h s)"
  by (cases c rule: cMathLogic.cases) (auto simp: keeps)

lemma handlers: "handler c = Some h \<Longrightarrow> c \<noteq> opPROGRAM_INFO \<Longrightarrow> P s \<Longrightarrow> holds P (h s)"
  by (cases c rule: handler.cases) (auto simp: keeps intro: logic)

end

subsection \<open>The machine\<close>

locale machine_invariant = code_invariant +
  assumes Priority [keeps]: "P s \<Longrightarrow> P (s\<lparr>Priority := v\<rparr>)"
    and SavedPriority [keeps]: "P s \<Longrightarrow> P (s\<lparr>SavedPriority := v\<rparr>)"
    and InstrCnt [keeps]: "P s \<Longrightarrow> P (s\<lparr>InstrCnt := v\<rparr>)"
    and KeyNo [keeps]: "P s \<Longrightarrow> P (s\<lparr>KeyNo := n\<rparr>)"
    and PressNo [keeps]: "P s \<Longrightarrow> P (s\<lparr>PressNo := n\<rparr>)"
    and NewTime [keeps]: "P s \<Longrightarrow> P (s\<lparr>NewTime := v\<rparr>)"
    and OldTime1 [keeps]: "P s \<Longrightarrow> P (s\<lparr>OldTime1 := v\<rparr>)"
    and OldTime2 [keeps]: "P s \<Longrightarrow> P (s\<lparr>OldTime2 := v\<rparr>)"
    and Test [keeps]: "P s \<Longrightarrow> P (s\<lparr>Test := w\<rparr>)"
    and ProgramId [keeps]: "P s \<Longrightarrow> P (s\<lparr>ProgramId := p\<rparr>)"
    and DispatchStatus [keeps]: "P s \<Longrightarrow> P (s\<lparr>DispatchStatus := st\<rparr>)"
    and pGlobal [keeps]: "P s \<Longrightarrow> P (s\<lparr>pGlobal := v\<rparr>)"
    and pImage [keeps]: "P s \<Longrightarrow> P (s\<lparr>pImage := v\<rparr>)"
    and pObjHead [keeps]: "P s \<Longrightarrow> P (s\<lparr>pObjHead := v\<rparr>)"
    and pObjList [keeps]: "P s \<Longrightarrow> P (s\<lparr>pObjList := v\<rparr>)"
    and Objects [keeps]: "P s \<Longrightarrow> P (s\<lparr>Objects := i\<rparr>)"
begin

lemma ProgramInfo: "P s \<Longrightarrow> holds P (ProgramInfo s)"
proof -
  have "holds P (info_program c p s)" if "P s" for c p s
  proof (cases "c = scSET_INSTR")
    case True
    show ?thesis
      unfolding True info_program.simps SetInstructions_def by (intro keeps that; assumption)
  qed (simp add: info_program that)
  note info = this
  show "P s \<Longrightarrow> holds P (ProgramInfo s)"
    unfolding ProgramInfo_def by (intro keeps info; assumption)
qed

lemma handler_keeps: "handler c = Some h \<Longrightarrow> P s \<Longrightarrow> holds P (h s)"
  using handlers [of c h s] ProgramInfo [of s] by (cases "c = opPROGRAM_INFO") auto

lemma break_enter [keeps]: "P s \<Longrightarrow> holds (\<lambda>x. P (snd (snd x))) (break_enter s)"
  unfolding break_enter_def by (intro keeps; assumption)

lemma contexts [keeps]:
  assumes "P s"
  shows "holds P (ProgramInit s)" "holds P (ProgramExit s)" "holds (\<lambda>x. P (snd x)) (ObjectInit s)"
    "holds P (ObjectExit s)"
  unfolding ProgramInit_def ProgramExit_def ObjectInit_def ObjectExit_def
  by (intro keeps assms; assumption)+

lemma switch_program [keeps]:
  assumes "P s"
  shows "holds P (switch_program s)"
proof (rule holdsI)
  fix t assume "switch_program s = Some t"
  then show "P t"
    using assms
  proof (induction rule: switch_program.raw_induct [rotated, consumes 1, case_names step])
    case (step sw s t)
    have IH: "P u \<Longrightarrow> holds P (sw u)" for u
      using step(1) by (auto simp: holds_def)
    show ?case
      by (rule holdsD [OF _ step(2)]) (intro keeps IH step(3); assumption)
  qed
qed

lemma switch_object [keeps]:
  assumes "P s"
  shows "holds (\<lambda>x. P (snd x)) (switch_object i s)"
proof (rule holdsI)
  fix x assume "switch_object i s = Some x"
  then show "P (snd x)"
    using assms
  proof (induction rule: switch_object.raw_induct [rotated, consumes 1, case_names step])
    case (step sw i s x)
    have IH: "P u \<Longrightarrow> holds (\<lambda>x. P (snd x)) (sw j u)" for j u
      using step(1) by (auto simp: holds_def)
    show ?case
      by (rule holdsD [OF _ step(2)]) (intro keeps IH step(3); assumption)
  qed
qed

lemma execs [keeps]:
  assumes "P s"
  shows "holds (\<lambda>x. P (snd x)) (ProgramExec s)" "holds (\<lambda>x. P (snd x)) (ObjectExec s)"
  unfolding ProgramExec_def ObjectExec_def by (intro keeps assms; assumption)+

lemma device_states [keeps]:
  assumes "P s"
  shows "P (TstClose s)" "P (update_test w s)" "P (snd (long_press s))" "P (snd (cUiEscape s))"
  unfolding TstClose_def update_test_def long_press_def cUiEscape_def Let_def
  by (simp_all add: assms keeps)

lemma slice_ends [keeps]:
  assumes "P s"
  shows "holds P (set_result r s)" "holds (\<lambda>x. P (snd x)) (fail_break b s)" "holds P (instr_break s)"
    "holds (\<lambda>x. P (snd x)) (leave_object s)"
  unfolding set_result_def fail_break_def instr_break_def leave_object_def
  by (intro keeps assms; assumption)+


text \<open>The rest is proved for any other byte codes that keep the property.\<close>

lemma dispatch_keeps:
  assumes others: "\<And>b s. P s \<Longrightarrow> holds P (others b s)" and "P s"
  shows "holds P (dispatch others b s)"
proof (rule holdsI)
  fix t assume "dispatch others b s = Some t"
  then show "P t"
    using assms
  proof (induction rule: dispatch.raw_induct [rotated, consumes 1, case_names step])
    case (step dis others b s t)
    have IH: "holds P (dis others c u)" if "P u" for c u
      by (rule holdsI) (rule step(1) [OF _ step(3) that])
    have code: "holds P (case handler c of None \<Rightarrow> others b s | Some h \<Rightarrow> h s)" for c
      using step(3) [of s b] handler_keeps [of c _ s] step(4) by (auto split: option.split)
    show ?case
      by (rule holdsD [OF _ step(2)]) (intro keeps IH code step(4); assumption)
  qed
qed

lemma execute_keeps:
  assumes others: "\<And>b s. P s \<Longrightarrow> holds P (others b s)" and "P s"
  shows "holds P (execute others s)"
  unfolding execute_def by (intro keeps dispatch_keeps [OF others] assms(2); assumption)

lemma Monitor_keeps:
  assumes others: "\<And>b s. P s \<Longrightarrow> holds P (others b s)" and "P s"
  shows "holds P (Monitor others s)"
  unfolding Monitor_def monitor_step_def by (intro keeps execute_keeps [OF others] assms(2); assumption)

lemma time_slice_keeps:
  assumes others: "\<And>b s. P s \<Longrightarrow> holds P (others b s)" and "P s"
  shows "holds P (time_slice others s)"
proof (rule holdsI)
  fix t assume "time_slice others s = Some t"
  then show "P t"
    using assms
  proof (induction rule: time_slice.raw_induct [rotated, consumes 1, case_names step])
    case (step sl others s t)
    have IH: "holds P (sl others u)" if "P u" for u
      by (rule holdsI) (rule step(1) [OF _ step(3) that])
    show ?case
      by (rule holdsD [OF _ step(2)])
        (intro keeps IH execute_keeps [OF step(3)] Monitor_keeps [OF step(3)] step(4); assumption)
  qed
qed

lemma updates_keep:
  assumes devices: "\<And>e s. P s \<Longrightarrow> holds P (devices e s)" and "P s"
  shows "holds P (updates devices s)" "holds P (stream_updates devices s)"
proof -
  have one: "holds P (call_module devices e u)" if "P u" for e u
    unfolding call_module_def by (intro devices keeps that)
  have fast: "holds P (update_fast devices u)" if "P u" for u
    unfolding update_fast_def by (intro keeps one that; assumption)
  have slow: "holds P (update_slow devices v u)" if "P u" for u v
    unfolding update_slow_def by (intro keeps one that; assumption)
  show "holds P (updates devices s)" "holds P (stream_updates devices s)"
    unfolding updates_def stream_updates_def by (intro keeps fast slow assms(2); assumption)+
qed

lemma mSchedCtrl_keeps:
  assumes others: "\<And>b s. P s \<Longrightarrow> holds P (others b s)" and devices: "\<And>e s. P s \<Longrightarrow> holds P (devices e s)" and "P s"
  shows "holds (\<lambda>x. P (snd (snd x))) (mSchedCtrl others devices r s)"
  unfolding mSchedCtrl_def
  by (intro keeps time_slice_keeps [OF others] updates_keep [OF devices] assms(3); assumption)

lemma run_codes_keeps:
  assumes others: "\<And>b s. P s \<Longrightarrow> holds P (others b s)" and "P s"
  shows "holds P (run_codes others s)"
proof (rule holdsI)
  fix t assume "run_codes others s = Some t"
  then show "P t"
    using assms
  proof (induction rule: run_codes.raw_induct [rotated, consumes 1, case_names step])
    case (step run others s t)
    have IH: "holds P (run others u)" if "P u" for u
      by (rule holdsI) (rule step(1) [OF _ step(3) that])
    show ?case
      by (rule holdsD [OF _ step(2)]) (intro keeps IH execute_keeps [OF step(3)] step(4); assumption)
  qed
qed

lemma run_stream_keeps:
  assumes others: "\<And>b s. P s \<Longrightarrow> holds P (others b s)" and devices: "\<And>e s. P s \<Longrightarrow> holds P (devices e s)" and "P s"
  shows "holds P (run_stream others devices s)"
proof (rule holdsI)
  fix t assume "run_stream others devices s = Some t"
  then show "P t"
    using assms
  proof (induction rule: run_stream.raw_induct [rotated, consumes 1, case_names step])
    case (step run others devices s t)
    have IH: "holds P (run others devices u)" if "P u" for u
      by (rule holdsI) (rule step(1) [OF _ step(3,4) that])
    show ?case
      by (rule holdsD [OF _ step(2)])
        (intro keeps IH run_codes_keeps [OF step(3)] updates_keep [OF step(4)] step(5); assumption)
  qed
qed

end

subsection \<open>What the other modules may do\<close>

text \<open>The modules that are not modelled reach the machine through the functions \<open>lms2012.c\<close> and
  \<open>c_memory.c\<close> export, and through the pointers these give them. The relation lists what a call of them
  can amount to: stores into mapped memory, the functions of the interface one after the other, and
  byte code streams run with handlers and updates that behave likewise. (A module whose
  byte codes nest in themselves is covered level by level: each level runs with the level below
  as its handlers.) Blocks of the C heap that no pool owns are the modules' own.\<close>

definition own_block :: "vm \<Rightarrow> ULONG \<Rightarrow> bool" where
  "own_block s a \<longleftrightarrow> a = 0 \<or> (\<forall>p h. pool s p h \<noteq> a)"

inductive acts :: "vm \<Rightarrow> vm \<Rightarrow> bool" where
  nothing: "acts s s"
| chain: "acts s t \<Longrightarrow> acts t v \<Longrightarrow> acts s v"
| stores: "dom m = dom (mem s) \<Longrightarrow> acts s (s\<lparr>mem := m\<rparr>)"
| objects: "acts s (s\<lparr>ObjHeap := obs\<rparr>)"
| parameter: "PrimParPointer s = Some (p, t) \<Longrightarrow> acts s t"
| status: "acts s (SetDispatchStatus st s)"
| set_ip: "acts s (SetObjectIp a s)"
| adjust_ip: "acts s (AdjustObjectIp a s)"
| instructions: "acts s (SetInstructions n s)"
| log_error: "acts s (LogErrorNumber e s)"
| get_error: "acts s (snd (LogErrorGet s))"
| resize: "VmMemoryResize h n s = Some (a, t) \<Longrightarrow> acts s t"
| pool_alloc: "cMemoryAlloc p ty n s = Some (r, h, t) \<Longrightarrow> acts s t"
| pool_reallocate: "cMemoryReallocate p h n s = Some (a, t) \<Longrightarrow> acts s t"
| pool_free: "cMemoryFreeHandle p h s = Some (r, t) \<Longrightarrow> acts s t"
| block_realloc: "own_block s a \<Longrightarrow> 0 < n \<Longrightarrow> cMemoryRealloc a n s = Some (r, b, t) \<Longrightarrow> acts s t"
| block_free: "own_block s a \<Longrightarrow> cMemoryFree a s = Some t \<Longrightarrow> acts s t"
| paths: "acts s (s\<lparr>PathList := pl\<rparr>)"
| ends: "ProgramEnd p s = Some t \<Longrightarrow> acts s t"
| resets: "ProgramReset p i g d s = Some (r, t) \<Longrightarrow> acts s t"
| clock_ms: "acts s (snd (cTimerGetmS s))"
| clock_us: "acts s (snd (cTimerGetuS s))"
| random: "acts s (snd (rand s))"
| key: "acts s (snd (cUiEscape s))"
| volume: "acts s (SetVolumePercent b s)"
| sleep: "acts s (SetSleepMinutes b s)"
| test_mode: "acts s (s\<lparr>Test := w\<rparr>)"
| note_event: "acts s (s\<lparr>Trace := es\<rparr>)"
| stream: "ExecuteByteCode oth dev a g l s = Some (st, t) \<Longrightarrow>
    (\<forall>b v w. oth b v = Some w \<longrightarrow> acts v w) \<Longrightarrow> (\<forall>e v w. dev e v = Some w \<longrightarrow> acts v w) \<Longrightarrow> acts s t"

text \<open>An invariant that survives the modules' own blocks and the save area of byte code streams
  survives everything the modules do, and a round of the scheduler with such modules.\<close>

locale module_invariant = machine_invariant +
  assumes own_realloc: "P s \<Longrightarrow> own_block s a \<Longrightarrow> 0 < n \<Longrightarrow> holds (\<lambda>x. P (snd (snd x))) (cMemoryRealloc a n s)"
    and own_free: "P s \<Longrightarrow> own_block s a \<Longrightarrow> holds P (cMemoryFree a s)"
    and save_area [keeps]: "P s \<Longrightarrow> P (s\<lparr>ObjIpSave := a, ObjGlobalSave := g, ObjLocalSave := l,
      DispatchStatusSave := st, PrioritySave := n\<rparr>)"
begin

lemma ExecuteByteCode_keeps:
  assumes others: "\<And>b s. P s \<Longrightarrow> holds P (others b s)" and devices: "\<And>e s. P s \<Longrightarrow> holds P (devices e s)" and "P s"
  shows "holds (\<lambda>x. P (snd x)) (ExecuteByteCode others devices a g l s)"
  unfolding ExecuteByteCode_def
  by (intro keeps run_stream_keeps [OF others devices] assms(3); assumption)

lemma acts_keeps: "acts s t \<Longrightarrow> P s \<Longrightarrow> P t"
proof (induction rule: acts.induct)
  case (stream oth dev a g l s st t)
  have "holds (\<lambda>x. P (snd x)) (ExecuteByteCode oth dev a g l s)"
    by (rule ExecuteByteCode_keeps) (use stream.IH stream.prems in \<open>auto simp: holds_def\<close>)
  with stream.hyps show ?case by (auto simp: holds_def)
next
  case (parameter s p t)
  then show ?case using PrimParPointer [of s] by (simp add: holds_def)
next
  case (resize h n s a t)
  then show ?case using VmMemoryResize [of s h n] by (simp add: holds_def)
next
  case (pool_alloc p ty n s r h t)
  then show ?case using alloc [of s p ty n] by (simp add: holds_def)
next
  case (pool_reallocate p h n s a t)
  then show ?case using reallocate [of s p h n] by (simp add: holds_def)
next
  case (pool_free p h s r t)
  then show ?case using free_handle [of s p h] by (simp add: holds_def)
next
  case (block_realloc s a n r b t)
  then show ?case using own_realloc [of s a n] by (simp add: holds_def)
next
  case (block_free s a t)
  then show ?case using own_free [of s a] by (simp add: holds_def)
next
  case (ends p s t)
  then show ?case using ProgramEnd [of s p] by (simp add: holds_def)
next
  case (resets p i g d s r t)
  then show ?case using ProgramReset [of s p i g d] by (simp add: holds_def)
qed (simp_all add: keeps mapped LogErrorGet SetInstructions_def SetVolumePercent_def SetSleepMinutes_def)

lemma round_keeps:
  assumes "\<And>b s t. others b s = Some t \<Longrightarrow> acts s t" and "\<And>e s t. devices e s = Some t \<Longrightarrow> acts s t" and "P s"
  shows "holds (\<lambda>x. P (snd (snd x))) (mSchedCtrl others devices r s)"
  by (rule mSchedCtrl_keeps) (auto simp: holds_def assms(3) dest: assms(1,2) intro: acts_keeps)

end

subsection \<open>What the memory operations leave alone\<close>

definition outside :: "vm \<Rightarrow> bytecodes \<times> validator \<times> (PRGID \<rightharpoonup> PRG) \<times> ULONG \<times> UBYTE \<times> UBYTE \<times>
    ULONG \<times> ULONG \<times> ULONG \<times> DSPSTAT \<times> ULONG" where
  "outside s = (Consts s, Validate s, Program s, Priority s, ErrorIn s, ErrorOut s,
     ObjIpSave s, ObjGlobalSave s, ObjLocalSave s, DispatchStatusSave s, PrioritySave s)"

lemma outside_updates [simp]:
  "outside (s\<lparr>mem := m\<rparr>) = outside s" "outside (s\<lparr>Blocks := bl\<rparr>) = outside s"
  "outside (s\<lparr>AllocNo := n\<rparr>) = outside s" "outside (s\<lparr>ClosedFiles := fs\<rparr>) = outside s"
  "outside (set_pool p h f s) = outside s" "outside (unmap_block a k s) = outside s"
  "outside (map_block a k g s) = outside s" "outside (s\<lparr>Value := v\<rparr>) = outside s"
  by (simp_all add: outside_def set_pool_def unmap_block_def map_block_def)

lemma outside_free: "free a s = Some t \<Longrightarrow> outside t = outside s"
  by (auto simp: free_def split: if_splits option.splits)

lemma outside_realloc: "cMemoryRealloc a n s = Some (r, p, t) \<Longrightarrow> outside t = outside s"
  by (auto simp: cMemoryRealloc_def realloc_def bind_conv Let_def dest: outside_free split: if_splits)

lemma outside_alloc: "cMemoryAlloc p ty n s = Some (r, h, t) \<Longrightarrow> outside t = outside s"
  by (auto simp: cMemoryAlloc_def bind_conv Let_def dest: outside_realloc split: if_splits)

lemma outside_reallocate: "cMemoryReallocate p h n s = Some (r, t) \<Longrightarrow> outside t = outside s"
  by (auto simp: cMemoryReallocate_def bind_conv Let_def dest: outside_realloc split: if_splits)

lemma outside_store: "storing st \<Longrightarrow> st s p x = Some t \<Longrightarrow> outside t = outside s"
  unfolding storing_def by fastforce

lemma outside_release_file: "release_file a s = Some (r, t) \<Longrightarrow> outside t = outside s"
  by (auto simp: release_file_def bind_conv split: if_splits)

lemma outside_free_handle: "cMemoryFreeHandle p h s = Some (r, t) \<Longrightarrow> outside t = outside s"
  by (auto simp: FreeHandle_eq cMemoryFree_def bind_conv dest!: outside_free outside_release_file split: if_splits)

text \<open>A property of these fields is kept by the memory operations.\<close>

lemma outside_keeps:
  assumes "\<And>s t. outside t = outside s \<Longrightarrow> P s \<Longrightarrow> P t" and "P s"
  shows "holds (\<lambda>x. P (snd (snd x))) (cMemoryAlloc p ty sz s)" "holds (\<lambda>x. P (snd x)) (cMemoryReallocate p h sz s)"
    "holds (\<lambda>x. P (snd x)) (cMemoryFreeHandle p h s)"
  by (rule holdsI, use assms outside_alloc outside_reallocate outside_free_handle in \<open>auto\<close>)+

lemma validate_cases:
  assumes "cValidateProgram p a s = Some (r, t)"
  obtains Q L m where "Program s p = Some Q" "Validate s (mem s) a (prg_Label Q) = Some (r, L, m)"
    "t = s\<lparr>mem := m, Program := (Program s)(p \<mapsto> Q\<lparr>prg_Label := L\<rparr>)\<rparr>"
  using assms by (auto simp: cValidateProgram_def upd_prg_def bind_conv)

subsection \<open>The pools\<close>

text \<open>A validator may not map or unmap memory; it may change the image's bytes.\<close>

definition validator_ok :: "validator \<Rightarrow> bool" where
  "validator_ok v \<longleftrightarrow> (\<forall>m a L r L' m'. v m a L = Some (r, L', m') \<longrightarrow> dom m' = dom m)"

definition pools_fine :: "vm \<Rightarrow> bool" where
  "pools_fine s \<longleftrightarrow> pool_ok s \<and> validator_ok (Validate s)"

lemma pools_fine_cong:
  assumes "pools_fine s" and "dom (mem t) = dom (mem s)" "Blocks t = Blocks s" "pPoolList t = pPoolList s"
    "Consts t = Consts s" "Validate t = Validate s"
  shows "pools_fine t"
  using assms by (simp add: pools_fine_def pool_ok_def heap_ok_def pool_def MAX_PROGRAMS_def)

lemma outside_fine: "outside t = outside s \<Longrightarrow> pool_ok t \<Longrightarrow> pools_fine s \<Longrightarrow> pools_fine t"
  by (simp add: pools_fine_def outside_def)

lemma reallocate_pool_ok:
  assumes ok: "pool_ok s" and run: "cMemoryReallocate p h n s = Some (a, t)"
  shows "pool_ok t"
proof (cases "p < MAX_PROGRAMS s \<and> handle_ok h")
  case True
  with ok have "pool_ok s" "p < MAX_PROGRAMS s" "handle_ok h" by simp_all
  then show ?thesis by (cases rule: reallocate_cases [of s p h n]) (use run in auto)
next
  case False
  then show ?thesis using ok run by (auto simp: cMemoryReallocate_def)
qed

lemma alloc_pool_ok: "pool_ok s \<Longrightarrow> cMemoryAlloc p ty n s = Some (r, h, t) \<Longrightarrow> pool_ok t"
  using pools.alloc_total [of s p ty n] by auto

lemma own_realloc_ok:
  assumes ok: "pool_ok s" and own: "own_block s a" and n: "0 < n" and run: "cMemoryRealloc a n s = Some (r, b, t)"
  shows "pool_ok t"
proof -
  have "a = 0 \<or> Blocks s a \<noteq> None"
    using run by (auto simp: cMemoryRealloc_def realloc_def free_def bind_conv split: if_splits option.splits)
  with pool_ok_heap [OF ok] show ?thesis
    using n
  proof (cases rule: cMemoryRealloc_cases)
    case (moved c v)
    have "pPoolList v = pPoolList s" "Consts v = Consts s" by (subst moved(6), simp)+
    then have t: "t = v" "heap_ok t" "pPoolList t = pPoolList s" "Consts t = Consts s"
      using run moved(1,3) by simp_all
    have keep: "Blocks t (pool s p h) = Blocks s (pool s p h)" if "pool s p h \<noteq> 0" for p h
    proof -
      have "pool s p h \<noteq> a" using own that by (auto simp: own_block_def)
      moreover have "Blocks s (pool s p h) \<noteq> None" using pool_okD(3) [OF ok that] by simp
      ultimately show ?thesis using moved(4,5) t(1) by (auto split: if_splits)
    qed
    show ?thesis
      using ok t keep unfolding pool_ok_def by (simp add: pool_def MAX_PROGRAMS_def)
  next
    case failed
    with run have "t = s\<lparr>AllocNo := Suc (AllocNo s)\<rparr>" by simp
    then show ?thesis using pool_ok_frame [OF ok, of t] by simp
  qed
qed

lemma own_free_ok:
  assumes ok: "pool_ok s" and own: "own_block s a" and run: "cMemoryFree a s = Some t"
  shows "pool_ok t"
proof (cases "a = 0")
  case True
  then show ?thesis using ok run by (simp add: cMemoryFree_def free_def)
next
  case False
  then obtain n where n: "Blocks s a = Some n" "t = unmap_block a n s"
    using run by (auto simp: cMemoryFree_def free_def split: option.splits)
  have "heap_ok t" unfolding n(2) by (rule heap_ok_unmap [OF pool_ok_heap [OF ok] n(1)])
  moreover have "pool s p h \<noteq> a" for p h using own False by (auto simp: own_block_def)
  ultimately show ?thesis
    using ok unfolding n(2) pool_ok_def by (simp add: pool_def MAX_PROGRAMS_def unmap_block_def)
qed

interpretation pool_inv: module_invariant pools_fine
proof unfold_locales
  fix s p ty sz h m a
  assume s: "pools_fine s"
  then have ok: "pool_ok s" by (simp add: pools_fine_def)
  show "holds (\<lambda>x. pools_fine (snd (snd x))) (cMemoryAlloc p ty sz s)"
    by (rule holdsI) (use s ok alloc_pool_ok outside_alloc outside_fine in force)
  show "holds (\<lambda>x. pools_fine (snd x)) (cMemoryReallocate p h sz s)"
    by (rule holdsI) (use s ok reallocate_pool_ok outside_reallocate outside_fine in force)
  show "holds (\<lambda>x. pools_fine (snd x)) (cMemoryFreeHandle p h s)"
    by (rule holdsI) (use s ok free_handle_ok(1) outside_free_handle outside_fine in force)
  show "holds (\<lambda>x. pools_fine (snd x)) (cValidateProgram p a s)"
  proof (rule holdsI)
    fix x assume "cValidateProgram p a s = Some x"
    then obtain r t where x: "x = (r, t)" "cValidateProgram p a s = Some (r, t)" by (cases x) auto
    from x(2) show "pools_fine (snd x)"
    proof (cases rule: validate_cases)
      case (1 Q L m)
      then have "dom m = dom (mem s)" using s by (auto simp: pools_fine_def validator_ok_def)
      then show ?thesis unfolding x(1) snd_conv 1(3) by (intro pools_fine_cong [OF s]) simp_all
    qed
  qed
  show "pools_fine (LogErrorNumber e s)" "pools_fine (snd (LogErrorGet s))" "pools_fine (SetDispatchStatus st s)" for e st
    by (rule pools_fine_cong [OF s]; simp add: LogErrorNumber_def LogErrorGet_def SetDispatchStatus_def Let_def)+
  show "holds (\<lambda>x. pools_fine (snd (snd x))) (cMemoryRealloc a n s)" if "own_block s a" "0 < n" for n
    by (rule holdsI) (use s ok that own_realloc_ok outside_realloc outside_fine in force)
  show "holds pools_fine (cMemoryFree a s)" if "own_block s a"
    by (rule holdsI) (use s ok that own_free_ok outside_free outside_fine in \<open>force simp: cMemoryFree_def\<close>)
qed (erule pools_fine_cong; simp)+

subsection \<open>The types of the state\<close>

text \<open>The indices of the error log stay inside its buffer, no program slot appears or
  disappears, and the numbers of byte codes are constants.\<close>

definition typed :: "bytecodes \<Rightarrow> PRGID set \<Rightarrow> vm \<Rightarrow> bool" where
  "typed C D s \<longleftrightarrow> log_ok s \<and> Consts s = C \<and> dom (Program s) = D"

lemma typed_outside: "outside t = outside s \<Longrightarrow> typed C D s \<Longrightarrow> typed C D t"
  by (simp add: typed_def outside_def log_ok_def)

lemma typed_cong:
  "typed C D s \<Longrightarrow> log_ok s \<longrightarrow> log_ok t \<Longrightarrow> Consts t = Consts s \<Longrightarrow> dom (Program t) = dom (Program s) \<Longrightarrow> typed C D t"
  by (simp add: typed_def)

lemma log_ok_cong: "ErrorIn t = ErrorIn s \<Longrightarrow> ErrorOut t = ErrorOut s \<Longrightarrow> log_ok s \<longrightarrow> log_ok t"
  by (simp add: log_ok_def)

lemma validate_keeps:
  assumes "\<And>m L Q. Program s p = Some Q \<Longrightarrow> P (s\<lparr>mem := m, Program := (Program s)(p \<mapsto> Q\<lparr>prg_Label := L\<rparr>)\<rparr>)"
  shows "holds (\<lambda>x. P (snd x)) (cValidateProgram p a s)"
proof (rule holdsI)
  fix x assume "cValidateProgram p a s = Some x"
  then obtain r t where x: "x = (r, t)" "cValidateProgram p a s = Some (r, t)" by (cases x) auto
  from x(2) show "P (snd x)" by (cases rule: validate_cases) (simp add: x(1) assms)
qed

interpretation type_inv: module_invariant "typed C D" for C D
proof unfold_locales
  fix s p ty sz h m a
  assume s: "typed C D s"
  show "holds (\<lambda>x. typed C D (snd (snd x))) (cMemoryAlloc p ty sz s)"
    "holds (\<lambda>x. typed C D (snd x)) (cMemoryReallocate p h sz s)"
    "holds (\<lambda>x. typed C D (snd x)) (cMemoryFreeHandle p h s)"
    by (rule outside_keeps [where P = "typed C D", OF typed_outside s]; assumption)+
  show "holds (\<lambda>x. typed C D (snd x)) (cValidateProgram p a s)"
    by (rule validate_keeps) (rule typed_cong [OF s log_ok_cong], auto)
  show "typed C D (LogErrorNumber e s)" "typed C D (snd (LogErrorGet s))" for e
    using s next_index_less by (auto simp: typed_def log_ok_def LogErrorNumber_def LogErrorGet_def Let_def)
  show "typed C D (SetDispatchStatus st s)" for st
    by (rule typed_cong [OF s log_ok_cong]; simp add: SetDispatchStatus_def Let_def)
  show "Program s p \<noteq> None \<Longrightarrow> typed C D (s\<lparr>Program := (Program s)(p \<mapsto> Q)\<rparr>)" for Q
    by (rule typed_cong [OF s log_ok_cong]) auto
  show "holds (\<lambda>x. typed C D (snd (snd x))) (cMemoryRealloc a n s)" for n
    by (rule holdsI) (use s outside_realloc typed_outside in force)
  show "holds (typed C D) (cMemoryFree a s)"
    by (rule holdsI) (use s outside_free typed_outside in \<open>force simp: cMemoryFree_def\<close>)
qed (erule typed_cong, rule log_ok_cong; simp)+

subsection \<open>The saved registers\<close>

text \<open>Only \<open>ExecuteByteCode\<close> writes the registers it saves.\<close>

definition saved :: "vm \<Rightarrow> ULONG \<times> ULONG \<times> ULONG \<times> DSPSTAT \<times> ULONG" where
  "saved s = (ObjIpSave s, ObjGlobalSave s, ObjLocalSave s, DispatchStatusSave s, PrioritySave s)"

interpretation save_inv: machine_invariant "\<lambda>s. saved s = v" for v
proof unfold_locales
  fix s p ty sz h m a
  assume s: "saved s = v"
  have out: "outside t = outside s' \<Longrightarrow> saved s' = v \<Longrightarrow> saved t = v" for s' t
    by (simp add: outside_def saved_def)
  show "holds (\<lambda>x. saved (snd (snd x)) = v) (cMemoryAlloc p ty sz s)"
    "holds (\<lambda>x. saved (snd x) = v) (cMemoryReallocate p h sz s)"
    "holds (\<lambda>x. saved (snd x) = v) (cMemoryFreeHandle p h s)"
    by (rule outside_keeps [where P = "\<lambda>t. saved t = v", OF out s]; assumption)+
  show "holds (\<lambda>x. saved (snd x) = v) (cValidateProgram p a s)"
    by (rule validate_keeps) (use s in \<open>simp add: saved_def\<close>)
  show "saved (LogErrorNumber e s) = v" "saved (snd (LogErrorGet s)) = v" "saved (SetDispatchStatus st s) = v" for e st
    using s by (simp_all add: saved_def LogErrorNumber_def LogErrorGet_def SetDispatchStatus_def Let_def)
qed (simp_all add: saved_def)

subsection \<open>The priority\<close>

interpretation priority_inv: code_invariant "\<lambda>s :: vm. Priority s \<le> n" for n
proof unfold_locales
  fix s :: vm and p ty sz h a
  assume s: "Priority s \<le> n"
  have out: "outside t = outside s' \<Longrightarrow> Priority s' \<le> n \<Longrightarrow> Priority t \<le> n" for s' t :: vm
    by (simp add: outside_def)
  show "holds (\<lambda>x. Priority (snd (snd x)) \<le> n) (cMemoryAlloc p ty sz s)"
    "holds (\<lambda>x. Priority (snd x) \<le> n) (cMemoryReallocate p h sz s)"
    "holds (\<lambda>x. Priority (snd x) \<le> n) (cMemoryFreeHandle p h s)"
    by (rule outside_keeps [where P = "\<lambda>t :: vm. Priority t \<le> n", OF out s]; assumption)+
  show "holds (\<lambda>x. Priority (snd x) \<le> n) (cValidateProgram p a s)"
    by (rule validate_keeps) (use s in simp)
  show "Priority (LogErrorNumber e s) \<le> n" "Priority (snd (LogErrorGet s)) \<le> n"
    "Priority (SetDispatchStatus st s) \<le> n" for e st
    using s by (simp_all add: LogErrorNumber_def LogErrorGet_def SetDispatchStatus_def Let_def)
qed simp_all

end
