(* ===== verification/VM_Sched.thy ===== *)
theory VM_Sched
  imports VM_Invariant
begin

text \<open>
  Properties of the machine as a whole: a round of the scheduler (\<open>mSchedCtrl\<close>), a time slice
  and a byte code stream (\<open>ExecuteByteCode\<close>). The invariants rest on the interpretations of
  \<open>VM_Invariant\<close>, the choice of the next object and program on \<open>VM_Objects\<close>.
\<close>

subsection \<open>A time slice is bounded\<close>

text \<open>The next byte code is one of the modelled ones, neither a break point nor
  \<open>PROGRAM_INFO\<close>, which may set the priority, and the monitor is off.\<close>

definition plain_code :: "vm \<Rightarrow> bool" where
  "plain_code s \<longleftrightarrow> Debug s = 0 \<and>
     (case mem s (ObjectIp s) of
        None \<Rightarrow> False
      | Some b \<Rightarrow> (let c = opcode (Consts s) b in \<not> is_break c \<and> c \<noteq> opPROGRAM_INFO \<and>
          (case handler c of None \<Rightarrow> False | Some h \<Rightarrow> True)))"

text \<open>At most \<open>n\<close> of them.\<close>

fun run_slice :: "(UBYTE \<Rightarrow> vm \<Rightarrow> vm option) \<Rightarrow> nat \<Rightarrow> vm \<Rightarrow> vm option" where
  "run_slice others 0 s = Some s"
| "run_slice others (Suc n) s =
     (if Priority s = 0 \<or> \<not> plain_code s then Some s
      else do {
        s \<leftarrow> execute others (s\<lparr>Priority := Priority s - 1\<rparr>);
        run_slice others n (s\<lparr>InstrCnt := InstrCnt s + 1\<rparr>)
      })"

lemma plain_code_cong:
  "Debug t = Debug s \<Longrightarrow> mem t = mem s \<Longrightarrow> ObjectIp t = ObjectIp s \<Longrightarrow> Consts t = Consts s \<Longrightarrow> plain_code t \<longleftrightarrow> plain_code s"
  by (simp add: plain_code_def cong: option.case_cong)

lemma execute_plain:
  assumes "plain_code s" and "execute others s = Some t"
  shows "Priority t \<le> Priority s"
proof -
  obtain b h where b: "mem s (ObjectIp s) = Some b" "\<not> is_break (opcode (Consts s) b)"
      "opcode (Consts s) b \<noteq> opPROGRAM_INFO" "handler (opcode (Consts s) b) = Some h"
    using assms(1) by (auto simp: plain_code_def Let_def split: option.splits)
  then have "h (s\<lparr>ObjectIp := ObjectIp s + 1\<rparr>) = Some t"
    using assms(2) by (simp add: execute_def fetch_def dispatch.simps)
  then show ?thesis
    using priority_inv.handlers [OF b(4,3), of "s\<lparr>ObjectIp := ObjectIp s + 1\<rparr>" "Priority s"]
    by (simp add: holds_def)
qed

lemma run_slice_ends:
  "unat (Priority s) \<le> n \<Longrightarrow> run_slice others n s = Some t \<Longrightarrow> Priority t = 0 \<or> \<not> plain_code t"
proof (induction n arbitrary: s)
  case 0
  then show ?case by (simp add: unat_eq_0)
next
  case (Suc n)
  show ?case
  proof (cases "Priority s = 0 \<or> \<not> plain_code s")
    case False
    let ?s = "s\<lparr>Priority := Priority s - 1\<rparr>"
    from False Suc.prems(2) obtain w where
      w: "execute others ?s = Some w" "run_slice others n (w\<lparr>InstrCnt := InstrCnt w + 1\<rparr>) = Some t"
      by (auto simp: bind_conv)
    have "plain_code ?s" using False plain_code_cong [of s ?s] by simp
    from execute_plain [OF this w(1)] have "Priority w \<le> Priority s - 1" by simp
    moreover have "unat (Priority s - 1) = unat (Priority s) - 1"
      using False by (simp add: unat_minus_one)
    ultimately have "unat (Priority (w\<lparr>InstrCnt := InstrCnt w + 1\<rparr>)) \<le> n"
      using Suc.prems(1) by (simp add: word_le_nat_alt)
    from Suc.IH [OF this w(2)] show ?thesis .
  qed (use Suc.prems in auto)
qed

lemma time_slice_run:
  "time_slice others s = Option.bind (run_slice others n s) (time_slice others)"
proof (induction n arbitrary: s)
  case (Suc n)
  show ?case
  proof (cases "Priority s = 0 \<or> \<not> plain_code s")
    case False
    then have "Debug s = 0" by (auto simp: plain_code_def)
    with False have "time_slice others s = do {
        w \<leftarrow> execute others (s\<lparr>Priority := Priority s - 1\<rparr>);
        time_slice others (w\<lparr>InstrCnt := InstrCnt w + 1\<rparr>) }"
      by (subst time_slice.simps) simp
    with False show ?thesis
      by (simp add: Suc.IH [symmetric] bind_conv cong: bind_cong_Some)
  qed simp
qed simp

text \<open>A run that does not return has stopped at a byte code that is undefined.\<close>

lemma run_slice_None:
  "run_slice others n s = None \<Longrightarrow> \<exists>k < n. \<exists>t. run_slice others k s = Some t \<and> Priority t \<noteq> 0 \<and> plain_code t \<and>
    execute others (t\<lparr>Priority := Priority t - 1\<rparr>) = None"
proof (induction n arbitrary: s)
  case (Suc n)
  then have s: "Priority s \<noteq> 0" "plain_code s" by (auto split: if_splits)
  show ?case
  proof (cases "execute others (s\<lparr>Priority := Priority s - 1\<rparr>)")
    case None
    with s show ?thesis by (intro exI [of _ 0]) simp
  next
    case (Some w)
    with Suc.prems s have "run_slice others n (w\<lparr>InstrCnt := InstrCnt w + 1\<rparr>) = None" by simp
    from Suc.IH [OF this] obtain k t where "k < n" "run_slice others k (w\<lparr>InstrCnt := InstrCnt w + 1\<rparr>) = Some t"
        "Priority t \<noteq> 0" "plain_code t" "execute others (t\<lparr>Priority := Priority t - 1\<rparr>) = None" by blast
    with s Some show ?thesis by (intro exI [of _ "Suc k"]) simp
  qed
qed simp

text \<open>C5: let a time slice start with \<open>n\<close> byte codes to go, and follow it for at most \<open>n\<close>
  byte codes while the monitor is off and the byte code to come is a modelled one other than a break
  point and \<open>PROGRAM_INFO\<close>. Then either the slice is over, or the slice goes on from a state with time
  left in which the byte code to come is not of that kind (\<open>PROGRAM_INFO\<close> may set the
  priority anew), or one of these byte codes is undefined. So a loop of such byte
  codes alone does not keep the machine from the other programs.\<close>

theorem slice_bounded:
  "(\<exists>t. run_slice others (unat (Priority s)) s = Some t \<and> Priority t = 0 \<and> time_slice others s = Some t) \<or>
   (\<exists>t. run_slice others (unat (Priority s)) s = Some t \<and> Priority t \<noteq> 0 \<and> \<not> plain_code t \<and>
      time_slice others s = time_slice others t) \<or>
   (\<exists>k < unat (Priority s). \<exists>t. run_slice others k s = Some t \<and> Priority t \<noteq> 0 \<and> plain_code t \<and>
      execute others (t\<lparr>Priority := Priority t - 1\<rparr>) = None \<and> time_slice others s = None)"
proof (cases "run_slice others (unat (Priority s)) s")
  case None
  then show ?thesis
    using run_slice_None [OF None] time_slice_run [of others s "unat (Priority s)"] by fastforce
next
  case (Some t)
  then have "time_slice others s = time_slice others t"
    using time_slice_run [of others s "unat (Priority s)"] by simp
  moreover have "Priority t = 0 \<Longrightarrow> time_slice others t = Some t" by (simp add: time_slice.simps)
  ultimately show ?thesis
    using Some run_slice_ends [OF order_refl Some] by (cases "Priority t = 0") auto
qed

subsection \<open>Invariants of a round\<close>



subsection \<open>Byte code streams\<close>

text \<open>Handlers that are undefined where those of \<open>f\<close> change the save area, which only
  \<open>ExecuteByteCode\<close> does.\<close>

definition calm :: "('a \<Rightarrow> vm \<Rightarrow> vm option) \<Rightarrow> 'a \<Rightarrow> vm \<Rightarrow> vm option" where
  "calm f x s = (case f x s of None \<Rightarrow> None | Some t \<Rightarrow> if saved t = saved s then Some t else None)"

lemma calm_saved: "saved s = v \<Longrightarrow> holds (\<lambda>t. saved t = v) (calm f x s)"
  by (simp add: calm_def holds_def split: option.split)

text \<open>More handlers give the same results where there were results.\<close>

definition extends :: "('a \<Rightarrow> vm \<Rightarrow> vm option) \<Rightarrow> ('a \<Rightarrow> vm \<Rightarrow> vm option) \<Rightarrow> bool" where
  "extends f g \<longleftrightarrow> (\<forall>x s t. f x s = Some t \<longrightarrow> g x s = Some t)"

lemma extends_calm: "extends (calm f) f"
  by (auto simp: extends_def calm_def split: option.splits if_splits)

lemma extends_dispatch: "dispatch f b s = Some t \<Longrightarrow> extends f g \<Longrightarrow> dispatch g b s = Some t"
proof (induction rule: dispatch.raw_induct [rotated, consumes 1, case_names step])
  case (step dis f b s t)
  show ?case
  proof (cases "is_break (opcode (Consts s) b)")
    case True
    with step(2) obtain a n u c v w where
      "break_enter s = Some (a, n, u)" "fetch u = Some (c, v)" "dis f c v = Some w" "store8 w (PtrMem a) n = Some t"
      by (auto simp: bind_conv)
    moreover from this(3) have "dispatch g c v = Some w" by (rule step(1) [OF _ step(3)])
    ultimately show ?thesis using True by (subst dispatch.simps) simp
  next
    case False
    then show ?thesis
      using step(2,3) by (subst dispatch.simps) (auto simp: extends_def split: option.splits)
  qed
qed

lemma extends_run_codes: "run_codes f s = Some t \<Longrightarrow> extends f g \<Longrightarrow> run_codes g s = Some t"
proof (induction rule: run_codes.raw_induct [rotated, consumes 1, case_names step])
  case (step run f s t)
  show ?case
  proof (cases "Priority s = 0 \<or> at_end s = Some True")
    case True
    then have "t = s" using step(2) by (auto split: if_splits)
    then show ?thesis using True by (subst run_codes.simps) auto
  next
    case False
    then obtain b u v where more: "at_end s = Some False"
      and u: "fetch (s\<lparr>Priority := Priority s - 1\<rparr>) = Some (b, u)" "dispatch f b u = Some v" "run f v = Some t"
      using step(2) by (auto simp: bind_conv execute_def split: if_splits)
    have "dispatch g b u = Some v" by (rule extends_dispatch [OF u(2) step(3)])
    moreover have "run_codes g v = Some t" by (rule step(1) [OF u(3) step(3)])
    ultimately show ?thesis using False more u(1) by (subst run_codes.simps) (simp add: execute_def)
  qed
qed

lemma extends_updates: "stream_updates f s = Some t \<Longrightarrow> extends f g \<Longrightarrow> stream_updates g s = Some t"
  by (auto simp: stream_updates_def update_fast_def update_slow_def call_module_def extends_def bind_conv Let_def
      split: if_splits prod.splits)

lemma extends_run_stream:
  "run_stream f d s = Some t \<Longrightarrow> extends f g \<Longrightarrow> extends d e \<Longrightarrow> run_stream g e s = Some t"
proof (induction rule: run_stream.raw_induct [rotated, consumes 1, case_names step])
  case (step run f d s t)
  obtain pressed u where p: "long_press s = (pressed, u)" by fastforce
  show ?case
  proof (cases "at_end s = Some True \<or> pressed")
    case True
    then show ?thesis
    proof (cases "at_end s")
      case None
      then show ?thesis using step(2) by simp
    next
      case (Some over)
      with True have "t = (if over then s else u)" using step(2) p by (cases over) simp_all
      then show ?thesis using True Some p by (subst run_stream.simps, cases over) simp_all
    qed
  next
    case False
    then obtain v w where more: "at_end s = Some False"
      and v: "run_codes f (u\<lparr>DispatchStatus := NOBREAK, Priority := C_PRIORITY\<rparr>) = Some v"
        "stream_updates d v = Some w" "run f d w = Some t"
      using step(2) p by (auto simp: bind_conv split: if_splits)
    have "run_codes g (u\<lparr>DispatchStatus := NOBREAK, Priority := C_PRIORITY\<rparr>) = Some v"
      by (rule extends_run_codes [OF v(1) step(3)])
    moreover have "stream_updates e v = Some w" by (rule extends_updates [OF v(2) step(4)])
    moreover have "run_stream g e w = Some t" by (rule step(1) [OF v(3) step(3,4)])
    ultimately show ?thesis using False more p by (subst run_stream.simps) simp
  qed
qed

text \<open>C8: let \<open>ExecuteByteCode\<close> return in a run in which no byte code and no update
  of another module changes the save area, that is, runs a stream of its own.
  Then it restores the instruction pointer, the global and local variables, the dispatch status
  and the priority of the running object. It leaves these values in the save area: there a
  stream whose byte code makes such a call finds them at its end, not its caller's. (The streams
  of \<open>c_ui.c\<close> and \<open>c_input.c\<close> have no such byte code.)\<close>

theorem stream_restores:
  assumes "ExecuteByteCode (calm others) (calm devices) pByteCode pGlobals pLocals s = Some (st, t)"
  shows "ExecuteByteCode others devices pByteCode pGlobals pLocals s = Some (st, t) \<and>
    ObjectIp t = ObjectIp s \<and> pGlobal t = pGlobal s \<and> ObjectLocal t = ObjectLocal s \<and>
    DispatchStatus t = DispatchStatus s \<and> Priority t = Priority s \<and>
    saved t = (ObjectIp s, pGlobal s, ObjectLocal s, DispatchStatus s, Priority s)"
proof -
  let ?s = "s\<lparr>ObjIpSave := ObjectIp s, ObjGlobalSave := pGlobal s, ObjLocalSave := ObjectLocal s,
      DispatchStatusSave := DispatchStatus s, PrioritySave := Priority s,
      ObjectIp := pByteCode, pGlobal := pGlobals, ObjectLocal := pLocals, Priority := 1\<rparr>"
  let ?restore = "\<lambda>w. w\<lparr>Priority := PrioritySave w, DispatchStatus := DispatchStatusSave w,
      ObjectLocal := ObjLocalSave w, pGlobal := ObjGlobalSave w, ObjectIp := ObjIpSave w\<rparr>"
  have run: "ExecuteByteCode f d pByteCode pGlobals pLocals s =
      Option.bind (run_stream f d ?s) (\<lambda>w. Some (DispatchStatus w, ?restore w))" for f d
    by (simp add: ExecuteByteCode_def)
  from assms [unfolded run] obtain w where
    w: "run_stream (calm others) (calm devices) ?s = Some w" "st = DispatchStatus w" "t = ?restore w"
    by (rule bind_SomeE) simp
  have "run_stream others devices ?s = Some w"
    by (rule extends_run_stream [OF w(1) extends_calm extends_calm])
  then have all: "ExecuteByteCode others devices pByteCode pGlobals pLocals s = Some (st, t)"
    unfolding run w(2,3) by simp
  have "holds (\<lambda>w. saved w = saved ?s) (run_stream (calm others) (calm devices) ?s)"
    by (rule save_inv.run_stream_keeps [OF calm_saved calm_saved]) (assumption | rule refl)+
  from holdsD [OF this w(1)] all show ?thesis
    unfolding w(3) by (simp add: saved_def)
qed

subsection \<open>The end of a slice\<close>

text \<open>The first half of \<open>mSchedCtrl\<close>: the current object is switched in, its slice runs, the
  devices are updated.\<close>

definition slice_of :: "(UBYTE \<Rightarrow> vm \<Rightarrow> vm option) \<Rightarrow> devices \<Rightarrow> vm \<Rightarrow> vm option" where
  "slice_of others devices s = do {
     s \<leftarrow> (if DispatchStatus s \<noteq> STOPBREAK then ProgramInit s else Some s);
     (d, s) \<leftarrow> ObjectInit s;
     s \<leftarrow> time_slice others (SetDispatchStatus d s);
     updates devices s
   }"

definition end_of_slice :: "UBYTE \<Rightarrow> vm \<Rightarrow> (RESULT \<times> UBYTE \<times> vm) option" where
  "end_of_slice pRestart s = do {
     (Result, pRestart, s) \<leftarrow>
       (if DispatchStatus s = FAILBREAK then do {
          (pRestart, s) \<leftarrow> fail_break pRestart s;
          Some (FAIL, pRestart, s)
        }
        else do {
          s \<leftarrow> instr_break s;
          (Result, s) \<leftarrow> leave_object s;
          Some (Result, pRestart, s)
        });
     (Result, s) \<leftarrow> (if DispatchStatus s \<noteq> STOPBREAK then ProgramExec s else Some (Result, s));
     Some (if pRestart = 1 then FAIL else Result, pRestart, s)
   }"

lemma mSchedCtrl_halves: "mSchedCtrl others devices r s = Option.bind (slice_of others devices s) (end_of_slice r)"
  unfolding mSchedCtrl_def slice_of_def end_of_slice_def Let_def
  by (simp add: case_prod_unfold Option.bind_assoc)

lemma after_slice: "slice_of others devices s = Some t \<Longrightarrow> mSchedCtrl others devices r s = end_of_slice r t"
  by (simp add: mSchedCtrl_halves)

text \<open>Storing into objects keeps the list of objects.\<close>

definition same_status :: "(ULONG \<rightharpoonup> OBJ) \<Rightarrow> (ULONG \<rightharpoonup> OBJ) \<Rightarrow> bool" where
  "same_status H H' \<longleftrightarrow> (\<forall>a. map_option ObjStatus (H' a) = map_option ObjStatus (H a))"

lemma get_obj_heap:
  assumes "same_status (ObjHeap s) H"
  shows "map_option ObjStatus (get_obj (s\<lparr>ObjHeap := H\<rparr>) L i) = map_option ObjStatus (get_obj s L i)"
proof -
  have "obj_ptr (s\<lparr>ObjHeap := H\<rparr>) L i = obj_ptr s L i"
    unfolding obj_ptr_def by (rule load32_mem_cong) simp
  then show ?thesis
    using assms by (cases "obj_ptr s L i") (simp_all add: get_obj_def obj_at_def same_status_def)
qed

lemma runnable_status: "runnable s i \<longleftrightarrow> map_option ObjStatus (get_obj s (pObjList s) i) = Some RUNNING"
  by (auto simp: runnable_def)

lemma objects_status:
  "objects_ok s \<longleftrightarrow> Objects s \<noteq> - 1 \<and> (\<forall>i. valid_id s i \<longrightarrow> map_option ObjStatus (get_obj s (pObjList s) i) \<noteq> None)"
  by (simp add: objects_ok_def)

lemma objects_heap:
  assumes "same_status (ObjHeap s) H"
  shows "runnable (s\<lparr>ObjHeap := H\<rparr>) i = runnable s i" "objects_ok (s\<lparr>ObjHeap := H\<rparr>) = objects_ok s"
  unfolding runnable_status objects_status valid_id_def by (simp_all add: get_obj_heap [OF assms])

text \<open>\<open>ObjectExit\<close> stores the instruction pointer of a running object.\<close>

lemma ObjectExit_run:
  assumes "objects_ok s" and "Program s (ProgramId s) = Some Q"
  obtains H where "ObjectExit s = Some (s\<lparr>ObjHeap := H\<rparr>)" "same_status (ObjHeap s) H"
    "\<And>ob. valid_id s (ObjectId s) \<Longrightarrow> prg_Status Q \<noteq> STOPPED \<Longrightarrow>
      get_obj s (pObjList s) (ObjectId s) = Some ob \<Longrightarrow> ObjStatus ob = RUNNING \<Longrightarrow>
      get_obj (s\<lparr>ObjHeap := H\<rparr>) (pObjList s) (ObjectId s) = Some (ob\<lparr>Ip := ObjectIp s\<rparr>)"
proof (cases "valid_id s (ObjectId s) \<and> prg_Status Q \<noteq> STOPPED \<and> runnable s (ObjectId s)")
  case False
  have "get_obj s (pObjList s) (ObjectId s) \<noteq> None" if "valid_id s (ObjectId s)"
    using assms(1) that by (simp add: objects_ok_def)
  then have "ObjectExit s = Some (s\<lparr>ObjHeap := ObjHeap s\<rparr>)"
    using False assms(2) by (auto simp: ObjectExit_def runnable_def)
  then show thesis using False by (intro that [of "ObjHeap s"]) (auto simp: same_status_def runnable_def)
next
  case True
  then obtain ob where ob: "get_obj s (pObjList s) (ObjectId s) = Some ob" "ObjStatus ob = RUNNING"
    by (auto simp: runnable_def)
  then obtain a where a: "obj_ptr s (pObjList s) (ObjectId s) = Some a" "obj_at s a = Some ob"
    by (auto simp: get_obj_def bind_conv)
  let ?H = "(ObjHeap s)(a \<mapsto> ob\<lparr>Ip := ObjectIp s\<rparr>)"
  have "obj_ptr (s\<lparr>ObjHeap := ?H\<rparr>) (pObjList s) (ObjectId s) = Some a"
    using a(1) load32_mem_cong [of s "s\<lparr>ObjHeap := ?H\<rparr>"] by (simp add: obj_ptr_def)
  moreover have "ObjHeap s a = Some ob" "mem s a \<noteq> None" using a(2) by (auto simp: obj_at_def split: if_splits)
  ultimately show thesis
    using True assms(2) ob a
    by (intro that [of ?H]) (auto simp: ObjectExit_def upd_obj_def same_status_def get_obj_def obj_at_def)
qed

text \<open>The entry of a program that is switched out.\<close>

definition exited :: "vm \<Rightarrow> PRG \<Rightarrow> PRG" where
  "exited s P = P\<lparr>prg_pGlobal := pGlobal s, prg_pImage := pImage s, prg_pObjHead := pObjHead s,
     prg_pObjList := pObjList s, prg_Objects := Objects s, prg_ObjectId := ObjectId s, prg_ObjectIp := ObjectIp s,
     prg_ObjectLocal := ObjectLocal s, prg_InstrCnt := prg_InstrCnt P + InstrCnt s, prg_Debug := Debug s\<rparr>"

lemma ProgramExit_run:
  "ProgramId s < MAX_PROGRAMS s \<Longrightarrow> Program s (ProgramId s) = Some P \<Longrightarrow>
    ProgramExit s = Some (s\<lparr>Program := (Program s)(ProgramId s \<mapsto> exited s P), InstrCnt := 0\<rparr>)"
  by (simp add: ProgramExit_def upd_prg_def MAX_PROGRAMS_def Let_def exited_def)

lemma programs_updated:
  assumes "Program s p = Some P" and "prg_Status Q = prg_Status P"
    and "Program t = (Program s)(p \<mapsto> Q)" and "Consts t = Consts s"
  shows "active t = active s" "programs_ok t = programs_ok s" "MAX_PROGRAMS t = MAX_PROGRAMS s"
  using assms by (auto simp: active_def programs_ok_def MAX_PROGRAMS_def fun_eq_iff)

text \<open>What the round robin choices give at the end of a slice: the object that has run keeps its
  place, the next running object of its program is noted, and the next active program is
  chosen.\<close>

definition switched :: "vm \<Rightarrow> PRG \<Rightarrow> vm \<Rightarrow> OBJID \<Rightarrow> bool" where
  "switched t P v j \<longleftrightarrow>
     (\<forall>ob. get_obj t (pObjList t) (ObjectId t) = Some ob \<and> ObjStatus ob = RUNNING \<and> valid_id t (ObjectId t) \<longrightarrow>
        get_obj v (pObjList t) (ObjectId t) = Some (ob\<lparr>Ip := ObjectIp t\<rparr>)) \<and>
     (if DispatchStatus t = STOPBREAK then ProgramId v = ProgramId t \<and> ObjectId v = j \<and> Program v = Program t
      else Program v = (Program t)(ProgramId t \<mapsto> exited (t\<lparr>ObjectId := j\<rparr>) P) \<and>
        (\<exists>m. first_hit (next_program (MAX_PROGRAMS t)) (active t) (ProgramId t) m \<and>
          ProgramId v = (next_program (MAX_PROGRAMS t) ^^ m) (ProgramId t)))"

text \<open>Leaving an object that has run: its instruction pointer is saved and the next running
  object is chosen.\<close>

lemma object_left:
  assumes ok: "programs_ok t" "objects_ok t" "ObjectId t \<le> Objects t"
    and slots: "USER_SLOT (Consts t) < MAX_PROGRAMS t" "GUI_SLOT (Consts t) < MAX_PROGRAMS t"
    and P: "Program t (ProgramId t) = Some P"
    and some: "\<not> ui_background t" "valid_id t i" "runnable t i"
  obtains H k where "ObjectExit t = Some (t\<lparr>ObjHeap := H\<rparr>)"
    "\<And>ob. valid_id t (ObjectId t) \<Longrightarrow> prg_Status P \<noteq> STOPPED \<Longrightarrow>
      get_obj t (pObjList t) (ObjectId t) = Some ob \<Longrightarrow> ObjStatus ob = RUNNING \<Longrightarrow>
      get_obj (t\<lparr>ObjHeap := H\<rparr>) (pObjList t) (ObjectId t) = Some (ob\<lparr>Ip := ObjectIp t\<rparr>)"
    "first_hit (next_object (Objects t)) (runnable t) (ObjectId t) k" "k \<le> unat (Objects t)"
    "ObjectExec (t\<lparr>ObjHeap := H\<rparr>) = Some (OK, t\<lparr>ObjHeap := H, ObjectId := (next_object (Objects t) ^^ k) (ObjectId t)\<rparr>)"
proof -
  obtain H where H: "ObjectExit t = Some (t\<lparr>ObjHeap := H\<rparr>)" "same_status (ObjHeap t) H"
    "\<And>ob. valid_id t (ObjectId t) \<Longrightarrow> prg_Status P \<noteq> STOPPED \<Longrightarrow>
      get_obj t (pObjList t) (ObjectId t) = Some ob \<Longrightarrow> ObjStatus ob = RUNNING \<Longrightarrow>
      get_obj (t\<lparr>ObjHeap := H\<rparr>) (pObjList t) (ObjectId t) = Some (ob\<lparr>Ip := ObjectIp t\<rparr>)"
    by (rule ObjectExit_run [OF ok(2) P]) blast
  let ?u = "t\<lparr>ObjHeap := H\<rparr>"
  have u: "programs_ok ?u" "objects_ok ?u" "runnable ?u = runnable t" "active ?u = active t"
      "MAX_PROGRAMS ?u = MAX_PROGRAMS t"
    using ok objects_heap [OF H(2)] by (simp_all add: programs_ok_def MAX_PROGRAMS_def active_def fun_eq_iff)
  have ui: "\<not> ui_background ?u" "valid_id ?u i" "runnable ?u i"
    using some u by (simp_all add: ui_background_def valid_id_def)
  obtain k where "first_hit (next_object (Objects t)) (runnable t) (ObjectId t) k" "k \<le> unat (Objects t)"
      "ObjectExec ?u = Some (OK, ?u\<lparr>ObjectId := (next_object (Objects t) ^^ k) (ObjectId t)\<rparr>)"
    using object_exec [of ?u] u ok ui slots by (auto split: if_splits)
  with H show thesis by (intro that [of H k])
qed

text \<open>C3: when a slice ends without a failure and an object of the program can run,
  the scheduler returns \<open>OK\<close>: the object that has run will continue where it stopped, the next
  running object, counting round, becomes the program's object, and the next active program,
  counting round, is chosen - but the same program goes on if the slice ended with
  \<open>STOPBREAK\<close>.\<close>

theorem sched_next:
  assumes slice: "slice_of others devices s = Some t"
    and st: "DispatchStatus t \<noteq> FAILBREAK" "DispatchStatus t \<noteq> INSTRBREAK"
    and ok: "programs_ok t" "objects_ok t" "ObjectId t \<le> Objects t" "ProgramId t < MAX_PROGRAMS t"
    and slots: "USER_SLOT (Consts t) < MAX_PROGRAMS t" "GUI_SLOT (Consts t) < MAX_PROGRAMS t"
    and P: "Program t (ProgramId t) = Some P" "prg_Status P \<noteq> STOPPED"
    and some: "\<not> ui_background t" "valid_id t i" "runnable t i"
  shows "\<exists>k v. first_hit (next_object (Objects t)) (runnable t) (ObjectId t) k \<and> k \<le> unat (Objects t) \<and>
    mSchedCtrl others devices 0 s = Some (OK, 0, v) \<and>
    switched t P v ((next_object (Objects t) ^^ k) (ObjectId t))"
proof -
  obtain H k where H: "ObjectExit t = Some (t\<lparr>ObjHeap := H\<rparr>)"
    "\<And>ob. valid_id t (ObjectId t) \<Longrightarrow> prg_Status P \<noteq> STOPPED \<Longrightarrow>
      get_obj t (pObjList t) (ObjectId t) = Some ob \<Longrightarrow> ObjStatus ob = RUNNING \<Longrightarrow>
      get_obj (t\<lparr>ObjHeap := H\<rparr>) (pObjList t) (ObjectId t) = Some (ob\<lparr>Ip := ObjectIp t\<rparr>)"
    and k: "first_hit (next_object (Objects t)) (runnable t) (ObjectId t) k" "k \<le> unat (Objects t)"
      "ObjectExec (t\<lparr>ObjHeap := H\<rparr>) = Some (OK, t\<lparr>ObjHeap := H, ObjectId := (next_object (Objects t) ^^ k) (ObjectId t)\<rparr>)"
    using ok(1-3) slots P(1) some by (rule object_left) (rule that; assumption)
  let ?u = "t\<lparr>ObjHeap := H\<rparr>"
  define j where "j = (next_object (Objects t) ^^ k) (ObjectId t)"
  let ?w = "?u\<lparr>ObjectId := j\<rparr>"
  have place: "get_obj (?w\<lparr>Program := G, InstrCnt := n, ProgramId := p\<rparr>) L q = get_obj ?u L q"
      "get_obj ?w L q = get_obj ?u L q" for G n p L q
    by (rule get_obj_cong; simp)+
  have "\<exists>v. mSchedCtrl others devices 0 s = Some (OK, 0, v) \<and> switched t P v j"
  proof (cases "DispatchStatus t = STOPBREAK")
    case True
    then have "mSchedCtrl others devices 0 s = Some (OK, 0, ?w)"
      using k(3) H(1) by (simp add: after_slice [OF slice] end_of_slice_def instr_break_def leave_object_def j_def)
    moreover have "switched t P ?w j"
      using True H(2) P(2) place(2) by (simp add: switched_def)
    ultimately show ?thesis by blast
  next
    case False
    let ?x = "?w\<lparr>Program := (Program t)(ProgramId t \<mapsto> exited ?w P), InstrCnt := 0\<rparr>"
    have x: "ProgramExit ?w = Some ?x"
      using ProgramExit_run [of ?w P] ok(4) P(1) by (simp add: MAX_PROGRAMS_def)
    have same: "active ?x = active t" "programs_ok ?x = programs_ok t" "MAX_PROGRAMS ?x = MAX_PROGRAMS t"
      by (rule programs_updated [OF P(1), of "exited ?w P"]; simp add: exited_def)+
    have "\<exists>p < MAX_PROGRAMS t. active t p" using P ok(4) by (auto simp: active_def)
    then obtain m where m: "first_hit (next_program (MAX_PROGRAMS t)) (active t) (ProgramId t) m"
        "ProgramExec ?x = Some (OK, ?x\<lparr>ProgramId := (next_program (MAX_PROGRAMS t) ^^ m) (ProgramId t)\<rparr>)"
      using program_exec [of ?x] same ok(1) by (auto split: if_splits)
    let ?v = "?x\<lparr>ProgramId := (next_program (MAX_PROGRAMS t) ^^ m) (ProgramId t)\<rparr>"
    have "mSchedCtrl others devices 0 s = Some (OK, 0, ?v)"
      using False st k(3) H(1) x m(2)
      by (simp add: after_slice [OF slice] end_of_slice_def instr_break_def leave_object_def j_def)
    moreover have "switched t P ?v j"
      using False H(2) P(2) m(1) place by (auto simp: switched_def exited_def)
    ultimately show ?thesis by blast
  qed
  then show ?thesis using k(1,2) unfolding j_def by blast
qed

lemma trace_frame:
  "pool_ok s \<Longrightarrow> pool_ok (if c then s\<lparr>Trace := es\<rparr> else s)"
  "files_ok s \<Longrightarrow> files_ok (if c then s\<lparr>Trace := es\<rparr> else s)"
  by (simp_all add: pool_ok_def heap_ok_def files_ok_def pool_def MAX_PROGRAMS_def)

lemma failed_end:
  assumes st: "DispatchStatus t = FAILBREAK" and gui: "ProgramId t \<noteq> GUI_SLOT (Consts t)"
    and ok: "programs_ok t" "pool_ok t" "files_ok t"
    and P: "Program t (ProgramId t) = Some P" "prg_Status P \<noteq> STOPPED"
  obtains x Q where "fail_break 0 t = Some (0, x)" "DispatchStatus x = PRGBREAK"
    "Program x = (Program t)(ProgramId t \<mapsto> Q)" "prg_Status Q = STOPPED" "prg_Result Q = FAIL"
    "programs_ok x" "MAX_PROGRAMS x = MAX_PROGRAMS t" "ProgramId x = ProgramId t"
    "\<And>p h. pool x p h = (if p = ProgramId t then 0 else pool t p h)"
proof -
  define u where "u = (if ProgramId t \<noteq> CMD_SLOT (Consts t) then t\<lparr>Trace := SetWarningDspStat # Trace t\<rparr> else t)"
  have u0: "pool_ok u" "files_ok u"
    unfolding u_def using ok(2,3) by (simp_all only: trace_frame)
  have u1: "Program u = Program t" "ProgramId u = ProgramId t" "pool u = pool t" "Consts u = Consts t"
    unfolding u_def by (simp_all add: pool_def fun_eq_iff)
  have "Program u (ProgramId t) = Some P" using P(1) u1(1) by simp
  with u0 obtain w0 where w0: "ProgramEnd (ProgramId t) u = Some (gave_back (ProgramId t) P u w0)"
      "Consts w0 = Consts u" "\<And>p h. pool w0 p h = (if p = ProgramId t then 0 else pool u p h)"
      "ProgramId w0 = ProgramId u"
    using P(2) by (rule ProgramEnd_run) (rule that; assumption)
  let ?w = "gave_back (ProgramId t) P u w0"
  let ?Q = "(ended_prg (ProgramId t) P u)\<lparr>prg_Result := FAIL\<rparr>"
  let ?x = "?w\<lparr>Program := (Program t)(ProgramId t \<mapsto> ?Q)\<rparr>"
  have x: "set_result FAIL ?w = Some ?x"
    using w0(4) u1(1,2) by (simp add: set_result_def upd_prg_def gave_back_sel)
  have pok: "programs_ok ?x" "MAX_PROGRAMS ?x = MAX_PROGRAMS t" "ProgramId ?x = ProgramId t"
    using ok(1) w0(2,4) u1(2,4) by (auto simp: programs_ok_def MAX_PROGRAMS_def gave_back_sel)
  have pools: "pool ?x p h = (if p = ProgramId t then 0 else pool t p h)" for p h
    using w0(3) u1(3) by (simp add: pool_def gave_back_sel)
  have "fail_break 0 t = Some (0, ?x)"
    using gui w0(1) x u1(2) by (simp add: fail_break_def u_def [symmetric])
  moreover have "DispatchStatus ?x = PRGBREAK" using u1(2) by (simp add: gave_back_sel)
  ultimately show thesis using pok pools by (intro that [of ?x ?Q]) (simp_all add: ended_prg_def)
qed

text \<open>C4: when a slice ends with \<open>FAILBREAK\<close>, a program other than the user interface is
  ended with the result \<open>FAIL\<close>: its memory is freed, no other program or memory changes, and
  the next active program is chosen, if there is one; otherwise the scheduler answers
  \<open>STOP\<close>. A failure of the user interface itself asks for a restart.\<close>

theorem sched_fail:
  assumes slice: "slice_of others devices s = Some t" and st: "DispatchStatus t = FAILBREAK"
    and ok: "programs_ok t" "ProgramId t < MAX_PROGRAMS t" "pool_ok t" "files_ok t"
    and P: "Program t (ProgramId t) = Some P" "prg_Status P \<noteq> STOPPED"
  shows "if ProgramId t = GUI_SLOT (Consts t) then \<exists>v. mSchedCtrl others devices 0 s = Some (FAIL, 1, v)
    else \<exists>v Q. Program v = (Program t)(ProgramId t \<mapsto> Q) \<and> prg_Status Q = STOPPED \<and> prg_Result Q = FAIL \<and>
      (\<forall>p h. pool v p h = (if p = ProgramId t then 0 else pool t p h)) \<and>
      (if \<exists>p < MAX_PROGRAMS t. p \<noteq> ProgramId t \<and> active t p
       then mSchedCtrl others devices 0 s = Some (OK, 0, v) \<and> active v (ProgramId v) \<and> ProgramId v \<noteq> ProgramId t
       else mSchedCtrl others devices 0 s = Some (STOP, 0, v))"
proof (cases "ProgramId t = GUI_SLOT (Consts t)")
  case True
  let ?u = "LogErrorNumber VM_INTERNAL t"
  have u: "programs_ok ?u" "DispatchStatus ?u = FAILBREAK"
    using ok(1) st by (auto simp: programs_ok_def MAX_PROGRAMS_def LogErrorNumber_def Let_def)
  have "\<exists>r v. ProgramExec ?u = Some (r, v)"
    using program_exec [OF u(1)] by (auto split: if_splits)
  then show ?thesis
    using True st u(2) by (auto simp: after_slice [OF slice] end_of_slice_def fail_break_def)
next
  case False
  obtain x Q where x: "fail_break 0 t = Some (0, x)" "DispatchStatus x = PRGBREAK"
    and Q: "Program x = (Program t)(ProgramId t \<mapsto> Q)" "prg_Status Q = STOPPED" "prg_Result Q = FAIL"
    and pok: "programs_ok x" "MAX_PROGRAMS x = MAX_PROGRAMS t" "ProgramId x = ProgramId t"
    and pools: "\<And>p h. pool x p h = (if p = ProgramId t then 0 else pool t p h)"
    using st False ok(1,3,4) P by (rule failed_end) (rule that; assumption)
  have act: "active x p \<longleftrightarrow> p \<noteq> ProgramId t \<and> active t p" for p
    using Q by (auto simp: active_def)
  have run: "mSchedCtrl others devices 0 s = Option.bind (ProgramExec x) (\<lambda>(r, v). Some (r, 0, v))"
    using st x by (simp add: after_slice [OF slice] end_of_slice_def)
  show ?thesis
  proof (cases "\<exists>p < MAX_PROGRAMS t. p \<noteq> ProgramId t \<and> active t p")
    case True
    then obtain m where m: "first_hit (next_program (MAX_PROGRAMS t)) (active x) (ProgramId t) m"
        "ProgramExec x = Some (OK, x\<lparr>ProgramId := (next_program (MAX_PROGRAMS t) ^^ m) (ProgramId t)\<rparr>)"
      using program_exec [OF pok(1)] act pok(2,3) by (auto split: if_splits)
    let ?v = "x\<lparr>ProgramId := (next_program (MAX_PROGRAMS t) ^^ m) (ProgramId t)\<rparr>"
    have "active x (ProgramId ?v)" using m(1) by (simp add: first_hit_def)
    then have "active ?v (ProgramId ?v)" "ProgramId ?v \<noteq> ProgramId t"
      unfolding act by (simp_all add: active_def Q)
    moreover have "mSchedCtrl others devices 0 s = Some (OK, 0, ?v)" unfolding run m(2) by simp
    moreover have "pool ?v p h = pool x p h" for p h by (simp add: pool_def)
    ultimately show ?thesis
      unfolding if_not_P [OF False] if_P [OF True]
      by (intro exI [of _ ?v] exI [of _ Q]) (simp add: pools Q)
  next
    case none: False
    then have "ProgramExec x = Some (STOP, x)"
      using program_exec [OF pok(1)] act pok(2) by (auto split: if_splits)
    then have "mSchedCtrl others devices 0 s = Some (STOP, 0, x)" unfolding run by simp
    then show ?thesis
      unfolding if_not_P [OF False] if_not_P [OF none]
      by (intro exI [of _ x] exI [of _ Q]) (simp add: pools Q)
  qed
qed

subsection \<open>Ending the current program\<close>

lemma free_handle_unmaps:
  assumes ok: "pool_ok s" and run: "cMemoryFreeHandle p h s = Some (r, t)"
    and x: "mem s x = None \<or> pool s p h \<noteq> 0 \<and> x \<in> span (pool s p h) (unat (Size (pPoolList s p h)))"
  shows "mem t x = None"
proof (cases "p < MAX_PROGRAMS s \<and> handle_ok h \<and> pool s p h \<noteq> 0")
  case False
  then have "t = s" using run by (auto simp: FreeHandle_eq)
  with False x pool_okD(1,2) [OF ok, of p h] show ?thesis by auto
next
  case True
  let ?a = "pool s p h" and ?n = "unat (Size (pPoolList s p h))"
  have b: "Blocks s ?a = Some ?n" using pool_okD(3) [OF ok, of p h] True by simp
  then have n: "?n \<le> 2 ^ 32" by (rule heap_okD(3) [OF pool_ok_heap [OF ok]])
  from run True obtain r' v w where v: "(if PoolType (pPoolList s p h) = POOL_TYPE_FILE
        then release_file ?a s else Some (NOBREAK, s)) = Some (r', v)"
      and w: "free (pool v p h) v = Some w" "mem t = mem w"
    by (auto simp: FreeHandle_eq cMemoryFree_def bind_conv)
  have "Blocks v = Blocks s" "pool v p h = ?a" "dom (mem v) = dom (mem s)"
    using v release_file_frame(1,2,4) [of ?a s r' v] by (auto simp: pool_def split: if_splits)
  with w b True have "mem t = mem (unmap_block ?a ?n v)" by (simp add: free_def)
  with x \<open>dom (mem v) = dom (mem s)\<close> n show ?thesis
    by (auto simp: unmap_block_def span_in_iff domIff)
qed

lemma free_handles_unmap:
  assumes "pool_ok s" and "free_handles p hs s = Some t"
    and "mem s x = None \<or> (\<exists>h \<in> set hs. pool s p h \<noteq> 0 \<and> x \<in> span (pool s p h) (unat (Size (pPoolList s p h))))"
  shows "mem t x = None"
  using assms
proof (induction hs arbitrary: s)
  case (Cons k ks)
  from Cons.prems(2) obtain r v where v: "cMemoryFreeHandle p k s = Some (r, v)" "free_handles p ks v = Some t"
    by (auto simp: bind_conv)
  note frame = free_handle_ok(1,2) [OF Cons.prems(1) v(1)]
  have "mem v x = None \<or> (\<exists>h \<in> set ks. pool v p h \<noteq> 0 \<and> x \<in> span (pool v p h) (unat (Size (pPoolList v p h))))"
  proof (cases "mem s x = None \<or> pool s p k \<noteq> 0 \<and> x \<in> span (pool s p k) (unat (Size (pPoolList s p k)))")
    case True
    from free_handle_unmaps [OF Cons.prems(1) v(1) this] show ?thesis by simp
  next
    case False
    then obtain h where "h \<in> set ks" "h \<noteq> k" "pool s p h \<noteq> 0"
        "x \<in> span (pool s p h) (unat (Size (pPoolList s p h)))"
      using Cons.prems(3) by auto
    moreover from this have "pPoolList v p h = pPoolList s p h" "pool v p h = pool s p h"
      unfolding pool_def frame(2) by auto
    ultimately show ?thesis by metis
  qed
  from Cons.IH [OF frame(1) v(2) this] show ?case .
qed simp

text \<open>The registers that \<open>ProgramEnd\<close> leaves to the scheduler.\<close>

definition context_regs :: "vm \<Rightarrow> OBJID \<times> OBJID \<times> ULONG \<times> PRGID \<times> bytecodes" where
  "context_regs s = (Objects s, ObjectId s, pObjList s, ProgramId s, Consts s)"

lemma regs_free: "cMemoryFreeProgram p s = Some t \<Longrightarrow> context_regs t = context_regs s"
proof -
  have handle: "context_regs v = context_regs w" if "cMemoryFreeHandle p h w = Some (r, v)" for h r v w
    using that by (auto simp: FreeHandle_eq release_file_def set_pool_def cMemoryFree_def free_def context_regs_def
        unmap_block_def bind_conv split: if_splits option.splits)
  have handles: "context_regs v = context_regs w" if "free_handles p hs w = Some v" for hs v w
    using that by (induction hs arbitrary: w) (auto simp: bind_conv dest: handle)
  assume "cMemoryFreeProgram p s = Some t"
  then show ?thesis by (auto simp: cMemoryFreeProgram_def bind_conv context_regs_def dest!: handles)
qed

lemma regs_ended: "context_regs (ended p P s) = context_regs s"
  by (simp add: context_regs_def ended_def tick_def close_modules_def Let_def)

lemma regs_gave_back: "context_regs (gave_back p P s w) = context_regs w"
  by (simp add: context_regs_def gave_back_def SetDispatchStatus_def Let_def)

definition seen :: "vm \<Rightarrow> (OBJID \<times> OBJID \<times> ULONG \<times> PRGID \<times> bytecodes) \<times> (ULONG \<rightharpoonup> UBYTE) \<times> DSPSTAT \<times> (PRGID \<rightharpoonup> PRG)" where
  "seen s = (context_regs s, mem s, DispatchStatus s, Program s)"

text \<open>Updates of devices that leave a part of the state alone.\<close>

lemma updates_run:
  assumes dev: "\<And>e s. \<exists>v. devices e s = Some v \<and> f v = f s"
    and f: "\<And>s es. f (s\<lparr>Trace := es\<rparr>) = f s" "\<And>s v. f (s\<lparr>NewTime := v\<rparr>) = f s" "\<And>s v. f (s\<lparr>OldTime1 := v\<rparr>) = f s"
      "\<And>s v. f (s\<lparr>OldTime2 := v\<rparr>) = f s" "\<And>s n. f (s\<lparr>ClockNo := n\<rparr>) = f s" "\<And>s w. f (s\<lparr>Test := w\<rparr>) = f s"
  shows "\<exists>v. updates devices s = Some v \<and> f v = f s" "\<exists>v. stream_updates devices s = Some v \<and> f v = f s"
proof -
  have call: "\<exists>v. call_module devices e s = Some v \<and> f v = f s" for e s
    using dev [of e "s\<lparr>Trace := e # Trace s\<rparr>"] f(1) by (auto simp: call_module_def)
  have fast: "\<exists>v. update_fast devices s = Some v \<and> f v = f s" for s
  proof (cases "NewTime s - OldTime1 s \<ge> UPDATE_TIME1")
    case True
    let ?u = "s\<lparr>OldTime1 := OldTime1 s + (NewTime s - OldTime1 s)\<rparr>"
    obtain a where a: "call_module devices CallComUpdate ?u = Some a" "f a = f ?u" using call by blast
    obtain b where b: "call_module devices CallSoundUpdate a = Some b" "f b = f a" using call by blast
    obtain c where c: "call_module devices CallDynloadUpdateVM b = Some c" "f c = f b" using call by blast
    have "update_fast devices s = Some c" using True a(1) b(1) c(1) by (simp add: update_fast_def)
    then show ?thesis using a(2) b(2) c(2) f(3) by simp
  qed (simp add: update_fast_def)
  have slow: "\<exists>v. update_slow devices t s = Some v \<and> f v = f s" for t s
  proof -
    let ?u = "s\<lparr>OldTime2 := OldTime2 s + t\<rparr>"
    obtain a where a: "call_module devices (CallInputUpdate (ucast t)) ?u = Some a" "f a = f ?u" using call by blast
    obtain b where b: "call_module devices (CallUiUpdate (ucast t)) a = Some b" "f b = f a" using call by blast
    show ?thesis using a b f(4) by (simp add: update_slow_def)
  qed
  have test: "f (update_test t s) = f s" for t s by (simp add: update_test_def TstClose_def f(6))
  obtain ms u where u: "GetTimeMS s = (ms, u)" by fastforce
  then have fu: "f u = f s" using f(5) by (auto simp: GetTimeMS_def cTimerGetmS_def gettimeofday_def Let_def)
  obtain a where a: "update_fast devices (u\<lparr>NewTime := ms\<rparr>) = Some a" "f a = f s" using fast f(2) fu by metis
  obtain b where b: "update_slow devices (NewTime a - OldTime2 a) a = Some b" "f b = f s" using slow a(2) by metis
  show "\<exists>v. updates devices s = Some v \<and> f v = f s" "\<exists>v. stream_updates devices s = Some v \<and> f v = f s"
    using u a b by (simp_all add: updates_def stream_updates_def Let_def test)
qed

lemma seen_regs:
  "seen (s\<lparr>Trace := es\<rparr>) = seen s" "seen (s\<lparr>NewTime := v\<rparr>) = seen s" "seen (s\<lparr>OldTime1 := v\<rparr>) = seen s"
  "seen (s\<lparr>OldTime2 := v\<rparr>) = seen s" "seen (s\<lparr>ClockNo := n\<rparr>) = seen s" "seen (s\<lparr>Test := w\<rparr>) = seen s"
  by (simp_all add: seen_def context_regs_def)

lemma ended_unmapped:
  assumes ok: "pool_ok s" and w: "cMemoryFreeProgram p (ended p P s) = Some w"
    and pool: "pool s p h \<noteq> 0" "x \<in> span (pool s p h) (unat (Size (pPoolList s p h)))"
  shows "mem w x = None"
proof -
  let ?e = "ended p P s"
  have e: "pool_ok ?e" by (rule pool_ok_frame [OF ok]) (simp_all add: ended_sel)
  have h: "h \<in> set all_handles" using pool_okD(2) [OF ok pool(1)] by (simp add: all_handles_iff)
  obtain v where v: "free_handles p all_handles ?e = Some v" "mem w = mem v"
    using w by (auto simp: cMemoryFreeProgram_def bind_conv)
  have "\<exists>h \<in> set all_handles. pool ?e p h \<noteq> 0 \<and> x \<in> span (pool ?e p h) (unat (Size (pPoolList ?e p h)))"
    using h pool by (intro bexI [of _ h]) (auto simp: pool_def ended_sel(1))
  then show ?thesis using free_handles_unmap [OF e v(1)] v(2) by simp
qed

text \<open>C9: when a byte code ends its own program, the list of its objects is
  freed with the program's memory, but the scheduler still looks for the next object in
  that list at the end of the slice: it reads freed memory. The updates in between do not help
  if they return and leave the memory, the programs and the registers of the slice as they are.\<close>

theorem end_then_schedule:
  assumes ok: "pool_ok s" "files_ok s" and P: "Program s (ProgramId s) = Some P" "prg_Status P \<noteq> STOPPED"
    and pool: "pool s (ProgramId s) h \<noteq> 0" "span (pObjList s) (4 * (unat (Objects s) + 1)) \<subseteq>
      span (pool s (ProgramId s) h) (unat (Size (pPoolList s (ProgramId s) h)))"
    and "0 < Objects s" "ObjectId s \<le> Objects s" and gui: "ProgramId s \<noteq> GUI_SLOT (Consts s)"
    and devices: "\<And>e s. \<exists>v. devices e s = Some v \<and> seen v = seen s"
  shows "\<exists>t v. ProgramEnd (ProgramId s) s = Some t \<and> DispatchStatus t = PRGBREAK \<and> Priority t = 0 \<and>
    updates devices t = Some v \<and> end_of_slice r v = None"
proof -
  let ?p = "ProgramId s"
  obtain w where w: "cMemoryFreeProgram ?p (ended ?p P s) = Some w" "DispatchStatus w = DispatchStatus s"
    "ProgramEnd ?p s = Some (gave_back ?p P s w)"
    using ok P by (rule ProgramEnd_run) (rule that; assumption)
  let ?t = "gave_back ?p P s w"
  have regs: "context_regs ?t = context_regs s"
    using regs_free [OF w(1)] by (simp add: regs_gave_back regs_ended)
  have mem: "mem ?t x = None" if "x \<in> span (pObjList s) (4 * (unat (Objects s) + 1))" for x
    using ended_unmapped [OF ok(1) w(1) pool(1)] pool(2) that by (auto simp: gave_back_sel)
  obtain v where v: "updates devices ?t = Some v" "seen v = seen ?t"
    using updates_run(1) [of devices seen ?t, OF devices seen_regs] by blast
  have t: "seen v = (context_regs s, mem w, PRGBREAK, (Program s)(?p \<mapsto> (ended_prg ?p P s)\<lparr>prg_Result := OK\<rparr>))"
    unfolding v(2) by (simp add: seen_def regs gave_back_sel)
  let ?u = v
  have u: "Objects ?u = Objects s" "ObjectId ?u = ObjectId s" "pObjList ?u = pObjList s" "ProgramId ?u = ?p"
    "Consts ?u = Consts s" "mem ?u = mem w" "DispatchStatus ?u = PRGBREAK"
    "Program ?u ?p = Some ((ended_prg ?p P s)\<lparr>prg_Result := OK\<rparr>)"
    using t by (simp_all add: seen_def context_regs_def)
  have exit: "ObjectExit ?u = Some ?u"
    using u by (simp add: ObjectExit_def ended_prg_def)
  have "ObjectExec ?u = None"
  proof (cases "Program ?u (USER_SLOT (Consts s))")
    case (Some user)
    let ?j = "next_object (Objects s) (ObjectId s)"
    have j: "?j \<le> Objects s" using assms(7) by (auto simp: next_object_def not_less word_le_nat_alt word_less_nat_alt)
    then have "pObjList s + of_nat (4 * unat ?j) \<in> span (pObjList s) (4 * (unat (Objects s) + 1))"
      unfolding span_def by (intro imageI) (simp add: word_le_nat_alt)
    then have "mem w (pObjList s + 4 * ucast ?j) = None"
      using mem by (simp add: gave_back_sel)
    then have "get_obj (?u\<lparr>ObjectId := ?j\<rparr>) (pObjList s) ?j = None"
      using u(6) by (simp add: get_obj_def obj_ptr_def load32_def)
    with Some gui u assms(7) show ?thesis
      by (simp add: ObjectExec_def, subst switch_object.simps) (simp add: word_less_nat_alt Let_def)
  qed (simp add: ObjectExec_def u(5))
  then have "end_of_slice r ?u = None"
    using u(7) exit by (simp add: end_of_slice_def instr_break_def leave_object_def)
  then show ?thesis using w(3) v(1) by (simp add: gave_back_sel)
qed

subsection \<open>Witnesses\<close>

text \<open>A machine whose user program has two objects, of which the first runs; the byte codes
  are those of \<open>op\<close>. The program owns the block with its object list.\<close>

definition sample_running :: PRG where
  "sample_running = sample_prg\<lparr>prg_Status := RUNNING\<rparr>"

lemma sample_running_status: "prg_Status sample_running = RUNNING"
  by (simp add: sample_running_def)

definition sample_pool :: "PRGID \<Rightarrow> HANDLER \<Rightarrow> POOL" where
  "sample_pool p h = \<lparr>pPool = (if p = 1 \<and> h = 0 then 0x1000 else 0), Size = (if p = 1 \<and> h = 0 then 64 else 0), PoolType = 0\<rparr>"

definition sample_round :: "(UBYTE \<Rightarrow> OPCODE) \<Rightarrow> vm" where
  "sample_round op = (sample_vm sample_heads)\<lparr>Consts := sample_consts\<lparr>opcode := op\<rparr>,
     mem := (sample_mem sample_heads)(0x1005 \<mapsto> 0x20, 0x1008 \<mapsto> 0x10, 0x1009 \<mapsto> 0x20,
        0x128 \<mapsto> 0, 0x129 \<mapsto> 0, 0x12A \<mapsto> 0, 0x12B \<mapsto> 1),
     ObjHeap := [0x2000 \<mapsto> sample_obj1, 0x2010 \<mapsto> sample_obj2],
     Objects := 2, ObjectId := 1, pObjList := 0x1000, pObjHead := 0xF4, DispatchStatus := STOPBREAK,
     Program := (\<lambda>p. if p < 5 then Some (if p = 1 then sample_running else sample_prg) else None),
     pPoolList := sample_pool, Blocks := [0x1000 \<mapsto> 64]\<rparr>"

lemma sample_validate:
  "Validate (sample_vm c) = (\<lambda>m a l. Some (OK, l, m))" "InstrCnt (sample_vm c) = 0"
  unfolding sample_vm_def by simp_all

lemma sample_round_sel [simp]:
  "Consts (sample_round op) = sample_consts\<lparr>opcode := op\<rparr>" "ProgramId (sample_round op) = 1"
  "Objects (sample_round op) = 2" "ObjectId (sample_round op) = 1" "pObjList (sample_round op) = 0x1000"
  "DispatchStatus (sample_round op) = STOPBREAK" "Debug (sample_round op) = 0" "InstrCnt (sample_round op) = 0"
  "Program (sample_round op) = (\<lambda>p. if p < 5 then Some (if p = 1 then sample_running else sample_prg) else None)"
  "mem (sample_round op) 0x128 = Some 0" "mem (sample_round op) 0x129 = Some 0" "mem (sample_round op) 0x12A = Some 0"
  "mem (sample_round op) 0x12B = Some 1" "pPoolList (sample_round op) = sample_pool"
  "Blocks (sample_round op) = [0x1000 \<mapsto> 64]" "MAX_PROGRAMS (sample_round op) = 5" "ErrorIn (sample_round op) = 0"
  "ErrorOut (sample_round op) = 0" "Validate (sample_round op) = (\<lambda>m a l. Some (OK, l, m))"
  by (simp_all add: sample_round_def MAX_PROGRAMS_def sample_validate)

lemma sample_round_obj [simp]:
  "get_obj (sample_round op) 0x1000 1 = Some sample_obj1" "get_obj (sample_round op) 0x1000 2 = Some sample_obj2"
proof -
  have m: "mem (sample_round op) 0x1004 = Some 0" "mem (sample_round op) 0x1005 = Some 0x20"
    "mem (sample_round op) 0x1006 = Some 0" "mem (sample_round op) 0x1007 = Some 0"
    "mem (sample_round op) 0x1008 = Some 0x10" "mem (sample_round op) 0x1009 = Some 0x20"
    "mem (sample_round op) 0x100A = Some 0" "mem (sample_round op) 0x100B = Some 0"
    "mem (sample_round op) 0x2000 = Some 0" "mem (sample_round op) 0x2010 = Some 0"
    by (simp_all add: sample_round_def sample_mem_def sample_heads_def)
  have h: "ObjHeap (sample_round op) = [0x2000 \<mapsto> sample_obj1, 0x2010 \<mapsto> sample_obj2]"
    by (simp add: sample_round_def)
  show "get_obj (sample_round op) 0x1000 1 = Some sample_obj1" "get_obj (sample_round op) 0x1000 2 = Some sample_obj2"
    by (simp_all add: get_obj_def obj_ptr_def obj_at_def load32_def m h)
qed

definition sample_start :: "(UBYTE \<Rightarrow> OPCODE) \<Rightarrow> vm" where
  "sample_start op = (sample_round op)\<lparr>ObjectIp := 0x128, ObjectLocal := 0x200C, Priority := PRG_PRIORITY,
     DispatchStatus := NOBREAK\<rparr>"

lemma sample_slice:
  "slice_of others devices (sample_round op) = Option.bind (time_slice others (sample_start op)) (updates devices)"
  by (simp add: slice_of_def ObjectInit_def valid_id_def sample_start_def sample_obj1_def SetDispatchStatus_def Let_def)

definition sample_asleep :: vm where
  "sample_asleep = (sample_start (\<lambda>_. opSLEEP))\<lparr>ObjectIp := 0x129, Priority := 0, DispatchStatus := SLEEPBREAK, InstrCnt := 1\<rparr>"

lemma sample_sleep:
  "execute others ((sample_start (\<lambda>_. opSLEEP))\<lparr>Priority := 199\<rparr>) =
    Some ((sample_start (\<lambda>_. opSLEEP))\<lparr>ObjectIp := 0x129, Priority := 0, DispatchStatus := SLEEPBREAK\<rparr>)"
  by (simp add: execute_def fetch_def dispatch.simps is_break_def Sleep_def SetDispatchStatus_def sample_start_def)

lemma sample_sleeps: "time_slice others (sample_start (\<lambda>_. opSLEEP)) = Some sample_asleep"
  using sample_sleep [of others]
  by (subst time_slice.simps) (simp add: sample_start_def sample_asleep_def time_slice.simps PRG_PRIORITY_def)

lemma sample_run: "run_slice others (Suc n) (sample_start (\<lambda>_. opSLEEP)) = Some sample_asleep"
proof -
  have "plain_code (sample_start (\<lambda>_. opSLEEP))"
    by (simp add: plain_code_def sample_start_def is_break_def)
  moreover have "run_slice others n sample_asleep = Some sample_asleep"
    by (cases n) (simp_all add: sample_asleep_def)
  ultimately show ?thesis
    using sample_sleep [of others] by (simp add: sample_start_def sample_asleep_def PRG_PRIORITY_def)
qed

lemma sample_round_ok:
  "pool_ok (sample_round op)" "files_ok (sample_round op)" "programs_ok (sample_round op)"
  "validator_ok (Validate (sample_round op))"
  "typed (sample_consts\<lparr>opcode := op\<rparr>) {p. p < 5} (sample_round op)"
proof -
  have "span 0x1000 64 \<subseteq> dom (mem (sample_round op))"
    by (auto simp: span_in_iff sample_round_def sample_mem_def)
  then have "heap_ok (sample_round op)" by (simp add: heap_ok_def)
  then show "pool_ok (sample_round op)"
    by (auto simp: pool_ok_def pool_def sample_pool_def handle_ok_def MAX_HANDLES_def split: if_splits)
  show "files_ok (sample_round op)" by (auto simp: files_ok_def pool_def sample_pool_def POOL_TYPE_FILE_def)
  show "programs_ok (sample_round op)" by (auto simp: programs_ok_def)
  show "validator_ok (Validate (sample_round op))" by (simp add: validator_ok_def)
  show "typed (sample_consts\<lparr>opcode := op\<rparr>) {p. p < 5} (sample_round op)"
    by (auto simp: typed_def log_ok_def dom_def)
qed

theorem slice_bounded_witness:
  "run_slice (\<lambda>_ _. None) 200 (sample_start (\<lambda>_. opSLEEP)) = Some sample_asleep \<and> Priority sample_asleep = 0 \<and>
   time_slice (\<lambda>_ _. None) (sample_start (\<lambda>_. opSLEEP)) = Some sample_asleep"
proof -
  have "unat (Priority (sample_start (\<lambda>_. opSLEEP))) = Suc 199" by (simp add: sample_start_def PRG_PRIORITY_def)
  moreover have "Priority sample_asleep = 0" by (simp add: sample_asleep_def)
  moreover have "(200 :: nat) = Suc 199" by simp
  ultimately show ?thesis
    using slice_bounded [of "\<lambda>_ _. None" "sample_start (\<lambda>_. opSLEEP)"]
    by (auto simp only: sample_run sample_sleeps option.inject option.distinct)
qed

text \<open>Devices that log an error at every update, and what they leave alone.\<close>

definition logging :: devices where
  "logging e s = Some (LogErrorNumber VM_INTERNAL s)"

lemma logging_acts: "logging e s = Some t \<Longrightarrow> acts s t"
  by (auto simp: logging_def intro: acts.log_error)

definition kept :: "vm \<Rightarrow> _ \<times> (ULONG \<rightharpoonup> OBJ) \<times> (PRGID \<Rightarrow> HANDLER \<Rightarrow> POOL) \<times> (ULONG \<rightharpoonup> nat) \<times> ULONG" where
  "kept s = (seen s, ObjHeap s, pPoolList s, Blocks s, ObjectIp s)"

lemma logging_keeps: "\<exists>v. logging e s = Some v \<and> kept v = kept s"
  by (simp add: logging_def kept_def seen_def context_regs_def LogErrorNumber_def Let_def)

lemma kept_regs:
  "kept (s\<lparr>Trace := es\<rparr>) = kept s" "kept (s\<lparr>NewTime := v\<rparr>) = kept s" "kept (s\<lparr>OldTime1 := v\<rparr>) = kept s"
  "kept (s\<lparr>OldTime2 := v\<rparr>) = kept s" "kept (s\<lparr>ClockNo := n\<rparr>) = kept s" "kept (s\<lparr>Test := w\<rparr>) = kept s"
  by (simp_all add: kept_def seen_regs)

lemmas logging_updates = updates_run [of logging kept, OF logging_keeps kept_regs]

definition sample_slept :: vm where
  "sample_slept = the (updates logging sample_asleep)"

lemma sample_slept: "slice_of others logging (sample_round (\<lambda>_. opSLEEP)) = Some sample_slept"
  unfolding sample_slice sample_sleeps using logging_updates(1) [of sample_asleep] by (auto simp: sample_slept_def)

lemma sample_slept_kept: "kept sample_slept = kept sample_asleep"
  using logging_updates(1) [of sample_asleep] by (auto simp: sample_slept_def)

lemma sample_slept_sel [simp]:
  "Consts sample_slept = sample_consts\<lparr>opcode := \<lambda>_. opSLEEP\<rparr>" "ProgramId sample_slept = 1"
  "Objects sample_slept = 2" "ObjectId sample_slept = 1" "pObjList sample_slept = 0x1000"
  "DispatchStatus sample_slept = SLEEPBREAK" "ObjectIp sample_slept = 0x129" "MAX_PROGRAMS sample_slept = 5"
  "Program sample_slept = (\<lambda>p. if p < 5 then Some (if p = 1 then sample_running else sample_prg) else None)"
  "mem sample_slept = mem (sample_round (\<lambda>_. opSLEEP))" "ObjHeap sample_slept = ObjHeap (sample_round (\<lambda>_. opSLEEP))"
  using sample_slept_kept unfolding kept_def seen_def context_regs_def
  by (simp_all add: sample_asleep_def sample_start_def MAX_PROGRAMS_def)

lemma sample_slept_obj [simp]: "get_obj sample_slept L i = get_obj (sample_round (\<lambda>_. opSLEEP)) L i"
  by (rule get_obj_cong) simp_all

lemma sample_ids: "0 < i \<and> i \<le> (2 :: OBJID) \<longleftrightarrow> i = 1 \<or> i = 2"
  using sample_valid [of i] by (simp add: valid_id_def)

lemma sample_slept_ok: "programs_ok sample_slept" "objects_ok sample_slept" "runnable sample_slept 1"
  by (auto simp: programs_ok_def objects_ok_def valid_id_def sample_ids runnable_def sample_obj1_def)

theorem sched_next_witness:
  "\<exists>v. mSchedCtrl (\<lambda>_ _. None) logging 0 (sample_round (\<lambda>_. opSLEEP)) = Some (OK, 0, v) \<and>
    get_obj v 0x1000 1 = Some (sample_obj1\<lparr>Ip := 0x129\<rparr>)"
proof -
  have "\<not> ui_background sample_slept" "valid_id sample_slept 1" by (simp_all add: ui_background_def valid_id_def)
  then obtain k v where v: "mSchedCtrl (\<lambda>_ _. None) logging 0 (sample_round (\<lambda>_. opSLEEP)) = Some (OK, 0, v)"
      "switched sample_slept sample_running v ((next_object 2 ^^ k) 1)"
    using sched_next [OF sample_slept [of "\<lambda>_ _. None"], of sample_running 1] sample_slept_ok sample_running_status
    by auto
  then have "get_obj v 0x1000 1 = Some (sample_obj1\<lparr>Ip := 0x129\<rparr>)"
    by (auto simp: switched_def sample_obj1_def valid_id_def)
  with v(1) show ?thesis by blast
qed

lemma sample_round_returns:
  "\<exists>v. mSchedCtrl (\<lambda>_ _. None) logging 0 (sample_round (\<lambda>_. opSLEEP)) = Some (OK, 0, v)"
proof -
  obtain H where H: "ObjectExit sample_slept = Some (sample_slept\<lparr>ObjHeap := H\<rparr>)"
      "same_status (ObjHeap sample_slept) H"
    using ObjectExit_run [of sample_slept sample_running] sample_slept_ok by auto
  let ?u = "sample_slept\<lparr>ObjHeap := H\<rparr>"
  have "programs_ok ?u" "objects_ok ?u" "runnable ?u 1" "valid_id ?u 1" "\<not> ui_background ?u"
    using sample_slept_ok objects_heap [OF H(2)]
    by (simp_all add: programs_ok_def MAX_PROGRAMS_def valid_id_def ui_background_def)
  then obtain j where j: "ObjectExec ?u = Some (OK, ?u\<lparr>ObjectId := j\<rparr>)"
    using object_exec [of ?u] by (auto simp: MAX_PROGRAMS_def split: if_splits)
  let ?w = "?u\<lparr>ObjectId := j\<rparr>"
  let ?x = "?w\<lparr>Program := (Program sample_slept)(1 \<mapsto> exited ?w sample_running), InstrCnt := 0\<rparr>"
  have x: "ProgramExit ?w = Some ?x"
    using ProgramExit_run [of ?w sample_running] by (simp add: MAX_PROGRAMS_def)
  have "programs_ok ?x" "active ?x 1"
    using sample_slept_ok(1) by (auto simp: programs_ok_def active_def exited_def sample_running_def MAX_PROGRAMS_def)
  then obtain v where "ProgramExec ?x = Some (OK, v)"
    using program_exec [of ?x] by (auto simp: MAX_PROGRAMS_def split: if_splits)
  with H(1) j x show ?thesis
    by (simp add: after_slice [OF sample_slept] end_of_slice_def instr_break_def leave_object_def)
qed



text \<open>The byte code \<open>ARRAY_READ\<close> fails on a handle that holds no array.\<close>

definition sample_failed :: vm where
  "sample_failed = (sample_start (\<lambda>_. opARRAY_READ))\<lparr>ObjectIp := 0x12C, Value := 0, Handle := - 1,
     DispatchStatus := FAILBREAK, Priority := 0, InstrCnt := 1\<rparr>"

lemma sample_zero: "(0 :: UBYTE) AND x = 0" "flag 0 f = False"
  by (simp_all add: flag_def)

lemma sample_par: "mem s (ObjectIp s) = Some 0 \<Longrightarrow>
    PrimParPointer s = Some (PtrValue 0, s\<lparr>ObjectIp := ObjectIp s + 1, Handle := - 1, Value := 0\<rparr>)"
  by (simp add: PrimParPointer_def fetch_def sample_zero)

lemma sample_fails: "time_slice others (sample_start (\<lambda>_. opARRAY_READ)) = Some sample_failed"
proof -
  let ?s = "(sample_start (\<lambda>_. opARRAY_READ))\<lparr>Priority := 199\<rparr>"
  let ?t = "?s\<lparr>ObjectIp := 0x12B, Value := 0, Handle := - 1\<rparr>"
  have m: "mem (sample_start op) = mem (sample_round op)" for op by (simp add: sample_start_def)
  have z: "mem (sample_round (\<lambda>_. opARRAY_READ)) 0x1000 = Some 0" "mem (sample_round (\<lambda>_. opARRAY_READ)) 0x1001 = Some 0"
    "mem (sample_round (\<lambda>_. opARRAY_READ)) 0x1002 = Some 0" "mem (sample_round (\<lambda>_. opARRAY_READ)) 0x1003 = Some 0"
    by (simp_all add: sample_round_def sample_mem_def sample_heads_def)
  have pars: "get16 (?s\<lparr>ObjectIp := 0x129\<rparr>) = Some (0, ?s\<lparr>ObjectIp := 0x12A, Value := 0, Handle := - 1\<rparr>)"
      "get32 (?s\<lparr>ObjectIp := 0x12A, Value := 0, Handle := - 1\<rparr>) = Some (0, ?t)"
    by (simp_all add: par_get_def sample_par m c16.ld_value c32.ld_value)
  have "cMemoryGetPointer (CurrentProgramId (?s\<lparr>ObjectIp := 0x129\<rparr>)) 0 ?t = Some 0x1000"
    by (simp add: GetPointer_iff pool_def CurrentProgramId_def sample_start_def sample_pool_def handle_ok_def
        MAX_HANDLES_def MAX_PROGRAMS_def)
  moreover have "Elements_of 0x1000 ?t = Some 0"
    by (simp add: Elements_of_def layout_defs load32_def m z)
  moreover have "PrimParAdvance ?t = Some (?t\<lparr>ObjectIp := 0x12C\<rparr>)"
    by (simp add: PrimParAdvance_def fetch_def m flag_def primpar_defs)
  ultimately have "cMemoryArrayRead (?s\<lparr>ObjectIp := 0x129\<rparr>) =
      Some (SetDispatchStatus FAILBREAK (?t\<lparr>ObjectIp := 0x12C\<rparr>))"
    by (simp add: cMemoryArrayRead_def pars)
  then have "execute others ?s = Some (?t\<lparr>ObjectIp := 0x12C, Priority := 0, DispatchStatus := FAILBREAK\<rparr>)"
    by (simp add: execute_def fetch_def m dispatch.simps is_break_def SetDispatchStatus_def sample_start_def)
  then show ?thesis
    by (subst time_slice.simps) (simp add: sample_failed_def sample_start_def time_slice.simps PRG_PRIORITY_def)
qed

theorem sched_fail_witness:
  "\<exists>v Q. mSchedCtrl (\<lambda>_ _. None) logging 0 (sample_round (\<lambda>_. opARRAY_READ)) = Some (STOP, 0, v) \<and>
    Program v 1 = Some Q \<and> prg_Status Q = STOPPED \<and> prg_Result Q = FAIL \<and> pool v 1 0 = 0"
proof -
  obtain v where v: "updates logging sample_failed = Some v" "kept v = kept sample_failed"
    using logging_updates(1) by blast
  let ?t = v
  have slice: "slice_of (\<lambda>_ _. None) logging (sample_round (\<lambda>_. opARRAY_READ)) = Some ?t"
    unfolding sample_slice sample_fails using v(1) by simp
  have t: "DispatchStatus ?t = FAILBREAK" "ProgramId ?t = 1" "Consts ?t = sample_consts\<lparr>opcode := \<lambda>_. opARRAY_READ\<rparr>"
      "Program ?t = Program (sample_round (\<lambda>_. opARRAY_READ))" "mem ?t = mem (sample_round (\<lambda>_. opARRAY_READ))"
    and more: "pPoolList ?t = sample_pool" "Blocks ?t = [0x1000 \<mapsto> 64]"
    using v(2) by (simp_all add: kept_def seen_def context_regs_def sample_failed_def sample_start_def)
  have "pool_ok ?t"
    by (rule pool_ok_frame [OF sample_round_ok(1)]) (simp_all add: t more)
  moreover have "files_ok ?t" using sample_round_ok(2) by (simp add: files_ok_def pool_def more)
  moreover have "programs_ok ?t" by (auto simp: programs_ok_def t MAX_PROGRAMS_def)
  ultimately show ?thesis
    using sched_fail [OF slice, of sample_running] t
    by (auto simp: sample_running_status MAX_PROGRAMS_def active_def sample_prg_def)
qed

text \<open>A byte code stream of one \<open>NOP\<close>.\<close>

definition sample_stream :: vm where
  "sample_stream = sample_round (\<lambda>b. if b = 0 then opNOP else opOBJECT_END)"

lemma sample_stream_sel:
  "LongPress sample_stream = (\<lambda>_. False)" "PressNo sample_stream = 0"
  by (simp_all add: sample_stream_def sample_round_def) (simp_all add: sample_vm_def)

lemma sample_stream_runs:
  "\<exists>t. ExecuteByteCode (calm (\<lambda>_ _. None)) (calm logging) 0x12A 0x1000 0x2000 sample_stream = Some (NOBREAK, t)"
proof -
  let ?o = "calm (\<lambda>_ _. None) :: UBYTE \<Rightarrow> vm \<Rightarrow> vm option" and ?d = "calm logging"
  let ?s = "sample_stream\<lparr>ObjIpSave := ObjectIp sample_stream, ObjGlobalSave := pGlobal sample_stream,
      ObjLocalSave := ObjectLocal sample_stream, DispatchStatusSave := DispatchStatus sample_stream,
      PrioritySave := Priority sample_stream, ObjectIp := 0x12A, pGlobal := 0x1000, ObjectLocal := 0x2000, Priority := 1\<rparr>"
  let ?m = "?s\<lparr>PressNo := Suc 0, DispatchStatus := NOBREAK, Priority := C_PRIORITY\<rparr>"
  let ?n = "?m\<lparr>Priority := 199, ObjectIp := 0x12B\<rparr>"
  have "saved (LogErrorNumber VM_INTERNAL s) = saved s" for s
    by (simp add: saved_def LogErrorNumber_def Let_def)
  then have "\<exists>v. ?d e s = Some v \<and> kept v = kept s" for e s
    using logging_keeps [of e s] by (simp add: calm_def logging_def)
  then obtain v where v: "stream_updates ?d ?n = Some v" "kept v = kept ?n"
    using updates_run(2) [of ?d kept ?n, OF _ kept_regs] by blast
  then have same: "mem v = mem ?n" "ObjectIp v = ObjectIp ?n" "Consts v = Consts ?n" "DispatchStatus v = NOBREAK"
    by (simp_all add: kept_def seen_def context_regs_def)
  have ends: "at_end ?s = Some False" "at_end ?m = Some False" "at_end ?n = Some True" "at_end v = Some True"
    by (simp_all add: at_end_def sample_stream_def same)
  have "execute ?o (?m\<lparr>Priority := 199\<rparr>) = Some ?n"
    by (simp add: execute_def fetch_def dispatch.simps is_break_def Nop_def sample_stream_def)
  then have "run_codes ?o ?m = Some ?n"
    using ends(2,3) run_codes.simps [of _ ?n] by (subst run_codes.simps) (simp add: C_PRIORITY_def)
  then have "run_stream ?o ?d ?s = Some v"
    using ends(1,4) v(1) run_stream.simps [of _ _ v]
    by (subst run_stream.simps) (simp add: long_press_def sample_stream_sel)
  then show ?thesis by (simp add: ExecuteByteCode_def same(4))
qed

theorem stream_restores_witness:
  "\<exists>t. ExecuteByteCode (\<lambda>_ _. None) logging 0x12A 0x1000 0x2000 sample_stream = Some (NOBREAK, t) \<and>
    ObjectIp t = ObjectIp sample_stream \<and> DispatchStatus t = STOPBREAK"
proof -
  obtain t where t: "ExecuteByteCode (calm (\<lambda>_ _. None)) (calm logging) 0x12A 0x1000 0x2000 sample_stream = Some (NOBREAK, t)"
    using sample_stream_runs by blast
  from stream_restores [OF t] show ?thesis by (simp add: sample_stream_def)
qed

theorem end_then_schedule_witness:
  "\<exists>t v. ProgramEnd 1 (sample_round (\<lambda>_. opPROGRAM_STOP)) = Some t \<and> updates logging t = Some v \<and> end_of_slice 0 v = None"
proof -
  have "span 0x1000 (4 * (unat (2 :: OBJID) + 1)) \<subseteq> span 0x1000 64" by (auto simp: span_in_iff)
  moreover have "\<exists>v. logging e s = Some v \<and> seen v = seen s" for e s
    using logging_keeps [of e s] by (auto simp: kept_def)
  ultimately show ?thesis
    using end_then_schedule [of "sample_round (\<lambda>_. opPROGRAM_STOP)" sample_running 0 logging 0] sample_round_ok(1,2)
    by (auto simp: pool_def sample_pool_def sample_running_status)
qed

end
