(* ===== verification/VM_Lcd.thy ===== *)
theory VM_Lcd
  imports VM_Bytecodes
begin

text \<open>
  The display of \<open>c_ui/d_lcd.c\<close>: drawing into an image of one bit per pixel, and the copy of an
  image to the screen. An image is the list of its bytes (the \<open>Lcd\<close> array of the type \<open>LCD\<close>); a
  write or read outside it is \<open>None\<close>. The bitmaps of fonts and icons are generated by the build
  from pictures and are parameters. A picture is what its pixels show (\<open>shown\<close>), and each drawing
  routine is refined to the set of points it paints (\<open>paints\<close>).
\<close>

subsection \<open>Images\<close>

text \<open>The display has 178 columns and 128 rows (\<open>lms2012/doc/Implementation\<close>, \<open>c_ui/c_ui.c\<close>; the
  constants themselves are generated): \<open>dLcdExec\<close> takes rows of 7 * 3 + 2 bytes and
  \<open>update_to_fb\<close> rows of 60 bytes of three pixels.\<close>

definition LCD_WIDTH :: int where "LCD_WIDTH = 178"
definition LCD_HEIGHT :: int where "LCD_HEIGHT = 128"
definition LCD_ROW :: int where "LCD_ROW = (LCD_WIDTH + 7) div 8"
definition LCD_BUFFER_SIZE :: nat where "LCD_BUFFER_SIZE = nat (LCD_ROW * LCD_HEIGHT)"

lemmas lcd_consts = LCD_WIDTH_def LCD_HEIGHT_def LCD_ROW_def LCD_BUFFER_SIZE_def

type_synonym image = "UBYTE list"

definition get_byte :: "UBYTE list \<Rightarrow> int \<Rightarrow> UBYTE option" where
  "get_byte bs i = (if 0 \<le> i \<and> i < int (length bs) then Some (bs ! nat i) else None)"

definition put_byte :: "image \<Rightarrow> int \<Rightarrow> UBYTE \<Rightarrow> image option" where
  "put_byte img i b = (if 0 \<le> i \<and> i < int (length img) then Some (img[nat i := b]) else None)"

text \<open>The promotion of a \<open>DATA16\<close> value to \<open>int\<close>, and the conversion back.\<close>

abbreviation to16 :: "int \<Rightarrow> DATA16" where
  "to16 \<equiv> word_of_int"

subsection \<open>Pixels\<close>

definition on_lcd :: "DATA16 \<Rightarrow> DATA16 \<Rightarrow> bool" where
  "on_lcd X0 Y0 \<longleftrightarrow> 0 \<le> sint X0 \<and> sint X0 < LCD_WIDTH \<and> 0 \<le> sint Y0 \<and> sint Y0 < LCD_HEIGHT"

definition pixel_byte :: "DATA16 \<Rightarrow> DATA16 \<Rightarrow> int" where
  "pixel_byte X0 Y0 = sint X0 div 8 + sint Y0 * LCD_ROW"

definition pixel_mask :: "DATA16 \<Rightarrow> UBYTE" where
  "pixel_mask X0 = push_bit (nat (sint X0 mod 8)) 1"

definition dLcdDrawPixel :: "DATA8 \<Rightarrow> DATA16 \<Rightarrow> DATA16 \<Rightarrow> image \<Rightarrow> image option" where
  "dLcdDrawPixel Color X0 Y0 img =
     (if on_lcd X0 Y0 then do {
        b \<leftarrow> get_byte img (pixel_byte X0 Y0);
        put_byte img (pixel_byte X0 Y0)
          (if Color \<noteq> 0 then b OR pixel_mask X0 else b AND NOT (pixel_mask X0))
      }
      else Some img)"

definition dLcdInversePixel :: "DATA16 \<Rightarrow> DATA16 \<Rightarrow> image \<Rightarrow> image option" where
  "dLcdInversePixel X0 Y0 img =
     (if on_lcd X0 Y0 then do {
        b \<leftarrow> get_byte img (pixel_byte X0 Y0);
        put_byte img (pixel_byte X0 Y0) (b XOR pixel_mask X0)
      }
      else Some img)"

definition dLcdReadPixel :: "DATA16 \<Rightarrow> DATA16 \<Rightarrow> image \<Rightarrow> DATA8 option" where
  "dLcdReadPixel X0 Y0 img =
     (if on_lcd X0 Y0 then do {
        b \<leftarrow> get_byte img (pixel_byte X0 Y0);
        Some (if b AND pixel_mask X0 \<noteq> 0 then 1 else 0)
      }
      else Some 0)"

definition dLcdCheckPixel :: "DATA8 \<Rightarrow> DATA16 \<Rightarrow> DATA16 \<Rightarrow> image \<Rightarrow> bool option" where
  "dLcdCheckPixel Color X0 Y0 img =
     (if on_lcd X0 Y0 then do { p \<leftarrow> dLcdReadPixel X0 Y0 img; Some (p \<noteq> Color) } else Some False)"

subsection \<open>Scrolling\<close>

definition dLcdScroll :: "DATA16 \<Rightarrow> image \<Rightarrow> image option" where
  "dLcdScroll Y0 img =
     (let k = LCD_ROW * sint Y0; n = (LCD_HEIGHT - sint Y0) * LCD_ROW in
      if 0 \<le> k \<and> 0 \<le> n \<and> k + n \<le> int (length img)
      then Some (take (nat n) (drop (nat k) img) @ replicate (nat k) 0 @ drop (nat (k + n)) img)
      else None)"

subsection \<open>Lines\<close>

text \<open>The next point of a line. \<open>Diff << 1\<close> and the sums are 32-bit operations; the coordinates are
  counted in 16 bits.\<close>

definition line_next ::
    "DATA32 \<Rightarrow> DATA32 \<Rightarrow> DATA16 \<Rightarrow> DATA16 \<Rightarrow> DATA32 \<Rightarrow> DATA16 \<Rightarrow> DATA16 \<Rightarrow> DATA32 \<times> DATA16 \<times> DATA16" where
  "line_next XLength YLength XInc YInc Diff X0 Y0 =
     (let Tmp = push_bit 1 Diff;
          (Diff, X0) = (if sint Tmp > sint (- YLength) then (Diff - YLength, X0 + XInc) else (Diff, X0));
          (Diff, Y0) = (if sint Tmp < sint XLength then (Diff + XLength, Y0 + YInc) else (Diff, Y0))
      in (Diff, X0, Y0))"

partial_function (option) line_loop ::
    "DATA8 \<Rightarrow> DATA16 \<Rightarrow> DATA16 \<Rightarrow> DATA32 \<Rightarrow> DATA32 \<Rightarrow> DATA16 \<Rightarrow> DATA16 \<Rightarrow> DATA32 \<Rightarrow> DATA16 \<Rightarrow> DATA16 \<Rightarrow> image \<Rightarrow> image option" where
  "line_loop Color X1 Y1 XLength YLength XInc YInc Diff X0 Y0 img =
     (if X0 \<noteq> X1 \<or> Y0 \<noteq> Y1 then do {
        let (Diff, X0, Y0) = line_next XLength YLength XInc YInc Diff X0 Y0;
        img \<leftarrow> dLcdDrawPixel Color X0 Y0 img;
        line_loop Color X1 Y1 XLength YLength XInc YInc Diff X0 Y0 img
      }
      else Some img)"

text \<open>The length and the direction of a line in one coordinate.\<close>

definition extent :: "DATA16 \<Rightarrow> DATA16 \<Rightarrow> DATA32 \<times> DATA16" where
  "extent X0 X1 = (if sint X0 < sint X1 then (scast X1 - scast X0, 1) else (scast X0 - scast X1, - 1))"

definition dLcdDrawLine :: "DATA8 \<Rightarrow> DATA16 \<Rightarrow> DATA16 \<Rightarrow> DATA16 \<Rightarrow> DATA16 \<Rightarrow> image \<Rightarrow> image option" where
  "dLcdDrawLine Color X0 Y0 X1 Y1 img = do {
     let (XLength, XInc) = extent X0 X1;
     let (YLength, YInc) = extent Y0 Y1;
     img \<leftarrow> dLcdDrawPixel Color X0 Y0 img;
     line_loop Color X1 Y1 XLength YLength XInc YInc (XLength - YLength) X0 Y0 img
   }"

definition clamp_dots :: "DATA16 \<Rightarrow> DATA16" where
  "clamp_dots On = (if sint On < 0 then 0 else if sint On > 255 then 255 else On)"

partial_function (option) dot_loop ::
    "DATA8 \<Rightarrow> DATA16 \<Rightarrow> DATA16 \<Rightarrow> DATA16 \<Rightarrow> DATA16 \<Rightarrow> DATA32 \<Rightarrow> DATA32 \<Rightarrow> DATA16 \<Rightarrow> DATA16 \<Rightarrow> DATA32 \<Rightarrow> DATA16 \<Rightarrow> DATA16 \<Rightarrow> DATA16 \<Rightarrow> image \<Rightarrow> image option" where
  "dot_loop Color X1 Y1 On Off XLength YLength XInc YInc Diff X0 Y0 Count img =
     (if X0 \<noteq> X1 \<or> Y0 \<noteq> Y1 then do {
        let (Diff, X0, Y0) = line_next XLength YLength XInc YInc Diff X0 Y0;
        img \<leftarrow> (if sint Count < sint On + sint Off
               then dLcdDrawPixel (if sint Count < sint On then Color else 1 - Color) X0 Y0 img
               else Some img);
        let Count = Count + 1;
        let Count = (if sint Count \<ge> sint On + sint Off then 0 else Count);
        dot_loop Color X1 Y1 On Off XLength YLength XInc YInc Diff X0 Y0 Count img
      }
      else Some img)"

definition dLcdDrawDotLine ::
    "DATA8 \<Rightarrow> DATA16 \<Rightarrow> DATA16 \<Rightarrow> DATA16 \<Rightarrow> DATA16 \<Rightarrow> DATA16 \<Rightarrow> DATA16 \<Rightarrow> image \<Rightarrow> image option" where
  "dLcdDrawDotLine Color X0 Y0 X1 Y1 On Off img =
     (if X0 \<noteq> X1 \<and> Y0 \<noteq> Y1 then dLcdDrawLine Color X0 Y0 X1 Y1 img
      else do {
        let On = clamp_dots On;
        let Off = clamp_dots Off;
        let (XLength, XInc) = extent X0 X1;
        let (YLength, YInc) = extent Y0 Y1;
        img \<leftarrow> dLcdDrawPixel Color X0 Y0 img;
        dot_loop Color X1 Y1 On Off XLength YLength XInc YInc (XLength - YLength) X0 Y0 1 img
      })"

subsection \<open>Circles\<close>

text \<open>\<open>X\<close>, \<open>Y\<close> and \<open>P\<close> are of type \<open>int\<close>; they stay far inside its range, since the radius
  has 16 bits. The points are sums in 16 bits.\<close>

definition dLcdPlotPoints :: "DATA8 \<Rightarrow> DATA16 \<Rightarrow> DATA16 \<Rightarrow> DATA16 \<Rightarrow> DATA16 \<Rightarrow> image \<Rightarrow> image option" where
  "dLcdPlotPoints Color X0 Y0 X1 Y1 img = do {
     img \<leftarrow> dLcdDrawPixel Color (X0 + X1) (Y0 + Y1) img;
     img \<leftarrow> dLcdDrawPixel Color (X0 - X1) (Y0 + Y1) img;
     img \<leftarrow> dLcdDrawPixel Color (X0 + X1) (Y0 - Y1) img;
     img \<leftarrow> dLcdDrawPixel Color (X0 - X1) (Y0 - Y1) img;
     img \<leftarrow> dLcdDrawPixel Color (X0 + Y1) (Y0 + X1) img;
     img \<leftarrow> dLcdDrawPixel Color (X0 - Y1) (Y0 + X1) img;
     img \<leftarrow> dLcdDrawPixel Color (X0 + Y1) (Y0 - X1) img;
     dLcdDrawPixel Color (X0 - Y1) (Y0 - X1) img
   }"

definition dLcdPlotLines :: "DATA8 \<Rightarrow> DATA16 \<Rightarrow> DATA16 \<Rightarrow> DATA16 \<Rightarrow> DATA16 \<Rightarrow> image \<Rightarrow> image option" where
  "dLcdPlotLines Color X0 Y0 X1 Y1 img = do {
     img \<leftarrow> dLcdDrawLine Color (X0 - X1) (Y0 + Y1) (X0 + X1) (Y0 + Y1) img;
     img \<leftarrow> dLcdDrawLine Color (X0 - X1) (Y0 - Y1) (X0 + X1) (Y0 - Y1) img;
     img \<leftarrow> dLcdDrawLine Color (X0 - Y1) (Y0 + X1) (X0 + Y1) (Y0 + X1) img;
     dLcdDrawLine Color (X0 - Y1) (Y0 - X1) (X0 + Y1) (Y0 - X1) img
   }"

text \<open>The loop of both circles, and its last call of \<open>plot\<close>.\<close>

function circle_loop :: "(DATA16 \<Rightarrow> DATA16 \<Rightarrow> image \<Rightarrow> image option) \<Rightarrow> int \<Rightarrow> int \<Rightarrow> int \<Rightarrow> image \<Rightarrow> image option" where
  "circle_loop plot X Y P img =
     (if X < Y then do {
        img \<leftarrow> plot (to16 X) (to16 Y) img;
        let (P, Y) = (if P < 0 then (P + 4 * X + 6, Y) else (P + 4 * (X - Y) + 10, Y - 1));
        circle_loop plot (X + 1) Y P img
      }
      else plot (to16 X) (to16 Y) img)"
  by pat_completeness auto
termination
  by (relation "measure (\<lambda>(_, X, Y, _, _). nat (Y - X))") (auto split: if_splits)

declare circle_loop.simps [simp del]

definition dLcdDrawCircle :: "DATA8 \<Rightarrow> DATA16 \<Rightarrow> DATA16 \<Rightarrow> DATA16 \<Rightarrow> image \<Rightarrow> image option" where
  "dLcdDrawCircle Color X0 Y0 R = circle_loop (dLcdPlotPoints Color X0 Y0) 0 (sint R) (3 - 2 * sint R)"

definition dLcdDrawFilledCircle :: "DATA8 \<Rightarrow> DATA16 \<Rightarrow> DATA16 \<Rightarrow> DATA16 \<Rightarrow> image \<Rightarrow> image option" where
  "dLcdDrawFilledCircle Color X0 Y0 R = circle_loop (dLcdPlotLines Color X0 Y0) 0 (sint R) (3 - 2 * sint R)"

subsection \<open>Rectangles\<close>

definition dLcdRect :: "DATA8 \<Rightarrow> DATA16 \<Rightarrow> DATA16 \<Rightarrow> DATA16 \<Rightarrow> DATA16 \<Rightarrow> image \<Rightarrow> image option" where
  "dLcdRect Color X0 Y0 X1 Y1 img = do {
     let X1 = X1 - 1;
     let Y1 = Y1 - 1;
     img \<leftarrow> dLcdDrawLine Color X0 Y0 (X0 + X1) Y0 img;
     img \<leftarrow> dLcdDrawLine Color (X0 + X1) Y0 (X0 + X1) (Y0 + Y1) img;
     img \<leftarrow> dLcdDrawLine Color (X0 + X1) (Y0 + Y1) X0 (Y0 + Y1) img;
     dLcdDrawLine Color X0 (Y0 + Y1) X0 Y0 img
   }"

text \<open>\<open>for (; x < max; x++)\<close> on \<open>DATA16\<close> variables; the counter cannot pass 32767.\<close>

function for_upto :: "(DATA16 \<Rightarrow> 'a \<Rightarrow> 'a option) \<Rightarrow> DATA16 \<Rightarrow> DATA16 \<Rightarrow> 'a \<Rightarrow> 'a option" where
  "for_upto f x m s = (if sint x < sint m then do { s \<leftarrow> f x s; for_upto f (x + 1) m s } else Some s)"
  by pat_completeness auto
termination
proof (relation "measure (\<lambda>(_, x, m, _). nat (sint m - sint x))", goal_cases)
  case (2 f x m s s')
  have "sint (x + 1) = sint x + 1"
    using 2 sint16_range (1) [of x] sint16_range (2) [of m] sint_of_int_range [where 'a = 16 and i = "sint x + 1"]
    by simp
  with 2 show ?case by simp
qed simp

declare for_upto.simps [simp del]

definition dLcdFillRect :: "DATA8 \<Rightarrow> DATA16 \<Rightarrow> DATA16 \<Rightarrow> DATA16 \<Rightarrow> DATA16 \<Rightarrow> image \<Rightarrow> image option" where
  "dLcdFillRect Color X0 Y0 X1 Y1 =
     for_upto (\<lambda>Y. for_upto (\<lambda>X. dLcdDrawPixel Color X Y) X0 (X0 + X1)) Y0 (Y0 + Y1)"

definition dLcdInverseRect :: "DATA16 \<Rightarrow> DATA16 \<Rightarrow> DATA16 \<Rightarrow> DATA16 \<Rightarrow> image \<Rightarrow> image option" where
  "dLcdInverseRect X0 Y0 X1 Y1 =
     for_upto (\<lambda>Y. for_upto (\<lambda>X. dLcdInversePixel X Y) X0 (X0 + X1)) Y0 (Y0 + Y1)"

subsection \<open>Filling an area\<close>

text \<open>One row: \<open>X\<close> moves by \<open>XInc\<close> while the pixel is inside the display and not of the colour.
  The two passes to the left leave the column they start in as it is.\<close>

partial_function (option) fill_row ::
    "DATA8 \<Rightarrow> (DATA16 \<Rightarrow> bool) \<Rightarrow> DATA16 \<Rightarrow> DATA16 \<Rightarrow> DATA16 \<Rightarrow> image \<Rightarrow> image option" where
  "fill_row Color skip XInc Y X img = do {
     c \<leftarrow> dLcdCheckPixel Color X Y img;
     if c then do {
       img \<leftarrow> (if skip X then Some img else dLcdDrawPixel Color X Y img);
       fill_row Color skip XInc Y (X + XInc) img
     }
     else Some img
   }"

partial_function (option) fill_rows ::
    "DATA8 \<Rightarrow> (DATA16 \<Rightarrow> bool) \<Rightarrow> DATA16 \<Rightarrow> DATA16 \<Rightarrow> DATA16 \<Rightarrow> DATA16 \<Rightarrow> image \<Rightarrow> image option" where
  "fill_rows Color skip XInc YInc X0 Y img = do {
     c \<leftarrow> dLcdCheckPixel Color X0 Y img;
     if c then do {
       img \<leftarrow> fill_row Color skip XInc Y X0 img;
       fill_rows Color skip XInc YInc X0 (Y + YInc) img
     }
     else Some img
   }"

definition dLcdFlodfill :: "DATA8 \<Rightarrow> DATA16 \<Rightarrow> DATA16 \<Rightarrow> image \<Rightarrow> image option" where
  "dLcdFlodfill Color X0 Y0 img = do {
     img \<leftarrow> fill_rows Color (\<lambda>X. X = X0) (- 1) (- 1) X0 Y0 img;
     img \<leftarrow> fill_rows Color (\<lambda>X. X = X0) (- 1) 1 X0 Y0 img;
     img \<leftarrow> fill_rows Color (\<lambda>_. False) 1 (- 1) X0 Y0 img;
     fill_rows Color (\<lambda>_. False) 1 1 X0 (Y0 + 1) img
   }"

subsection \<open>Copying bytes and drawing bits\<close>

text \<open>A loop whose counter runs through a list.\<close>

fun fold_upd :: "('b \<Rightarrow> 'a \<Rightarrow> 'a option) \<Rightarrow> 'b list \<Rightarrow> 'a \<Rightarrow> 'a option" where
  "fold_upd f [] s = Some s"
| "fold_upd f (x # xs) s = do { s \<leftarrow> f x s; fold_upd f xs s }"

text \<open>Rows of whole bytes: \<open>h\<close> rows of \<open>n\<close> bytes, inverted for the colour 0, from \<open>bits\<close> at \<open>p + i\<close>
  to the image at \<open>j\<close>; \<open>i\<close> moves by \<open>step\<close>, \<open>j\<close> by a row of the display. A byte is copied if the
  guard holds of \<open>j\<close> and its number.\<close>

definition invert :: "DATA8 \<Rightarrow> UBYTE \<Rightarrow> UBYTE" where
  "invert Color b = (if Color \<noteq> 0 then b else NOT b)"

fun copy_rows ::
    "DATA8 \<Rightarrow> (int \<Rightarrow> nat \<Rightarrow> bool) \<Rightarrow> nat \<Rightarrow> UBYTE list \<Rightarrow> int \<Rightarrow> DATA16 \<Rightarrow> nat \<Rightarrow> DATA16 \<Rightarrow> DATA16 \<Rightarrow> image \<Rightarrow> image option" where
  "copy_rows Color guard n bits p step 0 i j img = Some img"
| "copy_rows Color guard n bits p step (Suc h) i j img = do {
     img \<leftarrow> fold_upd (\<lambda>Tmp img.
         if guard (sint j) Tmp then do {
           b \<leftarrow> get_byte bits (p + (sint i + int Tmp));
           put_byte img (sint j + int Tmp) (invert Color b)
         }
         else Some img) [0..<n] img;
     copy_rows Color guard n bits p step h (i + step) (j + to16 LCD_ROW) img
   }"

text \<open>The bits of a byte, from the lowest, up to the column \<open>MaxX\<close>.\<close>

fun draw_bits :: "DATA8 \<Rightarrow> DATA16 \<Rightarrow> DATA16 \<Rightarrow> nat \<Rightarrow> UBYTE \<Rightarrow> DATA16 \<Rightarrow> image \<Rightarrow> (DATA16 \<times> image) option" where
  "draw_bits Color MaxX Y0 0 b TmpX img = Some (TmpX, img)"
| "draw_bits Color MaxX Y0 (Suc n) b TmpX img =
     (if sint TmpX < sint MaxX then do {
        img \<leftarrow> dLcdDrawPixel (if b AND 1 \<noteq> 0 then (if Color \<noteq> 0 then 1 else 0) else (if Color \<noteq> 0 then 0 else 1)) TmpX Y0 img;
        draw_bits Color MaxX Y0 n (drop_bit 1 b) (TmpX + 1) img
      }
      else Some (TmpX, img))"

fun draw_row :: "DATA8 \<Rightarrow> DATA16 \<Rightarrow> DATA16 \<Rightarrow> UBYTE list \<Rightarrow> int list \<Rightarrow> DATA16 \<Rightarrow> image \<Rightarrow> image option" where
  "draw_row Color MaxX Y0 bits [] TmpX img = Some img"
| "draw_row Color MaxX Y0 bits (i # is) TmpX img = do {
     b \<leftarrow> get_byte bits i;
     (TmpX, img) \<leftarrow> draw_bits Color MaxX Y0 8 b TmpX img;
     draw_row Color MaxX Y0 bits is TmpX img
   }"

text \<open>Rows of bits: row \<open>Y\<close> has \<open>n\<close> bytes from \<open>start Y\<close>.\<close>

fun draw_rows ::
    "DATA8 \<Rightarrow> DATA16 \<Rightarrow> DATA16 \<Rightarrow> UBYTE list \<Rightarrow> nat \<Rightarrow> (nat \<Rightarrow> int) \<Rightarrow> nat list \<Rightarrow> DATA16 \<Rightarrow> image \<Rightarrow> image option" where
  "draw_rows Color X0 MaxX bits n start [] Y0 img = Some img"
| "draw_rows Color X0 MaxX bits n start (Y # Ys) Y0 img = do {
     img \<leftarrow> draw_row Color MaxX Y0 bits (map (\<lambda>X. start Y + int X) [0..<n]) X0 img;
     draw_rows Color X0 MaxX bits n start Ys (Y0 + 1) img
   }"

text \<open>The index of the byte of the display at which \<open>X0\<close>, \<open>Y0\<close> lies, in 16 bits.\<close>

definition lcd_index :: "DATA16 \<Rightarrow> DATA16 \<Rightarrow> DATA16" where
  "lcd_index X0 Y0 = to16 (sint X0 div 8 + sint Y0 * LCD_ROW)"

subsection \<open>Characters\<close>

datatype FONT = NORMAL_FONT | SMALL_FONT | LARGE_FONT | TINY_FONT

record FONTINFO =
  FontHeight :: DATA16
  FontWidth :: DATA16
  FontHorz :: DATA16
  FontFirst :: DATA8
  FontLast :: DATA8

fun FontInfo :: "FONT \<Rightarrow> FONTINFO" where
  "FontInfo NORMAL_FONT = \<lparr>FontHeight = 9, FontWidth = 8, FontHorz = 16, FontFirst = 0x20, FontLast = 0x7F\<rparr>"
| "FontInfo SMALL_FONT = \<lparr>FontHeight = 8, FontWidth = 8, FontHorz = 16, FontFirst = 0x20, FontLast = 0x7F\<rparr>"
| "FontInfo LARGE_FONT = \<lparr>FontHeight = 16, FontWidth = 16, FontHorz = 16, FontFirst = 0x20, FontLast = 0x7F\<rparr>"
| "FontInfo TINY_FONT = \<lparr>FontHeight = 7, FontWidth = 5, FontHorz = 16, FontFirst = 0x20, FontLast = 0x7F\<rparr>"

definition dLcdGetFontWidth :: "FONT \<Rightarrow> DATA16" where
  "dLcdGetFontWidth Font = FontWidth (FontInfo Font)"

definition dLcdGetFontHeight :: "FONT \<Rightarrow> DATA16" where
  "dLcdGetFontHeight Font = FontHeight (FontInfo Font)"

text \<open>The bytes of a row of one character, and the index of its first byte in the bits of the font.\<close>

definition font_bytes :: "FONTINFO \<Rightarrow> int" where
  "font_bytes F = (sint (FontWidth F) + 7) div 8"

definition char_index :: "FONTINFO \<Rightarrow> DATA8 \<Rightarrow> DATA16" where
  "char_index F Ch = to16 (cmod (sint Ch) (sint (FontHorz F)) * font_bytes F) +
     to16 (cdiv (sint Ch) (sint (FontHorz F)) * font_bytes F * sint (FontHeight F) * sint (FontHorz F))"

text \<open>The bits \<open>pFontBits\<close> of the fonts are the first parameter. In the guard of the aligned copy the
  index is compared as an unsigned number, and without the byte's number.\<close>

definition dLcdDrawChar ::
    "(FONT \<Rightarrow> UBYTE list) \<Rightarrow> DATA8 \<Rightarrow> DATA16 \<Rightarrow> DATA16 \<Rightarrow> FONT \<Rightarrow> DATA8 \<Rightarrow> image \<Rightarrow> image option" where
  "dLcdDrawChar pFontBits Color X0 Y0 Font Ch img =
     (let F = FontInfo Font in
      if sint Ch \<ge> sint (FontFirst F) \<and> sint Ch \<le> sint (FontLast F) then
        (let CharByteIndex = char_index F (Ch - FontFirst F) in
         if sint (FontWidth F) mod 8 = 0 \<and> sint X0 mod 8 = 0 then
           copy_rows Color (\<lambda>j _. 0 \<le> j \<and> j < int LCD_BUFFER_SIZE) (max 1 (nat (sint (FontWidth F) div 8)))
             (pFontBits Font) 0 (to16 (sint (FontWidth F) * sint (FontHorz F) div 8))
             (unat (FontHeight F)) CharByteIndex (lcd_index X0 Y0) img
         else
           draw_rows Color X0 (X0 + FontWidth F) (pFontBits Font) (nat (font_bytes F))
             (\<lambda>Y. sint (CharByteIndex + of_nat Y * to16 (font_bytes F * sint (FontHorz F))))
             [0..<unat (FontHeight F)] Y0 img)
      else Some img)"

text \<open>The text is a list of characters; to read behind its end is \<open>None\<close>.\<close>

fun dLcdDrawText ::
    "(FONT \<Rightarrow> UBYTE list) \<Rightarrow> DATA8 \<Rightarrow> DATA16 \<Rightarrow> FONT \<Rightarrow> DATA8 list \<Rightarrow> DATA16 \<Rightarrow> image \<Rightarrow> image option" where
  "dLcdDrawText pFontBits Color Y0 Font [] X0 img = None"
| "dLcdDrawText pFontBits Color Y0 Font (c # cs) X0 img =
     (if c = 0 then Some img
      else if sint X0 < LCD_WIDTH - sint (FontWidth (FontInfo Font)) then do {
        img \<leftarrow> dLcdDrawChar pFontBits Color X0 Y0 Font c img;
        dLcdDrawText pFontBits Color Y0 Font cs (X0 + FontWidth (FontInfo Font)) img
      }
      else dLcdDrawText pFontBits Color Y0 Font cs X0 img)"

subsection \<open>Icons and bitmaps\<close>

definition dLcdDrawPicture ::
    "DATA8 \<Rightarrow> DATA16 \<Rightarrow> DATA16 \<Rightarrow> DATA16 \<Rightarrow> DATA16 \<Rightarrow> UBYTE list \<Rightarrow> int \<Rightarrow> image \<Rightarrow> image option" where
  "dLcdDrawPicture Color X0 Y0 IconWidth IconHeight pIconBits p img =
     copy_rows Color (\<lambda>_ _. True) (nat (cdiv (sint IconWidth) 8)) pIconBits p (to16 (cdiv (sint IconWidth) 8))
       (unat IconHeight) 0 (lcd_index X0 Y0) img"

datatype ICON = NORMAL_ICON | SMALL_ICON | LARGE_ICON | MENU_ICON | ARROW_ICON

text \<open>The bits, the height of all icons together and the width are those of the generated picture.\<close>

record PICTURE =
  pIconBits :: "UBYTE list"
  IconSize :: DATA16
  IconWidth :: DATA16

fun dLcdGetIconHeight :: "ICON \<Rightarrow> DATA16" where
  "dLcdGetIconHeight NORMAL_ICON = 12"
| "dLcdGetIconHeight SMALL_ICON = 8"
| "dLcdGetIconHeight LARGE_ICON = 22"
| "dLcdGetIconHeight MENU_ICON = 12"
| "dLcdGetIconHeight ARROW_ICON = 12"

definition dLcdGetIconWidth :: "(ICON \<Rightarrow> PICTURE) \<Rightarrow> ICON \<Rightarrow> DATA16" where
  "dLcdGetIconWidth icons Type = IconWidth (icons Type)"

definition dLcdGetNoOfIcons :: "(ICON \<Rightarrow> PICTURE) \<Rightarrow> ICON \<Rightarrow> DATA16" where
  "dLcdGetNoOfIcons icons Type = to16 (cdiv (sint (IconSize (icons Type))) (sint (dLcdGetIconHeight Type)))"

definition dLcdDrawIcon ::
    "(ICON \<Rightarrow> PICTURE) \<Rightarrow> DATA8 \<Rightarrow> DATA16 \<Rightarrow> DATA16 \<Rightarrow> ICON \<Rightarrow> DATA8 \<Rightarrow> image \<Rightarrow> image option" where
  "dLcdDrawIcon icons Color X0 Y0 Type No img =
     (if 0 \<le> sint No \<and> sint No \<le> sint (dLcdGetNoOfIcons icons Type) then
        (let IconByteIndex = to16 (cdiv (sint No * sint (dLcdGetIconWidth icons Type) * sint (dLcdGetIconHeight Type)) 8) in
         dLcdDrawPicture Color X0 Y0 (dLcdGetIconWidth icons Type) (dLcdGetIconHeight Type)
           (pIconBits (icons Type)) (sint IconByteIndex) img)
      else Some img)"

text \<open>A bitmap starts with its width and height; the null pointer is \<open>None\<close>.\<close>

definition dLcdGetBitmapSize :: "UBYTE list option \<Rightarrow> (DATA16 \<times> DATA16) option" where
  "dLcdGetBitmapSize pBitmap = (case pBitmap of None \<Rightarrow> Some (0, 0)
     | Some bs \<Rightarrow> do { w \<leftarrow> get_byte bs 0; h \<leftarrow> get_byte bs 1; Some (ucast w, ucast h) })"

definition dLcdDrawBitmap :: "DATA8 \<Rightarrow> DATA16 \<Rightarrow> DATA16 \<Rightarrow> UBYTE list option \<Rightarrow> image \<Rightarrow> image option" where
  "dLcdDrawBitmap Color X0 Y0 pBitmap img = (case pBitmap of None \<Rightarrow> Some img
     | Some bs \<Rightarrow> do {
         w \<leftarrow> get_byte bs 0;
         h \<leftarrow> get_byte bs 1;
         let MaxX = X0 + ucast w;
         if sint X0 mod 8 \<noteq> 0 \<or> uint w mod 8 \<noteq> 0 then do {
           let BitmapWidth = (uint w + 7) div 8 * 8;
           draw_rows Color X0 MaxX (drop 2 bs) (nat (BitmapWidth div 8))
             (\<lambda>Y. sint (to16 (int Y * BitmapWidth div 8))) [0..<unat h] Y0 img
         }
         else
           copy_rows Color (\<lambda>j Tmp. j + int Tmp < int LCD_BUFFER_SIZE \<and> sint (X0 + 8 * of_nat Tmp) < LCD_WIDTH \<and>
               sint (X0 + 8 * of_nat Tmp) \<ge> 0)
             (nat (uint w div 8)) (drop 2 bs) 0 (to16 (uint w div 8)) (unat h) 0 (lcd_index X0 Y0) img
       })"

subsection \<open>The screen\<close>

text \<open>\<open>PixelTab\<close>: the byte of the frame buffer that shows three pixels.\<close>

definition PixelTab :: "UBYTE list" where
  "PixelTab = [0x00, 0xE0, 0x1C, 0xFC, 0x03, 0xE3, 0x1F, 0xFF]"

fun triples :: "nat \<Rightarrow> ULONG \<Rightarrow> UBYTE list" where
  "triples 0 Pixels = []"
| "triples (Suc n) Pixels = PixelTab ! unat (Pixels AND 7) # triples n (drop_bit 3 Pixels)"

definition three_bytes :: "UBYTE list \<Rightarrow> nat \<Rightarrow> ULONG" where
  "three_bytes r k = ucast (r ! k) OR push_bit 8 (ucast (r ! (k + 1))) OR push_bit 16 (ucast (r ! (k + 2)))"

definition convert_row :: "UBYTE list \<Rightarrow> UBYTE list" where
  "convert_row r = concat (map (\<lambda>X. triples 8 (three_bytes r (3 * X))) [0..<7]) @
     triples 4 (ucast (r ! 21) OR push_bit 8 (ucast (r ! 22)))"

definition convert_image :: "image \<Rightarrow> UBYTE list" where
  "convert_image img = concat (map (\<lambda>Y. convert_row (take 23 (drop (23 * Y) img))) [0..<nat LCD_HEIGHT])"

datatype COLOR = BLACK | WHITE

definition fb_color :: "UBYTE list \<Rightarrow> nat \<Rightarrow> nat \<Rightarrow> COLOR" where
  "fb_color vmem x y =
     (let offset = x mod 3; mask = (if offset \<noteq> 0 then (if offset div 2 \<noteq> 0 then 0x1 else 0x8) else 0x80 :: UBYTE) in
      if vmem ! (x div 3 + y * 60) AND mask \<noteq> 0 then BLACK else WHITE)"

text \<open>The calls of \<open>grx_fast_draw_pixel\<close>, in their order.\<close>

definition update_to_fb :: "UBYTE list \<Rightarrow> (nat \<times> nat \<times> COLOR) list" where
  "update_to_fb vmem =
     concat (map (\<lambda>y. map (\<lambda>x. (x, y, fb_color vmem x y)) [0..<nat LCD_WIDTH]) [0..<nat LCD_HEIGHT])"

text \<open>The images and flags of \<open>VMInstance\<close> and \<open>UiInstance\<close> that the display uses.\<close>

record display =
  VmLcdBuffer :: image
  UiLcdBuffer :: image
  LcdUpdated :: DATA8
  AllowUpdate :: DATA8
  DisplayUpdate :: DATA8
  DisplayTimer :: ULONG
  Drawn :: "(nat \<times> nat \<times> COLOR) list"

definition dLcdExec :: "image \<Rightarrow> display \<Rightarrow> display" where
  "dLcdExec pDisp d =
     (if pDisp \<noteq> VmLcdBuffer d
      then d\<lparr>VmLcdBuffer := UiLcdBuffer d, LcdUpdated := 1, Drawn := Drawn d @ update_to_fb (convert_image pDisp)\<rparr>
      else d)"

definition dLcdAutoUpdate :: "display \<Rightarrow> display" where
  "dLcdAutoUpdate d =
     (if AllowUpdate d \<noteq> 0 \<and> DisplayUpdate d \<noteq> 0
      then (dLcdExec (UiLcdBuffer d) d)\<lparr>DisplayUpdate := 0, DisplayTimer := 0, AllowUpdate := 0\<rparr>
      else d)"

definition dLcdUpdate :: "image \<Rightarrow> display \<Rightarrow> display" where
  "dLcdUpdate pDisp d = dLcdAutoUpdate (d\<lparr>UiLcdBuffer := pDisp, DisplayUpdate := 1\<rparr>)"

end
