(* ===== verification/VM_Drawing.thy ===== *)
theory VM_Drawing
  imports Complex_Main VM_Lcd
begin

text \<open>
  What the drawing routines of \<open>VM_Lcd\<close> paint. An image shows a bit for each point; \<open>alters\<close>
  relates two images by what happens to each visible point. The locale \<open>plotter\<close> is the contract
  of a routine that changes one pixel, from which the rectangles are derived once; lines follow
  the ideal line within half a pixel, circles the ideal circle.
\<close>

subsection \<open>Images as pictures\<close>

definition shown :: "image \<Rightarrow> int \<Rightarrow> int \<Rightarrow> bool" where
  "shown img x y = bit (img ! nat (x div 8 + y * LCD_ROW)) (nat (x mod 8))"

definition is_lcd :: "image \<Rightarrow> bool" where
  "is_lcd img \<longleftrightarrow> length img = LCD_BUFFER_SIZE"

text \<open>The six columns of the buffer behind the right edge of the display stay as they are.\<close>

definition alters :: "(int \<times> int \<Rightarrow> bool \<Rightarrow> bool) \<Rightarrow> image \<Rightarrow> image \<Rightarrow> bool" where
  "alters f img img' \<longleftrightarrow> is_lcd img' \<and>
     (\<forall>x y. 0 \<le> x \<and> x < 8 * LCD_ROW \<and> 0 \<le> y \<and> y < LCD_HEIGHT \<longrightarrow>
        shown img' x y = (if x < LCD_WIDTH then f (x, y) (shown img x y) else shown img x y))"

definition paint :: "(int \<times> int) set \<Rightarrow> bool \<Rightarrow> int \<times> int \<Rightarrow> bool \<Rightarrow> bool" where
  "paint S c p b = (if p \<in> S then c else b)"

abbreviation paints :: "(int \<times> int) set \<Rightarrow> bool \<Rightarrow> image \<Rightarrow> image \<Rightarrow> bool" where
  "paints S c \<equiv> alters (paint S c)"

lemma alters_lcd: "alters f img img' \<Longrightarrow> is_lcd img'"
  by (simp add: alters_def)

lemma alters_refl: "is_lcd img \<Longrightarrow> (\<And>p b. f p b = b) \<Longrightarrow> alters f img img"
  by (simp add: alters_def)

lemma alters_trans:
  "alters f img img' \<Longrightarrow> alters g img' img'' \<Longrightarrow> (\<And>p b. h p b = g p (f p b)) \<Longrightarrow> alters h img img''"
  by (simp add: alters_def)

lemma alters_cong:
  "alters f img img' \<Longrightarrow> (\<And>x y b. 0 \<le> x \<Longrightarrow> x < LCD_WIDTH \<Longrightarrow> 0 \<le> y \<Longrightarrow> y < LCD_HEIGHT \<Longrightarrow> g (x, y) b = f (x, y) b) \<Longrightarrow>
    alters g img img'"
  by (simp add: alters_def)

lemma paints_refl: "is_lcd img \<Longrightarrow> paints {} c img img"
  by (rule alters_refl) (simp_all add: paint_def)

lemma paints_trans: "paints S c img img' \<Longrightarrow> paints T c img' img'' \<Longrightarrow> paints (S \<union> T) c img img''"
  by (erule (1) alters_trans) (auto simp: paint_def)

text \<open>On a display two images that show the same differ at most in the columns behind the edge.\<close>

lemma image_eqI:
  assumes "is_lcd img" "is_lcd img'"
    and "\<And>x y. 0 \<le> x \<Longrightarrow> x < 8 * LCD_ROW \<Longrightarrow> 0 \<le> y \<Longrightarrow> y < LCD_HEIGHT \<Longrightarrow> shown img x y = shown img' x y"
  shows "img = img'"
proof (rule nth_equalityI)
  show "length img = length img'" using assms(1,2) by (simp add: is_lcd_def)
  fix i assume i: "i < length img"
  show "img ! i = img' ! i"
  proof (rule bit_word_eqI)
    fix n assume n: "n < LENGTH(8)"
    let ?x = "int (8 * (i mod 23) + n)" and ?y = "int (i div 23)"
    have "?x div 8 = int (i mod 23)" "?x mod 8 = int n" using n by simp_all
    moreover have "int (i mod 23) + ?y * 23 = int i" using mod_div_mult_eq [of i 23] by linarith
    ultimately have "?x div 8 + ?y * 23 = int i" "?x mod 8 = int n" by simp_all
    moreover have "?y < 128" "?x < 8 * 23" using i n assms(1) by (auto simp: is_lcd_def lcd_consts)
    ultimately show "bit (img ! i) n = bit (img' ! i) n"
      using assms(3) [of ?x ?y] by (simp add: shown_def lcd_consts)
  qed
qed

subsection \<open>One pixel\<close>

lemma byte_index:
  assumes "0 \<le> x" "x < 8 * LCD_ROW" "0 \<le> y" "y < LCD_HEIGHT"
  shows "0 \<le> x div 8 + y * LCD_ROW" "x div 8 + y * LCD_ROW < int LCD_BUFFER_SIZE"
  using assms by (auto simp: lcd_consts)

lemma same_byte:
  assumes "0 \<le> x" "x < 8 * LCD_ROW" "0 \<le> x'" "x' < 8 * LCD_ROW"
  shows "x div 8 + y * LCD_ROW = x' div 8 + y' * LCD_ROW \<longleftrightarrow> x div 8 = x' div 8 \<and> y = y'"
proof
  assume eq: "x div 8 + y * LCD_ROW = x' div 8 + y' * LCD_ROW"
  have "0 \<le> x div 8" "x div 8 < 23" "0 \<le> x' div 8" "x' div 8 < 23" using assms by (auto simp: lcd_consts)
  moreover have "x div 8 + y * 23 = x' div 8 + y' * 23" using eq by (simp add: lcd_consts)
  moreover have "a = b \<and> y = y'" if "0 \<le> a" "a < 23" "0 \<le> b" "b < 23" "a + y * 23 = b + y' * 23" for a b :: int
    using that by presburger
  ultimately show "x div 8 = x' div 8 \<and> y = y'" by blast
qed simp

lemma store_bit:
  assumes lcd: "is_lcd img" and on: "on_lcd X Y" and b: "\<And>n. n < 8 \<Longrightarrow> bit (w (img ! nat (pixel_byte X Y))) n =
      (if n = nat (sint X mod 8) then f (bit (img ! nat (pixel_byte X Y)) n) else bit (img ! nat (pixel_byte X Y)) n)"
  shows "\<exists>img'. (do { b \<leftarrow> get_byte img (pixel_byte X Y); put_byte img (pixel_byte X Y) (w b) }) = Some img' \<and>
    alters (\<lambda>p b. if p = (sint X, sint Y) then f b else b) img img'"
proof -
  let ?i = "pixel_byte X Y"
  have X: "0 \<le> sint X" "sint X < LCD_WIDTH" "sint X < 8 * LCD_ROW" "0 \<le> sint Y" "sint Y < LCD_HEIGHT"
    using on by (auto simp: on_lcd_def lcd_consts)
  have i: "0 \<le> ?i" "?i < int (length img)"
    using byte_index [OF X(1,3,4,5)] lcd by (simp_all add: pixel_byte_def is_lcd_def)
  have "shown (img[nat ?i := w (img ! nat ?i)]) x y = (if x < LCD_WIDTH then if (x, y) = (sint X, sint Y) then f (shown img x y) else shown img x y else shown img x y)"
    if "0 \<le> x" "x < 8 * LCD_ROW" "0 \<le> y" "y < LCD_HEIGHT" for x y
  proof (cases "x div 8 = sint X div 8 \<and> y = sint Y")
    case True
    then have "x mod 8 = sint X mod 8 \<longleftrightarrow> x = sint X" by presburger
    moreover have "nat (x mod 8) < 8" by simp
    moreover have "nat (x mod 8) = nat (sint X mod 8) \<longleftrightarrow> x mod 8 = sint X mod 8" by (rule eq_nat_nat_iff) simp_all
    ultimately show ?thesis
      using True X(2) i b [of "nat (x mod 8)"] by (auto simp: shown_def pixel_byte_def)
  next
    case False
    then have "x div 8 + y * LCD_ROW \<noteq> ?i"
      unfolding pixel_byte_def using same_byte [OF that(1,2) X(1,3), of y "sint Y"] by blast
    then have "nat (x div 8 + y * LCD_ROW) \<noteq> nat ?i"
      using eq_nat_nat_iff [OF byte_index(1) [OF that] i(1)] by simp
    with False show ?thesis by (auto simp: shown_def)
  qed
  then show ?thesis using i lcd by (simp add: get_byte_def put_byte_def alters_def is_lcd_def)
qed

text \<open>A routine that changes at most one pixel.\<close>

locale plotter =
  fixes plot :: "DATA16 \<Rightarrow> DATA16 \<Rightarrow> image \<Rightarrow> image option" and f :: "bool \<Rightarrow> bool"
  assumes plot: "is_lcd img \<Longrightarrow> \<exists>img'. plot X Y img = Some img' \<and> alters (\<lambda>p b. if p = (sint X, sint Y) then f b else b) img img'"

lemma outside_pixel:
  "is_lcd img \<Longrightarrow> \<not> on_lcd X Y \<Longrightarrow> alters (\<lambda>p b. if p = (sint X, sint Y) then f b else b) img img"
  by (auto simp: alters_def on_lcd_def)

interpretation draw: plotter "dLcdDrawPixel C" "\<lambda>_. C \<noteq> 0" for C
proof
  fix img :: image and X Y :: DATA16 assume img: "is_lcd img"
  show "\<exists>img'. dLcdDrawPixel C X Y img = Some img' \<and> alters (\<lambda>p b. if p = (sint X, sint Y) then C \<noteq> 0 else b) img img'"
  proof (cases "on_lcd X Y")
    case True
    show ?thesis unfolding dLcdDrawPixel_def if_P [OF True]
      by (rule store_bit [OF img True])
        (auto simp: pixel_mask_def bit_simps)
  qed (use outside_pixel [OF img] in \<open>simp add: dLcdDrawPixel_def\<close>)
qed

interpretation inverse: plotter dLcdInversePixel Not
proof
  fix img :: image and X Y :: DATA16 assume img: "is_lcd img"
  show "\<exists>img'. dLcdInversePixel X Y img = Some img' \<and> alters (\<lambda>p b. if p = (sint X, sint Y) then \<not> b else b) img img'"
  proof (cases "on_lcd X Y")
    case True
    show ?thesis unfolding dLcdInversePixel_def if_P [OF True]
      by (rule store_bit [OF img True]) (auto simp: pixel_mask_def bit_simps)
  qed (use outside_pixel [OF img] in \<open>simp add: dLcdInversePixel_def\<close>)
qed

lemma draw_paints: "is_lcd img \<Longrightarrow> \<exists>img'. dLcdDrawPixel C X Y img = Some img' \<and> paints {(sint X, sint Y)} (C \<noteq> 0) img img'"
  using draw.plot [of img C X Y] by (simp add: paint_def [abs_def])

lemma read_pixel:
  assumes "is_lcd img"
  shows "dLcdReadPixel X Y img = Some (if on_lcd X Y \<and> shown img (sint X) (sint Y) then 1 else 0)"
proof (cases "on_lcd X Y")
  case True
  then have X: "0 \<le> sint X" "sint X < 8 * LCD_ROW" "0 \<le> sint Y" "sint Y < LCD_HEIGHT"
    by (auto simp: on_lcd_def lcd_consts)
  have "b AND pixel_mask X \<noteq> 0 \<longleftrightarrow> bit b (nat (sint X mod 8))" for b :: UBYTE
  proof -
    have k: "nat (sint X mod 8) < 8" by simp
    have "bit (b AND pixel_mask X) n \<longleftrightarrow> n = nat (sint X mod 8) \<and> bit b n" for n
      using k by (auto simp: pixel_mask_def bit_simps)
    then show ?thesis using k unfolding bit_eq_iff [of "b AND pixel_mask X"] by simp
  qed
  with True byte_index [OF X] assms show ?thesis
    by (simp add: dLcdReadPixel_def get_byte_def pixel_byte_def shown_def is_lcd_def)
qed (simp add: dLcdReadPixel_def)

subsection \<open>Rectangles\<close>

lemma sint_sum:
  fixes x y :: "'a::len word"
  assumes "- (2 ^ (LENGTH('a) - 1)) \<le> sint x + sint y" "sint x + sint y < 2 ^ (LENGTH('a) - 1)"
  shows "sint (x + y) = sint x + sint y"
proof -
  have "x + y = word_of_int (sint x + sint y)" by simp
  then show ?thesis using sint_of_int_range [OF assms] by simp
qed

lemma sint_diff:
  fixes x y :: "'a::len word"
  assumes "- (2 ^ (LENGTH('a) - 1)) \<le> sint x - sint y" "sint x - sint y < 2 ^ (LENGTH('a) - 1)"
  shows "sint (x - y) = sint x - sint y"
proof -
  have "x - y = word_of_int (sint x - sint y)" by simp
  then show ?thesis using sint_of_int_range [OF assms] by simp
qed

lemma sint_Suc16: "sint x < sint m \<Longrightarrow> sint (x + 1) = sint x + 1" for x m :: DATA16
  using sint_sum [of x 1] sint16_range(1) [of x] sint16_range(2) [of m] by simp

lemma for_upto_invariant:
  assumes step: "\<And>x s. sint x < sint m \<Longrightarrow> Q (sint x) s \<Longrightarrow> \<exists>s'. f x s = Some s' \<and> Q (sint x + 1) s'"
    and "Q (sint x) s"
  shows "\<exists>s'. for_upto f x m s = Some s' \<and> Q (max (sint x) (sint m)) s'"
  using assms(2)
proof (induction "nat (sint m - sint x)" arbitrary: x s)
  case 0
  then show ?case by (subst for_upto.simps) (simp add: max_def)
next
  case (Suc n)
  then have lt: "sint x < sint m" by simp
  obtain s' where s': "f x s = Some s'" "Q (sint (x + 1)) s'"
    using step [OF lt Suc.prems] sint_Suc16 [OF lt] by auto
  have "n = nat (sint m - sint (x + 1))" using Suc.hyps(2) sint_Suc16 [OF lt] by simp
  from Suc.hyps(1) [OF this s'(2)] show ?case
    using lt s'(1) sint_Suc16 [OF lt] by (subst for_upto.simps) (simp add: max_def)
qed

definition box :: "int \<Rightarrow> int \<Rightarrow> int \<Rightarrow> int \<Rightarrow> (int \<times> int) set" where
  "box x x' y y' = {x..<x'} \<times> {y..<y'}"

context plotter
begin

lemma row:
  assumes "is_lcd img"
  shows "\<exists>img'. for_upto (\<lambda>X. plot X Y) a b img = Some img' \<and>
    alters (\<lambda>p v. if p \<in> box (sint a) (sint b) (sint Y) (sint Y + 1) then f v else v) img img'"
proof -
  let ?Q = "\<lambda>k. alters (\<lambda>p v. if p \<in> box (sint a) k (sint Y) (sint Y + 1) then f v else v) img"
  have "\<exists>img'. for_upto (\<lambda>X. plot X Y) a b img = Some img' \<and> sint a \<le> max (sint a) (sint b) \<and> ?Q (max (sint a) (sint b)) img'"
  proof (rule for_upto_invariant [of b "\<lambda>k v. sint a \<le> k \<and> ?Q k v"])
    show "sint a \<le> sint a \<and> ?Q (sint a) img" using alters_refl [OF assms] by (simp add: box_def)
  next
    fix X :: DATA16 and v assume v: "sint a \<le> sint X \<and> ?Q (sint X) v"
    then obtain w where w: "plot X Y v = Some w" "alters (\<lambda>p b. if p = (sint X, sint Y) then f b else b) v w"
      using plot [OF alters_lcd] by blast
    have "?Q (sint X + 1) w"
      by (rule alters_trans [OF conjunct2 [OF v] w(2)]) (use v in \<open>auto simp: box_def\<close>)
    with w(1) v show "\<exists>w. plot X Y v = Some w \<and> sint a \<le> sint X + 1 \<and> ?Q (sint X + 1) w" by auto
  qed
  then show ?thesis by (cases "sint a \<le> sint b") (auto simp: box_def max_def)
qed

lemma rectangle:
  assumes "is_lcd img"
  shows "\<exists>img'. for_upto (\<lambda>Y. for_upto (\<lambda>X. plot X Y) a b) c d img = Some img' \<and>
    alters (\<lambda>p v. if p \<in> box (sint a) (sint b) (sint c) (sint d) then f v else v) img img'"
proof -
  let ?Q = "\<lambda>k. alters (\<lambda>p v. if p \<in> box (sint a) (sint b) (sint c) k then f v else v) img"
  have "\<exists>img'. for_upto (\<lambda>Y. for_upto (\<lambda>X. plot X Y) a b) c d img = Some img' \<and>
      sint c \<le> max (sint c) (sint d) \<and> ?Q (max (sint c) (sint d)) img'"
  proof (rule for_upto_invariant [of d "\<lambda>k v. sint c \<le> k \<and> ?Q k v"])
    show "sint c \<le> sint c \<and> ?Q (sint c) img" using alters_refl [OF assms] by (simp add: box_def)
  next
    fix Y :: DATA16 and v assume v: "sint c \<le> sint Y \<and> ?Q (sint Y) v"
    then obtain w where w: "for_upto (\<lambda>X. plot X Y) a b v = Some w"
        "alters (\<lambda>p v. if p \<in> box (sint a) (sint b) (sint Y) (sint Y + 1) then f v else v) v w"
      using row [OF alters_lcd] by blast
    have "?Q (sint Y + 1) w"
      by (rule alters_trans [OF conjunct2 [OF v] w(2)]) (use v in \<open>auto simp: box_def\<close>)
    with w(1) v show "\<exists>w. for_upto (\<lambda>X. plot X Y) a b v = Some w \<and> sint c \<le> sint Y + 1 \<and> ?Q (sint Y + 1) w" by auto
  qed
  then show ?thesis by (cases "sint c \<le> sint d") (auto simp: box_def max_def)
qed

end

text \<open>C29: \<open>dLcdFillRect\<close> gives the colour to the visible points of the rectangle and to no
  others; \<open>dLcdInverseRect\<close> twice restores the image. Both return for all arguments, also where
  the sums of 16 bits wrap around.\<close>

theorem lcd_rectangles:
  assumes "is_lcd img"
  shows "(\<exists>img'. dLcdFillRect C X0 Y0 X1 Y1 img = Some img' \<and>
      paints (box (sint X0) (sint (X0 + X1)) (sint Y0) (sint (Y0 + Y1))) (C \<noteq> 0) img img') \<and>
    (\<exists>img'. dLcdInverseRect X0 Y0 X1 Y1 img = Some img' \<and>
      alters (\<lambda>p b. if p \<in> box (sint X0) (sint (X0 + X1)) (sint Y0) (sint (Y0 + Y1)) then \<not> b else b) img img' \<and>
      dLcdInverseRect X0 Y0 X1 Y1 img' = Some img)"
proof
  show "\<exists>img'. dLcdFillRect C X0 Y0 X1 Y1 img = Some img' \<and>
      paints (box (sint X0) (sint (X0 + X1)) (sint Y0) (sint (Y0 + Y1))) (C \<noteq> 0) img img'"
    using draw.rectangle [OF assms] by (simp add: dLcdFillRect_def paint_def [abs_def])
  let ?f = "\<lambda>p b. if p \<in> box (sint X0) (sint (X0 + X1)) (sint Y0) (sint (Y0 + Y1)) then \<not> b else b"
  obtain v where v: "dLcdInverseRect X0 Y0 X1 Y1 img = Some v" "alters ?f img v"
    using inverse.rectangle [OF assms] unfolding dLcdInverseRect_def by blast
  obtain w where w: "dLcdInverseRect X0 Y0 X1 Y1 v = Some w" "alters ?f v w"
    using inverse.rectangle [OF alters_lcd [OF v(2)]] unfolding dLcdInverseRect_def by blast
  have "w = img"
    by (rule image_eqI) (use assms v(2) w(2) in \<open>auto simp: alters_def\<close>)
  with v w(1) show "\<exists>img'. dLcdInverseRect X0 Y0 X1 Y1 img = Some img' \<and> alters ?f img img' \<and>
      dLcdInverseRect X0 Y0 X1 Y1 img' = Some img" by blast
qed

subsection \<open>Lines\<close>

text \<open>Between the point \<open>(i, j)\<close> and the ideal line from \<open>(0, 0)\<close> to \<open>(dx, dy)\<close>.\<close>

definition err :: "int \<Rightarrow> int \<Rightarrow> int \<Rightarrow> int \<Rightarrow> int" where
  "err dx dy i j = dx * j - dy * i"

definition near :: "int \<Rightarrow> int \<Rightarrow> int \<Rightarrow> int \<Rightarrow> bool" where
  "near dx dy i j \<longleftrightarrow> 0 \<le> i \<and> i \<le> dx \<and> 0 \<le> j \<and> j \<le> dy \<and> \<bar>2 * err dx dy i j\<bar> \<le> max dx dy"

definition major :: "int \<Rightarrow> int \<Rightarrow> int \<Rightarrow> int \<Rightarrow> int" where
  "major dx dy i j = (if dy \<le> dx then i else j)"

text \<open>One round of the loop, in integers: the major coordinate advances by one, and the point stays
  near the line.\<close>

lemma line_step:
  assumes near: "near dx dy i j" and more: "i \<noteq> dx \<or> j \<noteq> dy"
    and D: "D = dx * (1 + j) - dy * (1 + i)"
    and i': "i' = (if 2 * D > - dy then i + 1 else i)" and j': "j' = (if 2 * D < dx then j + 1 else j)"
  shows "near dx dy i' j'" "major dx dy i' j' = major dx dy i j + 1"
proof -
  let ?E = "err dx dy i j"
  have DE: "D = ?E + dx - dy" by (simp add: D err_def algebra_simps)
  have b: "0 \<le> i" "i \<le> dx" "0 \<le> j" "j \<le> dy" "\<bar>2 * ?E\<bar> \<le> max dx dy" using near by (auto simp: near_def)
  have E': "err dx dy i' j' = ?E - (if 2 * D > - dy then dy else 0) + (if 2 * D < dx then dx else 0)"
    by (simp add: i' j' err_def algebra_simps)
  have i_end: "?E \<le> - dx" if "i = dx" "j < dy"
  proof -
    have "?E = - (dx * (dy - j))" using that by (simp add: err_def algebra_simps)
    moreover have "dx * 1 \<le> dx * (dy - j)" using that b by (intro mult_left_mono) auto
    ultimately show ?thesis by simp
  qed
  have j_end: "dy \<le> ?E" if "j = dy" "i < dx"
  proof -
    have "?E = dy * (dx - i)" using that by (simp add: err_def algebra_simps)
    moreover have "dy * 1 \<le> dy * (dx - i)" using that b by (intro mult_left_mono) auto
    ultimately show ?thesis by simp
  qed
  have diag: "?E = 0" if "dx = dy" "0 < dx"
  proof -
    have "?E = dx * (j - i)" using that by (simp add: err_def algebra_simps)
    moreover have "\<bar>dx * (j - i)\<bar> < dx" using b(5) that calculation by simp
    then have "\<bar>j - i\<bar> < 1" using that by (simp add: abs_mult)
    ultimately show ?thesis by simp
  qed
  have pos: "0 < max dx dy" using more b by auto
  have x: "2 * D > - dy" if "dy \<le> dx"
    using that DE b(5) diag pos by (cases "dx = dy") auto
  have y: "2 * D < dx" if "dx < dy"
    using that DE b(5) by auto
  have "i' \<le> dx"
  proof (cases "i = dx")
    case True
    then have "j < dy" using more b by simp
    with True show ?thesis using i_end DE b by (simp add: i')
  qed (use b i' in auto)
  moreover have "j' \<le> dy"
  proof (cases "j = dy")
    case True
    then have "i < dx" using more b by simp
    with True show ?thesis using j_end DE b by (simp add: j')
  qed (use b j' in auto)
  moreover have "\<bar>2 * err dx dy i' j'\<bar> \<le> max dx dy"
    unfolding E' using b(5) x y DE b(1-4) by (auto simp: max_def split: if_splits)
  ultimately show "near dx dy i' j'" using b by (simp add: near_def i' j')
  show "major dx dy i' j' = major dx dy i j + 1"
    using x y by (simp add: major_def i' j')
qed

lemma near_bound: "near dx dy i j \<Longrightarrow> \<bar>2 * (dx * (1 + j) - dy * (1 + i))\<bar> \<le> 3 * max dx dy"
proof -
  assume "near dx dy i j"
  moreover have "dx * (1 + j) - dy * (1 + i) = err dx dy i j + dx - dy" by (simp add: err_def algebra_simps)
  ultimately show ?thesis by (auto simp: near_def)
qed

lemma sint_double: "- 1073741824 \<le> sint D \<Longrightarrow> sint D < 1073741824 \<Longrightarrow> sint (push_bit 1 D) = 2 * sint D" for D :: DATA32
  using sint_sum [of D D] by (simp add: push_bit_eq_mult mult.commute)

text \<open>One coordinate of a line from \<open>a\<close>: its length is \<open>d\<close>, it goes in the direction \<open>s\<close>.\<close>

definition leg :: "int \<Rightarrow> int \<Rightarrow> int \<Rightarrow> DATA32 \<Rightarrow> DATA16 \<Rightarrow> DATA16 \<Rightarrow> bool" where
  "leg a s d L I X1 \<longleftrightarrow> - 32768 \<le> a \<and> a \<le> 32767 \<and> 0 \<le> d \<and> d \<le> 65535 \<and> (s = 1 \<or> s = - 1) \<and>
     sint L = d \<and> sint I = s \<and> sint X1 = a + s * d"

lemma leg_extent:
  assumes "extent X0 X1 = (L, I)"
  shows "leg (sint X0) (sint I) \<bar>sint X1 - sint X0\<bar> L I X1"
proof -
  have s: "sint (scast X :: DATA32) = sint X" for X :: DATA16 by (simp add: sint_up_scast is_up)
  have "sint (scast X - scast Y :: DATA32) = sint X - sint Y" for X Y :: DATA16
    using sint_diff [of "scast X :: DATA32" "scast Y"] sint16_range [of X] sint16_range [of Y] by (simp add: s)
  with assms sint16_range [of X0] sint16_range [of X1] show ?thesis
    by (auto simp: extent_def leg_def split: if_splits)
qed

lemma leg_inc:
  assumes leg: "leg a s d L I X1" and X: "sint X = a + s * i" "0 \<le> i" and i': "i' = (if c then i + 1 else i)" "i' \<le> d"
  shows "sint (if c then X + I else X) = a + s * i'"
proof (cases c)
  case True
  then have "i + 1 \<le> d" "sint I = s" using i' leg by (auto simp: leg_def)
  moreover from this have "sint X + sint I = a + s * i'" using True X i' by (simp add: algebra_simps)
  moreover have "- 32768 \<le> a + s * i'" "a + s * i' \<le> 32767"
    using leg X(2) True i' sint16_range [of X1] by (auto simp: leg_def)
  ultimately show ?thesis using True sint_sum [of X I] by simp
qed (use X i' in simp)

lemma sint_inj: "sint a = sint b \<Longrightarrow> a = b"
  by (rule signed_word_eqI)

lemma leg_end: "leg a s d L I X1 \<Longrightarrow> sint X = a + s * i \<Longrightarrow> X = X1 \<longleftrightarrow> i = d"
  using sint_inj [of X X1] by (auto simp: leg_def)

text \<open>The points of a path: \<open>h k\<close> is where the line is when its major coordinate is \<open>k\<close>.\<close>

definition path :: "int \<Rightarrow> int \<Rightarrow> int \<Rightarrow> (int \<Rightarrow> int \<times> int) \<Rightarrow> bool" where
  "path dx dy m h \<longleftrightarrow> h (max dx dy) = (dx, dy) \<and>
     (\<forall>k. m \<le> k \<and> k \<le> max dx dy \<longrightarrow> near dx dy (fst (h k)) (snd (h k)) \<and> major dx dy (fst (h k)) (snd (h k)) = k)"

definition points :: "int \<Rightarrow> int \<Rightarrow> int \<Rightarrow> int \<Rightarrow> (int \<Rightarrow> int \<times> int) \<Rightarrow> int set \<Rightarrow> (int \<times> int) set" where
  "points a b sx sy h K = (\<lambda>k. (a + sx * fst (h k), b + sy * snd (h k))) ` K"

lemma line_advance:
  assumes x: "leg a sx dx XL XI X1" and y: "leg b sy dy YL YI Y1"
    and near: "near dx dy i j" and XY: "sint X0 = a + sx * i" "sint Y0 = b + sy * j"
    and D: "sint Diff = dx * (1 + j) - dy * (1 + i)" and more: "X0 \<noteq> X1 \<or> Y0 \<noteq> Y1"
  obtains i' j' X Y D' where "line_next XL YL XI YI Diff X0 Y0 = (D', X, Y)"
    "near dx dy i' j'" "major dx dy i' j' = major dx dy i j + 1" "major dx dy i j + 1 \<le> max dx dy"
    "sint X = a + sx * i'" "sint Y = b + sy * j'" "sint D' = dx * (1 + j') - dy * (1 + i')"
proof -
  let ?D = "dx * (1 + j) - dy * (1 + i)"
  define cx cy where "cx = (2 * ?D > - dy)" and "cy = (2 * ?D < dx)"
  define i' j' where "i' = (if cx then i + 1 else i)" and "j' = (if cy then j + 1 else j)"
  have "i \<noteq> dx \<or> j \<noteq> dy" using more leg_end [OF x XY(1)] leg_end [OF y XY(2)] by simp
  then have near': "near dx dy i' j'" and m: "major dx dy i' j' = major dx dy i j + 1"
    using line_step [OF near _ refl, of i' j'] by (auto simp: i'_def j'_def cx_def cy_def)
  have d: "0 \<le> dx" "dx \<le> 65535" "0 \<le> dy" "dy \<le> 65535" "sint XL = dx" "sint YL = dy"
    using x y by (auto simp: leg_def)
  have ij: "0 \<le> i" "0 \<le> j" "i' \<le> dx" "j' \<le> dy" using near near' by (auto simp: near_def)
  have small: "\<bar>2 * ?D\<bar> \<le> 196605" using near_bound [OF near] d by (auto simp: max_def split: if_splits)
  have neg: "sint (- YL) = - dy" using sint_diff [of 0 YL] d by simp
  have conds: "sint (push_bit 1 Diff) > sint (- YL) \<longleftrightarrow> cx" "sint (push_bit 1 Diff) < sint XL \<longleftrightarrow> cy"
    using sint_double [of Diff] small D neg d(5) by (auto simp: cx_def cy_def)
  define X Y where "X = (if cx then X0 + XI else X0)" and "Y = (if cy then Y0 + YI else Y0)"
  define D1 where "D1 = (if cx then Diff - YL else Diff)"
  define D2 where "D2 = (if cy then D1 + XL else D1)"
  have D1: "sint D1 = ?D - (if cx then dy else 0)"
    using sint_diff [of Diff YL] small D d by (auto simp: D1_def)
  have "sint D2 = ?D - (if cx then dy else 0) + (if cy then dx else 0)"
    using sint_sum [of D1 XL] small D1 d by (auto simp: D2_def split: if_splits)
  then have D2: "sint D2 = dx * (1 + j') - dy * (1 + i')"
    by (cases cx; cases cy) (simp_all add: i'_def j'_def algebra_simps)
  have X: "sint X = a + sx * i'" unfolding X_def by (rule leg_inc [OF x XY(1) ij(1) i'_def ij(3)])
  have Y: "sint Y = b + sy * j'" unfolding Y_def by (rule leg_inc [OF y XY(2) ij(2) j'_def ij(4)])
  have le: "major dx dy i j + 1 \<le> max dx dy" using m ij by (auto simp: major_def split: if_splits)
  have "line_next XL YL XI YI Diff X0 Y0 = (D2, X, Y)"
    using conds by (cases cx; cases cy; simp add: line_next_def X_def Y_def D1_def D2_def)
  then show thesis using near' m le X Y D2 by (rule that)
qed

lemma line_loop_run:
  assumes x: "leg a sx dx XL XI X1" and y: "leg b sy dy YL YI Y1"
    and "near dx dy i j" "sint X0 = a + sx * i" "sint Y0 = b + sy * j"
    and "sint Diff = dx * (1 + j) - dy * (1 + i)" "is_lcd img"
  shows "\<exists>img' h. line_loop C X1 Y1 XL YL XI YI Diff X0 Y0 img = Some img' \<and> h (major dx dy i j) = (i, j) \<and>
    path dx dy (major dx dy i j) h \<and> paints (points a b sx sy h {major dx dy i j <.. max dx dy}) (C \<noteq> 0) img img'"
  using assms(3-)
proof (induction "nat (max dx dy - major dx dy i j)" arbitrary: i j X0 Y0 Diff img rule: less_induct)
  case less
  note near = less.prems(1) and XY = less.prems(2,3) and D = less.prems(4) and img = less.prems(5)
  let ?m = "major dx dy i j"
  show ?case
  proof (cases "X0 \<noteq> X1 \<or> Y0 \<noteq> Y1")
    case False
    then have ij: "i = dx \<and> j = dy" using leg_end [OF x XY(1)] leg_end [OF y XY(2)] by simp
    then have "?m = max dx dy" by (simp add: major_def)
    then show ?thesis
      using False ij near paints_refl [OF img]
      by (intro exI [of _ img] exI [of _ "\<lambda>_. (dx, dy)"])
        (subst line_loop.simps, auto simp: path_def points_def major_def)
  next
    case True
    obtain i' j' X Y D' where nx: "line_next XL YL XI YI Diff X0 Y0 = (D', X, Y)"
        "near dx dy i' j'" "major dx dy i' j' = ?m + 1" "?m + 1 \<le> max dx dy"
        "sint X = a + sx * i'" "sint Y = b + sy * j'" "sint D' = dx * (1 + j') - dy * (1 + i')"
      using x y near XY D True by (rule line_advance)
    obtain v where v: "dLcdDrawPixel C X Y img = Some v" "paints {(sint X, sint Y)} (C \<noteq> 0) img v"
      using draw_paints [OF img] by blast
    have "nat (max dx dy - major dx dy i' j') < nat (max dx dy - ?m)" using nx(3,4) by simp
    from less.hyps [OF this nx(2,5,6,7) alters_lcd [OF v(2)]] obtain w h where
      w: "line_loop C X1 Y1 XL YL XI YI D' X Y v = Some w" "h (?m + 1) = (i', j')" "path dx dy (?m + 1) h"
        "paints (points a b sx sy h {?m + 1 <.. max dx dy}) (C \<noteq> 0) v w"
      unfolding nx(3) by blast
    let ?h = "h(?m := (i, j))"
    have "line_loop C X1 Y1 XL YL XI YI Diff X0 Y0 img = Some w"
      using True nx(1) v(1) w(1) by (subst line_loop.simps) simp
    moreover have "path dx dy ?m ?h"
      using w(3) near nx(4) by (auto simp: path_def)
    moreover have "{?m <.. max dx dy} = insert (?m + 1) {?m + 1 <.. max dx dy}" using nx(4) by auto
    then have "points a b sx sy ?h {?m <.. max dx dy} = {(sint X, sint Y)} \<union> points a b sx sy h {?m + 1 <.. max dx dy}"
      using w(2) nx(5,6) by (auto simp: points_def)
    then have "paints (points a b sx sy ?h {?m <.. max dx dy}) (C \<noteq> 0) img w"
      using paints_trans [OF v(2) w(4)] by simp
    ultimately show ?thesis by (intro exI [of _ w] exI [of _ ?h]) simp
  qed
qed

lemma line_run:
  assumes "is_lcd img"
  shows "\<exists>img' h. dLcdDrawLine C X0 Y0 X1 Y1 img = Some img' \<and>
    h 0 = (0, 0) \<and> path \<bar>sint X1 - sint X0\<bar> \<bar>sint Y1 - sint Y0\<bar> 0 h \<and>
    paints (points (sint X0) (sint Y0) (if sint X0 < sint X1 then 1 else - 1) (if sint Y0 < sint Y1 then 1 else - 1) h
      {0 .. max \<bar>sint X1 - sint X0\<bar> \<bar>sint Y1 - sint Y0\<bar>}) (C \<noteq> 0) img img'"
proof -
  let ?dx = "\<bar>sint X1 - sint X0\<bar>" and ?dy = "\<bar>sint Y1 - sint Y0\<bar>"
  obtain XL XI YL YI where e: "extent X0 X1 = (XL, XI)" "extent Y0 Y1 = (YL, YI)" by fastforce
  note x = leg_extent [OF e(1)] and y = leg_extent [OF e(2)]
  have s: "sint XI = (if sint X0 < sint X1 then 1 else - 1)" "sint YI = (if sint Y0 < sint Y1 then 1 else - 1)"
    using e by (auto simp: extent_def split: if_splits)
  obtain v where v: "dLcdDrawPixel C X0 Y0 img = Some v" "paints {(sint X0, sint Y0)} (C \<noteq> 0) img v"
    using draw_paints [OF assms] by blast
  have "sint (XL - YL) = ?dx - ?dy"
    using sint_diff [of XL YL] x y by (auto simp: leg_def)
  moreover have "near ?dx ?dy 0 0" by (simp add: near_def err_def)
  moreover have m: "major ?dx ?dy 0 0 = 0" by (simp add: major_def)
  ultimately obtain w h where w: "line_loop C X1 Y1 XL YL XI YI (XL - YL) X0 Y0 v = Some w" "h 0 = (0, 0)"
      "path ?dx ?dy 0 h" "paints (points (sint X0) (sint Y0) (sint XI) (sint YI) h {0 <.. max ?dx ?dy}) (C \<noteq> 0) v w"
    using line_loop_run [OF x y, of 0 0 X0 Y0 "XL - YL" v C] alters_lcd [OF v(2)] by auto
  have "{0 .. max ?dx ?dy} = insert 0 {0 <.. max ?dx ?dy}" by auto
  then have "points (sint X0) (sint Y0) (sint XI) (sint YI) h {0 .. max ?dx ?dy} =
      {(sint X0, sint Y0)} \<union> points (sint X0) (sint Y0) (sint XI) (sint YI) h {0 <.. max ?dx ?dy}"
    using w(2) by (simp add: points_def)
  then have "paints (points (sint X0) (sint Y0) (sint XI) (sint YI) h {0 .. max ?dx ?dy}) (C \<noteq> 0) img w"
    using paints_trans [OF v(2) w(4)] by simp
  with v(1) w e show ?thesis unfolding s by (auto simp: dLcdDrawLine_def)
qed

text \<open>C24: \<open>dLcdDrawLine\<close> returns for all coordinates and paints one point for each step of the
  longer of the two sides, from the first end to the second; each lies in the box of the two ends
  and is at most half a pixel away from the ideal line, measured along the shorter side.\<close>

theorem lcd_line:
  assumes "is_lcd img"
  shows "\<exists>img' h. dLcdDrawLine C X0 Y0 X1 Y1 img = Some img' \<and>
    (let dx = sint X1 - sint X0; dy = sint Y1 - sint Y0; n = max \<bar>dx\<bar> \<bar>dy\<bar> in
     paints (h ` {0..n}) (C \<noteq> 0) img img' \<and> h 0 = (sint X0, sint Y0) \<and> h n = (sint X1, sint Y1) \<and>
     (\<forall>k. 0 \<le> k \<and> k \<le> n \<longrightarrow> (case h k of (x, y) \<Rightarrow>
        (if \<bar>dy\<bar> \<le> \<bar>dx\<bar> then \<bar>x - sint X0\<bar> = k else \<bar>y - sint Y0\<bar> = k) \<and>
        min (sint X0) (sint X1) \<le> x \<and> x \<le> max (sint X0) (sint X1) \<and>
        min (sint Y0) (sint Y1) \<le> y \<and> y \<le> max (sint Y0) (sint Y1) \<and>
        2 * \<bar>dx * (y - sint Y0) - dy * (x - sint X0)\<bar> \<le> n)))"
proof -
  let ?dx = "sint X1 - sint X0" and ?dy = "sint Y1 - sint Y0"
  define sx sy :: int where "sx = (if sint X0 < sint X1 then 1 else - 1)" and "sy = (if sint Y0 < sint Y1 then 1 else - 1)"
  have s: "?dx = sx * \<bar>?dx\<bar>" "?dy = sy * \<bar>?dy\<bar>" "\<bar>sx\<bar> = 1" "\<bar>sy\<bar> = 1" "sx * sx = 1" "sy * sy = 1" by (auto simp: sx_def sy_def)
  obtain w g where w: "dLcdDrawLine C X0 Y0 X1 Y1 img = Some w" "g 0 = (0, 0)" "path \<bar>?dx\<bar> \<bar>?dy\<bar> 0 g"
      "paints (points (sint X0) (sint Y0) sx sy g {0 .. max \<bar>?dx\<bar> \<bar>?dy\<bar>}) (C \<noteq> 0) img w"
    using line_run [OF assms, of C X0 Y0 X1 Y1] unfolding sx_def sy_def by blast
  define h where "h k = (sint X0 + sx * fst (g k), sint Y0 + sy * snd (g k))" for k
  have each: "case h k of (x, y) \<Rightarrow>
        (if \<bar>?dy\<bar> \<le> \<bar>?dx\<bar> then \<bar>x - sint X0\<bar> = k else \<bar>y - sint Y0\<bar> = k) \<and>
        min (sint X0) (sint X1) \<le> x \<and> x \<le> max (sint X0) (sint X1) \<and>
        min (sint Y0) (sint Y1) \<le> y \<and> y \<le> max (sint Y0) (sint Y1) \<and>
        2 * \<bar>?dx * (y - sint Y0) - ?dy * (x - sint X0)\<bar> \<le> max \<bar>?dx\<bar> \<bar>?dy\<bar>"
    if k: "0 \<le> k" "k \<le> max \<bar>?dx\<bar> \<bar>?dy\<bar>" for k
  proof -
    obtain i j where g: "g k = (i, j)" by (cases "g k")
    have near: "near \<bar>?dx\<bar> \<bar>?dy\<bar> i j" and m: "major \<bar>?dx\<bar> \<bar>?dy\<bar> i j = k"
      using w(3) k g by (auto simp: path_def)
    have "?dx * (sy * j) - ?dy * (sx * i) = sx * sy * err \<bar>?dx\<bar> \<bar>?dy\<bar> i j"
      by (subst s(1), subst s(2)) (simp add: err_def algebra_simps)
    then have "\<bar>?dx * (sy * j) - ?dy * (sx * i)\<bar> = \<bar>err \<bar>?dx\<bar> \<bar>?dy\<bar> i j\<bar>"
      using s(3,4) by (simp add: abs_mult)
    moreover have "\<bar>sx * i\<bar> = i" "\<bar>sy * j\<bar> = j" using near s(3,4) by (auto simp: near_def abs_mult)
    moreover have "min (sint X0) (sint X1) \<le> sint X0 + sx * i" "sint X0 + sx * i \<le> max (sint X0) (sint X1)"
        "min (sint Y0) (sint Y1) \<le> sint Y0 + sy * j" "sint Y0 + sy * j \<le> max (sint Y0) (sint Y1)"
      using near by (auto simp: near_def sx_def sy_def)
    ultimately show ?thesis using near m by (auto simp: h_def g near_def major_def max_def split: if_splits)
  qed
  have "h 0 = (sint X0, sint Y0)" "h (max \<bar>?dx\<bar> \<bar>?dy\<bar>) = (sint X1, sint Y1)"
    using w(2,3) s(1,2) by (simp_all add: h_def path_def)
  moreover have "h ` {0 .. max \<bar>?dx\<bar> \<bar>?dy\<bar>} = points (sint X0) (sint Y0) sx sy g {0 .. max \<bar>?dx\<bar> \<bar>?dy\<bar>}"
    by (simp add: points_def h_def)
  ultimately show ?thesis using w(1,4) unfolding Let_def
    by (intro exI [of _ w] exI [of _ h] conjI allI impI) (simp_all only:, elim conjE, rule each)
qed

subsection \<open>Circles\<close>

lemma draw_then:
  assumes "paints S (C \<noteq> 0) img v"
    and "\<And>w. paints (insert (sint X, sint Y) S) (C \<noteq> 0) img w \<Longrightarrow> \<exists>u. k w = Some u \<and> Q u"
  shows "\<exists>u. Option.bind (dLcdDrawPixel C X Y v) k = Some u \<and> Q u"
proof -
  obtain w where "dLcdDrawPixel C X Y v = Some w" "paints {(sint X, sint Y)} (C \<noteq> 0) v w"
    using draw_paints [OF alters_lcd [OF assms(1)]] by blast
  moreover from paints_trans [OF assms(1) this(2)] have "paints (insert (sint X, sint Y) S) (C \<noteq> 0) img w" by simp
  ultimately show ?thesis using assms(2) [of w] by simp
qed

lemma draw_last:
  assumes "paints S (C \<noteq> 0) img v" and "insert (sint X, sint Y) S = T"
  shows "\<exists>w. dLcdDrawPixel C X Y v = Some w \<and> paints T (C \<noteq> 0) img w"
  using draw_then [OF assms(1), of X Y Some "paints T (C \<noteq> 0) img"] assms(2) by simp

text \<open>A point of one octant and its mirror images; the centre is added in 16 bits.\<close>

definition mirrored :: "DATA16 \<Rightarrow> DATA16 \<Rightarrow> int \<Rightarrow> int \<Rightarrow> (int \<times> int) set" where
  "mirrored X0 Y0 x y = (\<lambda>(a, b). (sint (X0 + to16 a), sint (Y0 + to16 b))) `
     ({x, - x} \<times> {y, - y} \<union> {y, - y} \<times> {x, - x})"

lemma plot_points:
  assumes "is_lcd img"
  shows "\<exists>img'. dLcdPlotPoints C X0 Y0 (to16 x) (to16 y) img = Some img' \<and> paints (mirrored X0 Y0 x y) (C \<noteq> 0) img img'"
  unfolding dLcdPlotPoints_def
  by (rule draw_then [OF paints_refl [OF assms]], (rule draw_then, assumption)+, rule draw_last, assumption)
    (auto simp: mirrored_def)

lemma path_flat: "path d 0 0 h \<Longrightarrow> 0 \<le> d \<Longrightarrow> 0 \<le> k \<Longrightarrow> k \<le> d \<Longrightarrow> h k = (k, 0)"
proof -
  assume "path d 0 0 h" "0 \<le> d" "0 \<le> k" "k \<le> d"
  then have "near d 0 (fst (h k)) (snd (h k))" "major d 0 (fst (h k)) (snd (h k)) = k" by (simp_all add: path_def)
  with \<open>0 \<le> d\<close> show "h k = (k, 0)" by (simp add: near_def major_def prod_eq_iff)
qed

text \<open>The horizontal lines that fill the circle.\<close>

lemma horizontal_line:
  assumes "is_lcd img"
  shows "\<exists>img'. dLcdDrawLine C X0 Y X1 Y img = Some img' \<and>
    paints (box (min (sint X0) (sint X1)) (max (sint X0) (sint X1) + 1) (sint Y) (sint Y + 1)) (C \<noteq> 0) img img'"
proof -
  let ?dx = "sint X1 - sint X0" and ?s = "if sint X0 < sint X1 then 1 else - 1 :: int"
  have d: "\<bar>sint Y - sint Y\<bar> = 0" "max \<bar>?dx\<bar> 0 = \<bar>?dx\<bar>" "(if sint Y < sint Y then 1 else - 1 :: int) = - 1" by simp_all
  obtain w h where w: "dLcdDrawLine C X0 Y X1 Y img = Some w" "path \<bar>?dx\<bar> 0 0 h"
      "paints (points (sint X0) (sint Y) ?s (- 1) h {0 .. \<bar>?dx\<bar>}) (C \<noteq> 0) img w"
    using line_run [OF assms, of C X0 Y X1 Y] unfolding d by blast
  have "h k = (k, 0)" if "k \<in> {0 .. \<bar>?dx\<bar>}" for k
    using w(2) that by (intro path_flat [of "\<bar>?dx\<bar>"]) simp_all
  then have "points (sint X0) (sint Y) ?s (- 1) h {0 .. \<bar>?dx\<bar>} = (\<lambda>k. (sint X0 + ?s * k, sint Y)) ` {0 .. \<bar>?dx\<bar>}"
    unfolding points_def by (intro image_cong) simp_all
  also have "\<dots> = (\<lambda>x. (x, sint Y)) ` (\<lambda>k. sint X0 + ?s * k) ` {0 .. \<bar>?dx\<bar>}" by (simp add: image_image)
  also have "(\<lambda>k. sint X0 + ?s * k) ` {0 .. \<bar>?dx\<bar>} = {min (sint X0) (sint X1) ..< max (sint X0) (sint X1) + 1}"
  proof (cases "sint X0 < sint X1")
    case True
    then show ?thesis using image_add_atLeastAtMost [of "sint X0" 0 ?dx] by auto
  next
    case False
    then show ?thesis using image_diff_atLeastAtMost [of "sint X0" 0 "- ?dx"] by auto
  qed
  also have "(\<lambda>x. (x, sint Y)) ` {min (sint X0) (sint X1) ..< max (sint X0) (sint X1) + 1} =
      box (min (sint X0) (sint X1)) (max (sint X0) (sint X1) + 1) (sint Y) (sint Y + 1)" by (auto simp: box_def)
  finally show ?thesis using w(1,3) by (intro exI [of _ w]) (simp only: simp_thms)
qed

definition chord :: "DATA16 \<Rightarrow> DATA16 \<Rightarrow> int \<Rightarrow> int \<Rightarrow> (int \<times> int) set" where
  "chord X0 Y0 x y = (let l = sint (X0 - to16 x); r = sint (X0 + to16 x); Y = sint (Y0 + to16 y) in
     box (min l r) (max l r + 1) Y (Y + 1))"

definition chords :: "DATA16 \<Rightarrow> DATA16 \<Rightarrow> int \<Rightarrow> int \<Rightarrow> (int \<times> int) set" where
  "chords X0 Y0 x y = chord X0 Y0 x y \<union> chord X0 Y0 x (- y) \<union> chord X0 Y0 y x \<union> chord X0 Y0 y (- x)"

lemma chord_then:
  assumes "paints S (C \<noteq> 0) img v"
    and "\<And>w. paints (S \<union> chord X0 Y0 x y) (C \<noteq> 0) img w \<Longrightarrow> \<exists>u. k w = Some u \<and> Q u"
  shows "\<exists>u. Option.bind (dLcdDrawLine C (X0 - to16 x) (Y0 + to16 y) (X0 + to16 x) (Y0 + to16 y) v) k = Some u \<and> Q u"
proof -
  obtain w where "dLcdDrawLine C (X0 - to16 x) (Y0 + to16 y) (X0 + to16 x) (Y0 + to16 y) v = Some w"
      "paints (chord X0 Y0 x y) (C \<noteq> 0) v w"
    using horizontal_line [OF alters_lcd [OF assms(1)]] unfolding chord_def Let_def by blast
  with paints_trans [OF assms(1)] assms(2) [of w] show ?thesis by simp
qed

lemma plot_lines:
  assumes "is_lcd img"
  shows "\<exists>img'. dLcdPlotLines C X0 Y0 (to16 x) (to16 y) img = Some img' \<and> paints (chords X0 Y0 x y) (C \<noteq> 0) img img'"
proof -
  have neg: "Y0 - to16 a = Y0 + to16 (- a)" for a by simp
  have "\<exists>img'. Option.bind (dLcdPlotLines C X0 Y0 (to16 x) (to16 y) img) Some = Some img' \<and> paints (chords X0 Y0 x y) (C \<noteq> 0) img img'"
    unfolding dLcdPlotLines_def neg bind_assoc
    by (rule chord_then [OF paints_refl [OF assms]], (rule chord_then, assumption)+)
      (simp add: chords_def Un_assoc)
  then show ?thesis by simp
qed

text \<open>The distance from the circle of radius \<open>R\<close>, in squares, and the decision variable.\<close>

definition off_circle :: "int \<Rightarrow> int \<Rightarrow> int \<Rightarrow> int" where
  "off_circle R x y = x * x + y * y - R * R"

definition circle_inv :: "int \<Rightarrow> int \<Rightarrow> int \<Rightarrow> bool" where
  "circle_inv R x y \<longleftrightarrow> 0 \<le> x \<and> x \<le> y + 1 \<and> 0 \<le> y \<and> y \<le> R \<and> (x \<le> y \<or> y < R) \<and> - y \<le> off_circle R x y \<and>
     off_circle R x y \<le> (if x < y then y else y + 1)"

lemma circle_step:
  assumes inv: "circle_inv R x y" and "x < y" and P: "P = off_circle R (x + 1) y + off_circle R (x + 1) (y - 1)"
    and y': "y' = (if P < 0 then y else y - 1)" and P': "P' = (if P < 0 then P + 4 * x + 6 else P + 4 * (x - y) + 10)"
  shows "circle_inv R (x + 1) y'" "P' = off_circle R (x + 1 + 1) y' + off_circle R (x + 1 + 1) (y' - 1)"
proof -
  let ?D = "off_circle R x y"
  have D: "off_circle R (x + 1) y = ?D + 2 * x + 1" "off_circle R (x + 1) (y - 1) = ?D + 2 * (x - y) + 2"
    by (simp_all add: off_circle_def algebra_simps)
  show "circle_inv R (x + 1) y'"
    using inv \<open>x < y\<close> P unfolding D by (cases "P < 0") (auto simp: circle_inv_def y' D)
  show "P' = off_circle R (x + 1 + 1) y' + off_circle R (x + 1 + 1) (y' - 1)"
    by (cases "P < 0") (simp_all add: P' y', simp_all add: P off_circle_def algebra_simps)
qed

text \<open>Then the distance from the circle itself is at most half a pixel.\<close>

definition half_pixel :: "int \<Rightarrow> int \<Rightarrow> int \<Rightarrow> bool" where
  "half_pixel R x y \<longleftrightarrow> \<bar>sqrt (real_of_int (x * x + y * y)) - real_of_int R\<bar> \<le> 1 / 2"

lemma half_pixelI:
  assumes "0 \<le> R" and "- R \<le> off_circle R x y" and "off_circle R x y \<le> R"
    and "0 < R \<Longrightarrow> off_circle R x y \<noteq> - R"
  shows "half_pixel R x y"
proof -
  have D: "real_of_int (x * x + y * y) = real_of_int R * real_of_int R + real_of_int (off_circle R x y)"
    by (simp add: off_circle_def)
  have "sqrt (real_of_int (x * x + y * y)) \<le> real_of_int R + 1 / 2"
  proof (rule real_le_lsqrt)
    show "0 \<le> real_of_int R + 1 / 2" using assms(1) by simp
    have "real_of_int (off_circle R x y) \<le> real_of_int R" using assms(3) by simp
    then show "real_of_int (x * x + y * y) \<le> (real_of_int R + 1 / 2)\<^sup>2"
      unfolding D by (simp add: power2_eq_square algebra_simps)
  qed
  moreover have "real_of_int R - 1 / 2 \<le> sqrt (real_of_int (x * x + y * y))"
  proof (cases "R = 0")
    case False
    then have "1 - R \<le> off_circle R x y" using assms by linarith
    then have "1 - real_of_int R \<le> real_of_int (off_circle R x y)" by linarith
    then show ?thesis
      by (intro real_le_rsqrt) (unfold D, simp add: power2_eq_square algebra_simps)
  next
    case True
    have "0 \<le> sqrt (real_of_int (x * x + y * y))" by simp
    then show ?thesis using True by linarith
  qed
  ultimately show ?thesis unfolding half_pixel_def by linarith
qed

lemma circle_near:
  assumes "circle_inv R x y"
  shows "half_pixel R x y"
proof -
  have i: "0 \<le> x" "x \<le> y + 1" "0 \<le> y" "y \<le> R" "x \<le> y \<or> y < R" "- y \<le> off_circle R x y"
      "off_circle R x y \<le> y + 1" "x < y \<Longrightarrow> off_circle R x y \<le> y"
    using assms by (auto simp: circle_inv_def split: if_splits)
  have top: "off_circle R x y = x * x" if "y = R" using that by (simp add: off_circle_def)
  have pos: "0 < R \<Longrightarrow> off_circle R x y \<noteq> - R"
  proof
    assume R: "0 < R" and D: "off_circle R x y = - R"
    then have "y = R" using i by linarith
    with top D R show False using zero_le_square [of x] by linarith
  qed
  have "off_circle R x y \<le> R"
  proof (cases "y < R")
    case True
    then show ?thesis using i by linarith
  next
    case False
    then have y: "y = R" using i by simp
    show ?thesis
    proof (cases "x < y")
      case True
      then show ?thesis using i y by simp
    next
      case False
      then have x: "x = R" using y i by auto
      have "R * R \<le> R + 1" using i(7) top [OF y] x y by simp
      moreover have "2 \<le> R \<Longrightarrow> 2 * R \<le> R * R" by (rule mult_right_mono) simp_all
      ultimately have "R < 2" by linarith
      then have "R = 0 \<or> R = 1" using i(3) y by linarith
      then show ?thesis using top [OF y] x by auto
    qed
  qed
  with pos show ?thesis using i by (intro half_pixelI) auto
qed

text \<open>An arc from \<open>(x, h x)\<close> to the diagonal: one point for each column.\<close>

definition arc :: "int \<Rightarrow> int \<Rightarrow> int \<Rightarrow> (int \<Rightarrow> int) \<Rightarrow> bool" where
  "arc R x n h \<longleftrightarrow> x \<le> n \<and> h n \<le> n \<and> (\<forall>k \<in> {x..n}. circle_inv R k (h k)) \<and>
     (\<forall>k \<in> {x..<n}. h (k + 1) = h k \<or> h (k + 1) = h k - 1)"

lemma arc_near: "arc R x n h \<Longrightarrow> \<forall>k \<in> {x..n}. half_pixel R k (h k)"
  by (simp add: arc_def circle_near)

lemma circle_run:
  assumes plot: "\<And>x y img. is_lcd img \<Longrightarrow> \<exists>img'. plot (to16 x) (to16 y) img = Some img' \<and> paints (S x y) c img img'"
    and "circle_inv R x y" "P = off_circle R (x + 1) y + off_circle R (x + 1) (y - 1)" "is_lcd img"
  shows "\<exists>img' n h. circle_loop plot x y P img = Some img' \<and> h x = y \<and> arc R x n h \<and>
    paints (\<Union>k \<in> {x..n}. S k (h k)) c img img'"
  using assms(2-)
proof (induction "nat (y - x)" arbitrary: x y P img rule: less_induct)
  case less
  obtain v where v: "plot (to16 x) (to16 y) img = Some v" "paints (S x y) c img v"
    using plot [OF less.prems(3)] by blast
  show ?case
  proof (cases "x < y")
    case False
    have "arc R x x (\<lambda>_. y)" using False less.prems(1) by (simp add: arc_def)
    with False v show ?thesis
      by (intro exI [of _ v] exI [of _ x] exI [of _ "\<lambda>_. y"]) (simp add: circle_loop.simps)
  next
    case True
    define y' where "y' = (if P < 0 then y else y - 1)"
    define P' where "P' = (if P < 0 then P + 4 * x + 6 else P + 4 * (x - y) + 10)"
    note step = circle_step [OF less.prems(1) True less.prems(2) y'_def P'_def]
    have "nat (y' - (x + 1)) < nat (y - x)" using True by (simp add: y'_def)
    from less.hyps [OF this step alters_lcd [OF v(2)]] obtain w n h where
      w: "circle_loop plot (x + 1) y' P' v = Some w" "h (x + 1) = y'" "arc R (x + 1) n h"
        "paints (\<Union>k \<in> {x + 1..n}. S k (h k)) c v w" by blast
    let ?h = "h(x := y)"
    have "circle_loop plot x y P img = Some w"
      using True v(1) w(1) by (subst circle_loop.simps) (simp add: y'_def P'_def split: if_splits)
    moreover have "arc R x n ?h"
      using w(2,3) less.prems(1) by (auto simp: arc_def y'_def)
    moreover have "{x..n} = insert x {x + 1..n}" using w(3) by (auto simp: arc_def)
    then have "(\<Union>k \<in> {x..n}. S k (?h k)) = S x y \<union> (\<Union>k \<in> {x + 1..n}. S k (h k))" by auto
    then have "paints (\<Union>k \<in> {x..n}. S k (?h k)) c img w" using paints_trans [OF v(2) w(4)] by simp
    ultimately show ?thesis by (intro exI [of _ w] exI [of _ n] exI [of _ ?h]) simp
  qed
qed

text \<open>C25: \<open>dLcdDrawCircle\<close> paints, in each column of an octant from the vertical to the
  diagonal, one point, and its seven mirror images, and nothing else. Every point lies within
  half a pixel of the circle of radius \<open>R\<close>, the first one on it; from one column to the next
  the ordinate stays or falls by one; the last point has reached the diagonal.
  \<open>dLcdDrawFilledCircle\<close> paints just the horizontal chords between such points. (Coordinates
  are computed in 16 bits and only visible points change.)\<close>

theorem lcd_circle:
  assumes "is_lcd img" and "0 \<le> sint R"
  shows "(\<exists>img' n h. dLcdDrawCircle C X0 Y0 R img = Some img' \<and> h 0 = sint R \<and> arc (sint R) 0 n h \<and>
      (\<forall>k \<in> {0..n}. half_pixel (sint R) k (h k)) \<and>
      paints (\<Union>k \<in> {0..n}. mirrored X0 Y0 k (h k)) (C \<noteq> 0) img img') \<and>
    (\<exists>img' n h. dLcdDrawFilledCircle C X0 Y0 R img = Some img' \<and> h 0 = sint R \<and> arc (sint R) 0 n h \<and>
      (\<forall>k \<in> {0..n}. half_pixel (sint R) k (h k)) \<and>
      paints (\<Union>k \<in> {0..n}. chords X0 Y0 k (h k)) (C \<noteq> 0) img img')"
proof -
  let ?R = "sint R"
  have inv: "circle_inv ?R 0 ?R" "3 - 2 * ?R = off_circle ?R (0 + 1) ?R + off_circle ?R (0 + 1) (?R - 1)"
    using assms(2) by (simp_all add: circle_inv_def off_circle_def algebra_simps)
  note run = circle_run [OF _ inv assms(1)]
  have 1: "\<exists>v n h. dLcdDrawCircle C X0 Y0 R img = Some v \<and> h 0 = ?R \<and> arc ?R 0 n h \<and>
      paints (\<Union>k \<in> {0..n}. mirrored X0 Y0 k (h k)) (C \<noteq> 0) img v"
    unfolding dLcdDrawCircle_def by (rule run, rule plot_points)
  have 2: "\<exists>v n h. dLcdDrawFilledCircle C X0 Y0 R img = Some v \<and> h 0 = ?R \<and> arc ?R 0 n h \<and>
      paints (\<Union>k \<in> {0..n}. chords X0 Y0 k (h k)) (C \<noteq> 0) img v"
    unfolding dLcdDrawFilledCircle_def by (rule run, rule plot_lines)
  show ?thesis
    using 1 2 arc_near by blast
qed

subsection \<open>Dotted lines and filled areas\<close>

text \<open>Only the visible points of an image may have changed.\<close>

definition redraws :: "image \<Rightarrow> image \<Rightarrow> bool" where
  "redraws img img' \<longleftrightarrow> (\<exists>f. alters f img img')"

lemma redrawsI: "alters f img img' \<Longrightarrow> redraws img img'"
  by (auto simp: redraws_def)

lemma redraws_refl: "is_lcd img \<Longrightarrow> redraws img img"
  using alters_refl [of img "\<lambda>_ b. b"] by (auto simp: redraws_def)

lemma redraws_trans: "redraws img img' \<Longrightarrow> redraws img' img'' \<Longrightarrow> redraws img img''"
proof -
  assume "redraws img img'" "redraws img' img''"
  then obtain f g where "alters f img img'" "alters g img' img''" by (auto simp: redraws_def)
  then have "alters (\<lambda>p b. g p (f p b)) img img''" by (rule alters_trans) (rule refl)
  then show "redraws img img''" by (rule redrawsI)
qed

lemma redraws_lcd: "redraws img img' \<Longrightarrow> is_lcd img'"
  by (auto simp: redraws_def alters_lcd)

lemma draw_redraws: "is_lcd img \<Longrightarrow> \<exists>img'. dLcdDrawPixel C X Y img = Some img' \<and> redraws img img'"
  using draw_paints redrawsI by blast

lemma dot_loop_run:
  assumes x: "leg a sx dx XL XI X1" and y: "leg b sy dy YL YI Y1"
    and "near dx dy i j" "sint X0 = a + sx * i" "sint Y0 = b + sy * j"
    and "sint Diff = dx * (1 + j) - dy * (1 + i)" "is_lcd img"
  shows "\<exists>img'. dot_loop C X1 Y1 On Off XL YL XI YI Diff X0 Y0 n img = Some img' \<and> redraws img img'"
  using assms(3-)
proof (induction "nat (max dx dy - major dx dy i j)" arbitrary: i j X0 Y0 Diff n img rule: less_induct)
  case less
  note near = less.prems(1) and XY = less.prems(2,3) and D = less.prems(4) and img = less.prems(5)
  let ?m = "major dx dy i j"
  show ?case
  proof (cases "X0 \<noteq> X1 \<or> Y0 \<noteq> Y1")
    case False
    then show ?thesis using redraws_refl [OF img] by (subst dot_loop.simps) simp
  next
    case True
    obtain i' j' X Y D' where nx: "line_next XL YL XI YI Diff X0 Y0 = (D', X, Y)"
        "near dx dy i' j'" "major dx dy i' j' = ?m + 1" "?m + 1 \<le> max dx dy"
        "sint X = a + sx * i'" "sint Y = b + sy * j'" "sint D' = dx * (1 + j') - dy * (1 + i')"
      using x y near XY D True by (rule line_advance)
    obtain v where v: "(if sint n < sint On + sint Off then dLcdDrawPixel (if sint n < sint On then C else 1 - C) X Y img
        else Some img) = Some v" "redraws img v"
      using draw_redraws [OF img, of "if sint n < sint On then C else 1 - C" X Y] redraws_refl [OF img]
      by (cases "sint n < sint On + sint Off") auto
    have "nat (max dx dy - major dx dy i' j') < nat (max dx dy - ?m)" using nx(3,4) by simp
    from less.hyps [OF this nx(2,5,6,7) redraws_lcd [OF v(2)]] redraws_trans [OF v(2)] show ?thesis
      using True nx(1) v(1) by (subst dot_loop.simps) (auto simp: Let_def)
  qed
qed

lemma dot_line_run:
  assumes "is_lcd img"
  shows "\<exists>img'. dLcdDrawDotLine C X0 Y0 X1 Y1 On Off img = Some img' \<and> redraws img img'"
proof (cases "X0 \<noteq> X1 \<and> Y0 \<noteq> Y1")
  case True
  then show ?thesis using line_run [OF assms, of C X0 Y0 X1 Y1] redrawsI by (auto simp: dLcdDrawDotLine_def)
next
  case False
  let ?dx = "\<bar>sint X1 - sint X0\<bar>" and ?dy = "\<bar>sint Y1 - sint Y0\<bar>"
  obtain XL XI YL YI where e: "extent X0 X1 = (XL, XI)" "extent Y0 Y1 = (YL, YI)" by fastforce
  note x = leg_extent [OF e(1)] and y = leg_extent [OF e(2)]
  obtain v where v: "dLcdDrawPixel C X0 Y0 img = Some v" "redraws img v"
    using draw_redraws [OF assms] by blast
  have D: "sint (XL - YL) = ?dx - ?dy" using sint_diff [of XL YL] x y by (auto simp: leg_def)
  have "near ?dx ?dy 0 0" by (simp add: near_def err_def)
  from dot_loop_run [OF x y this _ _ _ redraws_lcd [OF v(2)], of X0 Y0 "XL - YL" C] D
  have "\<exists>w. dot_loop C X1 Y1 (clamp_dots On) (clamp_dots Off) XL YL XI YI (XL - YL) X0 Y0 1 v = Some w \<and> redraws v w" by simp
  then show ?thesis
    using False v e redraws_trans [OF v(2)] by (auto simp: dLcdDrawDotLine_def Let_def)
qed

text \<open>A pass of the flood fill ends at the edge of the display at the latest.\<close>

lemma check_pixel:
  assumes "is_lcd img"
  obtains c where "dLcdCheckPixel C X Y img = Some c" "c \<Longrightarrow> on_lcd X Y"
proof
  show "dLcdCheckPixel C X Y img = Some (on_lcd X Y \<and> (if shown img (sint X) (sint Y) then 1 else 0) \<noteq> C)"
    by (simp add: dLcdCheckPixel_def read_pixel [OF assms])
qed simp

definition to_edge :: "DATA16 \<Rightarrow> int \<Rightarrow> DATA16 \<Rightarrow> nat" where
  "to_edge I n X = nat (if I = 1 then n - sint X else sint X + 1)"

lemma to_edge_less:
  assumes "I = 1 \<or> I = - 1" "0 \<le> sint X" "sint X < n" "n \<le> 32767"
  shows "to_edge I n (X + I) < to_edge I n X"
  using assms sint_sum [of X I] by (auto simp: to_edge_def)

lemma fill_row_run:
  assumes I: "XI = 1 \<or> XI = - 1" and "is_lcd img"
  shows "\<exists>img'. fill_row C skip XI Y X img = Some img' \<and> redraws img img'"
  using assms(2)
proof (induction "to_edge XI LCD_WIDTH X" arbitrary: X img rule: less_induct)
  case less
  obtain c where c: "dLcdCheckPixel C X Y img = Some c" "c \<Longrightarrow> on_lcd X Y"
    using check_pixel [OF less.prems, of C X Y] by blast
  show ?case
  proof (cases c)
    case True
    have lt: "to_edge XI LCD_WIDTH (X + XI) < to_edge XI LCD_WIDTH X"
      using c(2) [OF True] I by (intro to_edge_less) (auto simp: on_lcd_def lcd_consts)
    obtain v where v: "(if skip X then Some img else dLcdDrawPixel C X Y img) = Some v" "redraws img v"
      using draw_redraws [OF less.prems, of C X Y] redraws_refl [OF less.prems] by (cases "skip X") auto
    from less.hyps [OF lt redraws_lcd [OF v(2)]] redraws_trans [OF v(2)] show ?thesis
      using c(1) True v(1) by (subst fill_row.simps) auto
  qed (use c(1) redraws_refl [OF less.prems] in \<open>subst fill_row.simps, simp\<close>)
qed

lemma fill_rows_run:
  assumes I: "XI = 1 \<or> XI = - 1" "YI = 1 \<or> YI = - 1" and "is_lcd img"
  shows "\<exists>img'. fill_rows C skip XI YI X Y img = Some img' \<and> redraws img img'"
  using assms(3)
proof (induction "to_edge YI LCD_HEIGHT Y" arbitrary: Y img rule: less_induct)
  case less
  obtain c where c: "dLcdCheckPixel C X Y img = Some c" "c \<Longrightarrow> on_lcd X Y"
    using check_pixel [OF less.prems, of C X Y] by blast
  show ?case
  proof (cases c)
    case True
    have lt: "to_edge YI LCD_HEIGHT (Y + YI) < to_edge YI LCD_HEIGHT Y"
      using c(2) [OF True] I by (intro to_edge_less) (auto simp: on_lcd_def lcd_consts)
    obtain v where v: "fill_row C skip XI Y X img = Some v" "redraws img v"
      using fill_row_run [OF I(1) less.prems] by blast
    from less.hyps [OF lt redraws_lcd [OF v(2)]] redraws_trans [OF v(2)] show ?thesis
      using c(1) True v(1) by (subst fill_rows.simps) auto
  qed (use c(1) redraws_refl [OF less.prems] in \<open>subst fill_rows.simps, simp\<close>)
qed

lemma redraws_then:
  assumes "redraws img v" and "\<And>v. is_lcd v \<Longrightarrow> \<exists>w. f v = Some w \<and> redraws v w"
    and "\<And>w. redraws img w \<Longrightarrow> \<exists>u. k w = Some u \<and> redraws img u"
  shows "\<exists>u. Option.bind (f v) k = Some u \<and> redraws img u"
proof -
  obtain w where w: "f v = Some w" "redraws v w" using assms(2) [OF redraws_lcd [OF assms(1)]] by blast
  with assms(3) [OF redraws_trans [OF assms(1) w(2)]] show ?thesis by simp
qed

lemma flood_fill_run:
  assumes "is_lcd img"
  shows "\<exists>img'. dLcdFlodfill C X0 Y0 img = Some img' \<and> redraws img img'"
proof -
  have "\<exists>img'. Option.bind (dLcdFlodfill C X0 Y0 img) Some = Some img' \<and> redraws img img'"
    unfolding dLcdFlodfill_def bind_assoc
    by (rule redraws_then [OF redraws_refl [OF assms]], (rule fill_rows_run; simp),
        (rule redraws_then, assumption, (rule fill_rows_run; simp))+, simp)
  then show ?thesis by simp
qed

text \<open>C31: the loops of the dotted line and of the flood fill end for all arguments,
  whatever the image, the colour and the lengths of the dashes are, and change visible points only.\<close>

theorem lcd_loops_end:
  assumes "is_lcd img"
  shows "(\<exists>img'. dLcdDrawDotLine C X0 Y0 X1 Y1 On Off img = Some img' \<and> redraws img img') \<and>
    (\<exists>img'. dLcdFlodfill C X0 Y0 img = Some img' \<and> redraws img img')"
  using dot_line_run [OF assms] flood_fill_run [OF assms] by blast

subsection \<open>Examples\<close>

definition blank :: image where
  "blank = replicate LCD_BUFFER_SIZE 0"

lemma blank_lcd: "is_lcd blank"
  by (simp add: is_lcd_def blank_def)

theorem lcd_rectangles_witness:
  "(\<exists>img'. dLcdFillRect 1 170 120 20 20 blank = Some img' \<and> paints (box 170 190 120 140) True blank img') \<and>
    (\<exists>img'. dLcdInverseRect 10 10 5 5 blank = Some img' \<and> dLcdInverseRect 10 10 5 5 img' = Some blank)"
  using lcd_rectangles [OF blank_lcd, of 1 170 120 20 20] lcd_rectangles [OF blank_lcd, of 1 10 10 5 5] by auto

theorem lcd_line_witness:
  "\<exists>img' (h :: int \<Rightarrow> int \<times> int). dLcdDrawLine 1 200 0 100 50 blank = Some img' \<and>
    paints (h ` {0..100}) True blank img' \<and> h 0 = (200, 0) \<and> h 100 = (100, 50)"
  using lcd_line [OF blank_lcd, of 1 200 0 100 50] by (auto simp: Let_def)

theorem lcd_circle_witness:
  "\<exists>img' n h. dLcdDrawCircle 1 50 50 20 blank = Some img' \<and> h 0 = 20 \<and> arc 20 0 n h \<and>
    (\<forall>k \<in> {0..n}. half_pixel 20 k (h k)) \<and> paints (\<Union>k \<in> {0..n}. mirrored 50 50 k (h k)) True blank img'"
  using lcd_circle [OF blank_lcd, of 20 1 50 50] by simp

theorem lcd_loops_end_witness:
  "(\<exists>img'. dLcdDrawDotLine 1 0 7 178 7 0 0 blank = Some img') \<and> (\<exists>img'. dLcdFlodfill 2 5 5 blank = Some img')"
  using lcd_loops_end [OF blank_lcd, of 1 0 7 178 7 0 0] lcd_loops_end [OF blank_lcd, of 2 5 5 0 0 0 0] by blast

end
