(* ===== verification/VM_Bitmaps.thy ===== *)
theory VM_Bitmaps
  imports VM_Drawing
begin

text \<open>
  Characters, bitmaps and the screen: the two ways of \<open>VM_Lcd\<close> to draw a picture, bit by bit and
  in whole bytes, show the same where the picture fits the display; outside it the copy of whole
  bytes can leave the image. The conversion for the screen shows every pixel of the image.
\<close>

subsection \<open>Drawing bit by bit\<close>

text \<open>A picture \<open>G\<close> of the size \<open>w\<close>, \<open>h\<close> at \<open>X\<close>, \<open>Y\<close>, inverted unless \<open>c\<close>.\<close>

definition stamp :: "(int \<Rightarrow> int \<Rightarrow> bool) \<Rightarrow> bool \<Rightarrow> int \<Rightarrow> int \<Rightarrow> int \<Rightarrow> int \<Rightarrow> int \<times> int \<Rightarrow> bool \<Rightarrow> bool" where
  "stamp G c X Y w h p b = (if p \<in> box X (X + w) Y (Y + h) then G (fst p - X) (snd p - Y) = c else b)"

lemma stamp_empty: "is_lcd img \<Longrightarrow> w \<le> 0 \<or> h \<le> 0 \<Longrightarrow> alters (stamp G c X Y w h) img img"
  by (rule alters_refl) (auto simp: stamp_def box_def)

lemma stamp_beside:
  assumes "alters (stamp G c X Y v h) img img'" "alters (stamp G' c (X + v) Y w h) img' img''"
    and "\<And>x y. 0 \<le> x \<Longrightarrow> x < w \<Longrightarrow> 0 \<le> y \<Longrightarrow> y < h \<Longrightarrow> G' x y = G (x + v) y" "0 \<le> v" "0 \<le> w"
  shows "alters (stamp G c X Y (v + w) h) img img''"
  by (rule alters_trans [OF assms(1,2)]) (use assms(3)[of "fst _ - X - v" "snd _ - Y"] assms(4,5) in \<open>auto simp: stamp_def box_def algebra_simps\<close>)

lemma stamp_below:
  assumes "alters (stamp G c X Y w v) img img'" "alters (stamp G' c X (Y + v) w h) img' img''"
    and "\<And>x y. 0 \<le> x \<Longrightarrow> x < w \<Longrightarrow> 0 \<le> y \<Longrightarrow> y < h \<Longrightarrow> G' x y = G x (y + v)" "0 \<le> v" "0 \<le> h"
  shows "alters (stamp G c X Y w (v + h)) img img''"
  by (rule alters_trans [OF assms(1,2)]) (use assms(3)[of "fst _ - X" "snd _ - Y - v"] assms(4,5) in \<open>auto simp: stamp_def box_def algebra_simps\<close>)

lemma stamp_cong:
  assumes "alters (stamp G c X Y w h) img img'" and "\<And>x y. 0 \<le> x \<Longrightarrow> x < w \<Longrightarrow> 0 \<le> y \<Longrightarrow> y < h \<Longrightarrow> G' x y = G x y"
  shows "alters (stamp G' c X Y w h) img img'"
  by (rule alters_cong [OF assms(1)]) (use assms(2) in \<open>auto simp: stamp_def box_def\<close>)

lemma draw_stamp:
  assumes "is_lcd img"
  shows "\<exists>img'. dLcdDrawPixel (if b then (if C \<noteq> 0 then 1 else 0) else (if C \<noteq> 0 then 0 else 1)) X Y img = Some img' \<and>
    alters (stamp (\<lambda>_ _. b) (C \<noteq> 0) (sint X) (sint Y) 1 1) img img'"
proof -
  have e: "paint {(sint X, sint Y)} ((if b then (if C \<noteq> 0 then 1 else 0) else (if C \<noteq> 0 then 0 else 1)) \<noteq> (0 :: DATA8)) =
      stamp (\<lambda>_ _. b) (C \<noteq> 0) (sint X) (sint Y) 1 1"
    by (auto simp: paint_def stamp_def box_def fun_eq_iff)
  show ?thesis
    using draw_paints [OF assms, of "if b then (if C \<noteq> 0 then 1 else 0) else (if C \<noteq> 0 then 0 else 1)" X Y] unfolding e .
qed

lemma draw_bits_run:
  assumes "is_lcd img" and "sint X + int n \<le> 32767"
  shows "\<exists>img' m. draw_bits C M Y n b X img = Some (X + of_nat m, img') \<and> m = min n (nat (sint M - sint X)) \<and>
    alters (stamp (\<lambda>x _. bit b (nat x)) (C \<noteq> 0) (sint X) (sint Y) (int m) 1) img img'"
  using assms
proof (induction n arbitrary: b X img)
  case 0
  then show ?case using stamp_empty by (intro exI [of _ img] exI [of _ 0]) simp
next
  case (Suc n)
  show ?case
  proof (cases "sint X < sint M")
    case False
    with Suc.prems show ?thesis using stamp_empty by (intro exI [of _ img] exI [of _ 0]) simp
  next
    case True
    have X: "sint (X + 1) = sint X + 1" using sint_Suc16 [OF True] .
    have b0: "b AND 1 \<noteq> 0 \<longleftrightarrow> bit b 0" by (simp add: and_one_eq bit_0 odd_iff_mod_2_eq_one)
    obtain v where v: "dLcdDrawPixel (if b AND 1 \<noteq> 0 then (if C \<noteq> 0 then 1 else 0) else (if C \<noteq> 0 then 0 else 1)) X Y img = Some v"
        "alters (stamp (\<lambda>_ _. b AND 1 \<noteq> 0) (C \<noteq> 0) (sint X) (sint Y) 1 1) img v"
      using draw_stamp [OF Suc.prems(1)] by blast
    obtain w m where w: "draw_bits C M Y n (drop_bit 1 b) (X + 1) v = Some (X + 1 + of_nat m, w)"
        "m = min n (nat (sint M - sint (X + 1)))"
        "alters (stamp (\<lambda>x _. bit (drop_bit 1 b) (nat x)) (C \<noteq> 0) (sint (X + 1)) (sint Y) (int m) 1) v w"
      using Suc.IH [OF alters_lcd [OF v(2)], of "X + 1" "drop_bit 1 b"] Suc.prems(2) X by auto
    have "alters (stamp (\<lambda>x _. bit b (nat x)) (C \<noteq> 0) (sint X) (sint Y) 1 1) img v"
      by (rule stamp_cong [OF v(2)]) (simp add: b0)
    then have "alters (stamp (\<lambda>x _. bit b (nat x)) (C \<noteq> 0) (sint X) (sint Y) (int (Suc m)) 1) img w"
      unfolding of_nat_Suc by (rule stamp_beside [OF _ w(3) [unfolded X]]) (simp_all add: bit_drop_bit_eq nat_add_distrib)
    moreover have "Suc m = min (Suc n) (nat (sint M - sint X))" using w(2) True X by auto
    moreover have "draw_bits C M Y (Suc n) b X img = Some (X + of_nat (Suc m), w)"
      using True v(1) w(1) by (simp add: algebra_simps)
    ultimately show ?thesis by blast
  qed
qed

text \<open>The bit \<open>x\<close> of the bytes from \<open>i\<close>.\<close>

definition bit_at :: "UBYTE list \<Rightarrow> int \<Rightarrow> int \<Rightarrow> bool" where
  "bit_at bits i x = bit (bits ! nat (i + x div 8)) (nat (x mod 8))"

definition inside :: "UBYTE list \<Rightarrow> int \<Rightarrow> nat \<Rightarrow> bool" where
  "inside bits i n \<longleftrightarrow> 0 \<le> i \<and> i + int n \<le> int (length bits)"

lemma draw_row_run:
  assumes "is_lcd img" and "sint X \<le> sint M" "sint X + 8 * int n \<le> 32767" and "inside bits i n"
  shows "\<exists>img'. draw_row C M Y bits (map (\<lambda>k. i + int k) [0..<n]) X img = Some img' \<and>
    alters (stamp (\<lambda>x _. bit_at bits i x) (C \<noteq> 0) (sint X) (sint Y) (min (8 * int n) (sint M - sint X)) 1) img img'"
  using assms
proof (induction n arbitrary: i X img)
  case 0
  then show ?case using stamp_empty by auto
next
  case (Suc n)
  have byte: "get_byte bits i = Some (bits ! nat i)" using Suc.prems(4) by (simp add: get_byte_def inside_def)
  obtain v m where v: "draw_bits C M Y 8 (bits ! nat i) X img = Some (X + of_nat m, v)" "m = min 8 (nat (sint M - sint X))"
      "alters (stamp (\<lambda>x _. bit (bits ! nat i) (nat x)) (C \<noteq> 0) (sint X) (sint Y) (int m) 1) img v"
    using draw_bits_run [OF Suc.prems(1), of X 8] Suc.prems(3) by force
  have m: "m \<le> 8" "sint X + int m \<le> sint M" using v(2) Suc.prems(2) by auto
  have X: "sint (X + of_nat m) = sint X + int m"
  proof -
    have "sint (of_nat m :: DATA16) = int m" using sint_of_int_range [where 'a = 16 and i = "int m"] m by simp
    then show ?thesis using sint_sum [of X "of_nat m"] m sint16_range(1) [of X] sint16_range(2) [of M] by simp
  qed
  obtain w where w: "draw_row C M Y bits (map (\<lambda>k. i + 1 + int k) [0..<n]) (X + of_nat m) v = Some w"
      "alters (stamp (\<lambda>x _. bit_at bits (i + 1) x) (C \<noteq> 0) (sint (X + of_nat m)) (sint Y)
        (min (8 * int n) (sint M - sint (X + of_nat m))) 1) v w"
    using Suc.IH [OF alters_lcd [OF v(3)], of "X + of_nat m" "i + 1"] Suc.prems m X by (auto simp: inside_def)
  let ?w = "min (8 * int n) (sint M - sint X - int m)"
  have 1: "alters (stamp (\<lambda>x _. bit_at bits i x) (C \<noteq> 0) (sint X) (sint Y) (int m) 1) img v"
    by (rule stamp_cong [OF v(3)]) (use m in \<open>simp add: bit_at_def\<close>)
  have 2: "alters (stamp (\<lambda>x _. bit_at bits (i + 1) x) (C \<noteq> 0) (sint X + int m) (sint Y) ?w 1) v w"
    using w(2) unfolding X by (simp add: diff_diff_eq)
  have shift: "bit_at bits (i + 1) x = bit_at bits i (x + int m)" if "0 \<le> x" "x < ?w" for x y :: int
  proof -
    have "m = 8" using that v(2) m by (auto simp: min_def split: if_splits)
    moreover have "(x + 8) div 8 = x div 8 + 1" "(x + 8) mod 8 = x mod 8" by presburger+
    ultimately show ?thesis by (simp add: bit_at_def ac_simps)
  qed
  have "alters (stamp (\<lambda>x _. bit_at bits i x) (C \<noteq> 0) (sint X) (sint Y) (int m + ?w) 1) img w"
    by (rule stamp_beside [OF 1 2]) (use shift m in auto)
  moreover have "int m + ?w = min (8 * int (Suc n)) (sint M - sint X)"
    using v(2) Suc.prems(2) by (auto simp: min_def)
  moreover have "map (\<lambda>k. i + int k) [0..<Suc n] = i # map (\<lambda>k. i + 1 + int k) [0..<n]"
    by (simp add: upt_conv_Cons map_Suc_upt [symmetric] del: upt_Suc)
  ultimately show ?case using byte v(1) w(1) by simp
qed

lemma draw_rows_run:
  assumes "is_lcd img" and "sint X \<le> sint M" "sint X + 8 * int n \<le> 32767" "sint M - sint X \<le> 8 * int n"
    and "sint Y + int (length Ys) \<le> 32767" "\<And>y. y \<in> set Ys \<Longrightarrow> inside bits (start y) n"
  shows "\<exists>img'. draw_rows C X M bits n start Ys Y img = Some img' \<and>
    alters (stamp (\<lambda>x y. bit_at bits (start (Ys ! nat y)) x) (C \<noteq> 0) (sint X) (sint Y) (sint M - sint X) (int (length Ys))) img img'"
  using assms(1,5,6)
proof (induction Ys arbitrary: Y img)
  case Nil
  then show ?case using stamp_empty by auto
next
  case (Cons y Ys)
  have w: "min (8 * int n) (sint M - sint X) = sint M - sint X" using assms(4) by simp
  obtain u where u: "draw_row C M Y bits (map (\<lambda>k. start y + int k) [0..<n]) X img = Some u"
      "alters (stamp (\<lambda>x _. bit_at bits (start y) x) (C \<noteq> 0) (sint X) (sint Y) (sint M - sint X) 1) img u"
    using draw_row_run [OF Cons.prems(1) assms(2,3) Cons.prems(3) [of y], of C Y] unfolding w by auto
  have Y: "sint (Y + 1) = sint Y + 1"
    using sint_sum [of Y 1] Cons.prems(2) sint16_range(1) [of Y] by simp
  obtain v where v: "draw_rows C X M bits n start Ys (Y + 1) u = Some v"
      "alters (stamp (\<lambda>x y. bit_at bits (start (Ys ! nat y)) x) (C \<noteq> 0) (sint X) (sint Y + 1) (sint M - sint X) (int (length Ys))) u v"
    using Cons.IH [OF alters_lcd [OF u(2)], of "Y + 1"] Cons.prems Y by auto
  have "alters (stamp (\<lambda>x y'. bit_at bits (start ((y # Ys) ! nat y')) x) (C \<noteq> 0) (sint X) (sint Y) (sint M - sint X) 1) img u"
    by (rule stamp_cong [OF u(2)]) simp
  then have "alters (stamp (\<lambda>x y'. bit_at bits (start ((y # Ys) ! nat y')) x) (C \<noteq> 0) (sint X) (sint Y) (sint M - sint X) (1 + int (length Ys))) img v"
    by (rule stamp_below [OF _ v(2)]) (simp_all add: nat_add_distrib)
  with u(1) v(1) show ?case by (simp add: add.commute)
qed

subsection \<open>Copying whole bytes\<close>

lemma store_byte:
  assumes "is_lcd img" and k: "0 \<le> k" "8 * k + 8 \<le> LCD_WIDTH" and y: "0 \<le> y" "y < LCD_HEIGHT"
  shows "\<exists>img'. put_byte img (k + y * LCD_ROW) (invert C v) = Some img' \<and>
    alters (stamp (\<lambda>x _. bit v (nat x)) (C \<noteq> 0) (8 * k) y 8 1) img img'"
proof -
  let ?i = "k + y * LCD_ROW"
  have i: "0 \<le> ?i" "?i < int (length img)"
    using byte_index [of "8 * k" y] k y assms(1) by (simp_all add: lcd_consts is_lcd_def)
  have inv: "bit (invert C v) n \<longleftrightarrow> bit v n = (C \<noteq> 0)" if "n < 8" for n
    using that by (auto simp: invert_def bit_simps)
  have "shown (img[nat ?i := invert C v]) x z = (if x < LCD_WIDTH then stamp (\<lambda>x _. bit v (nat x)) (C \<noteq> 0) (8 * k) y 8 1 (x, z) (shown img x z)
      else shown img x z)" if xz: "0 \<le> x" "x < 8 * LCD_ROW" "0 \<le> z" "z < LCD_HEIGHT" for x z
  proof -
    have same: "nat (x div 8 + z * LCD_ROW) = nat ?i \<longleftrightarrow> x div 8 = k \<and> z = y"
      using eq_nat_nat_iff [OF byte_index(1) [OF xz] i(1)] same_byte [OF xz(1,2), of "8 * k" z y] k by (auto simp: lcd_consts)
    have col: "x div 8 = k \<longleftrightarrow> 8 * k \<le> x \<and> x < 8 * k + 8" by presburger
    show ?thesis
    proof (cases "x div 8 = k \<and> z = y")
      case True
      have "x mod 8 = x - 8 * k" using True by presburger
      moreover have "shown (img[nat ?i := invert C v]) x z = (bit v (nat (x mod 8)) = (C \<noteq> 0))"
        using True i inv [of "nat (x mod 8)"] by (simp add: shown_def)
      ultimately show ?thesis using True col k(2) by (simp add: stamp_def box_def)
    next
      case False
      then have "nat ?i \<noteq> nat (x div 8 + z * LCD_ROW)" using same by metis
      then have "shown (img[nat ?i := invert C v]) x z = shown img x z" by (simp add: shown_def)
      moreover have "(x, z) \<notin> box (8 * k) (8 * k + 8) y (y + 1)" using False col by (auto simp: box_def)
      ultimately show ?thesis by (simp add: stamp_def)
    qed
  qed
  then show ?thesis using i assms(1) by (simp add: put_byte_def alters_def is_lcd_def)
qed

lemma fold_upd_append: "fold_upd f (xs @ ys) s = Option.bind (fold_upd f xs s) (fold_upd f ys)"
  by (induction xs arbitrary: s) (simp_all add: bind_assoc)

lemma copy_row_run:
  assumes "is_lcd img" and k: "0 \<le> k" "8 * (k + int n) \<le> LCD_WIDTH" and y: "0 \<le> y" "y < LCD_HEIGHT"
    and guard: "\<And>t. t < n \<Longrightarrow> guard t" and bits: "inside bits q n"
  shows "\<exists>img'. fold_upd (\<lambda>Tmp img. if guard Tmp then do {
        b \<leftarrow> get_byte bits (q + int Tmp); put_byte img (k + y * LCD_ROW + int Tmp) (invert C b) } else Some img) [0..<n] img = Some img' \<and>
    alters (stamp (\<lambda>x _. bit_at bits q x) (C \<noteq> 0) (8 * k) y (8 * int n) 1) img img'"
  using k(2) guard bits
proof (induction n)
  case 0
  show ?case by (rule exI [of _ img]) (simp add: stamp_empty assms(1))
next
  case (Suc n)
  obtain u where u: "fold_upd (\<lambda>Tmp img. if guard Tmp then do {
        b \<leftarrow> get_byte bits (q + int Tmp); put_byte img (k + y * LCD_ROW + int Tmp) (invert C b) } else Some img) [0..<n] img = Some u"
      "alters (stamp (\<lambda>x _. bit_at bits q x) (C \<noteq> 0) (8 * k) y (8 * int n) 1) img u"
    using Suc by (auto simp: inside_def)
  let ?b = "bits ! nat (q + int n)"
  have b: "get_byte bits (q + int n) = Some ?b" using Suc.prems(3) by (simp add: get_byte_def inside_def)
  obtain v where v: "put_byte u (k + int n + y * LCD_ROW) (invert C ?b) = Some v"
      "alters (stamp (\<lambda>x _. bit ?b (nat x)) (C \<noteq> 0) (8 * (k + int n)) y 8 1) u v"
    using store_byte [OF alters_lcd [OF u(2)], of "k + int n" y C ?b] k(1) Suc.prems(1) y by auto
  have "alters (stamp (\<lambda>x _. bit_at bits q x) (C \<noteq> 0) (8 * k) y (8 * int n + 8) 1) img v"
    by (rule stamp_beside [OF u(2)], rule v(2) [unfolded distrib_left], simp_all add: bit_at_def)
  moreover have "k + y * LCD_ROW + int n = k + int n + y * LCD_ROW" by simp
  ultimately show ?case
    using u(1) v(1) b Suc.prems(2) [of n] by (simp add: fold_upd_append algebra_simps)
qed

lemma copy_rows_run:
  assumes "is_lcd img" and k: "0 \<le> k" "8 * (k + int n) \<le> LCD_WIDTH" and "0 \<le> y" "y + int h \<le> LCD_HEIGHT"
    and "sint j = k + y * LCD_ROW" and step: "0 \<le> sint step" "0 \<le> sint i" "sint i + int h * sint step \<le> 32767"
    and guard: "\<And>y t. 0 \<le> y \<Longrightarrow> y < LCD_HEIGHT \<Longrightarrow> t < n \<Longrightarrow> guard (k + y * LCD_ROW) t"
    and "\<And>y. y < h \<Longrightarrow> inside bits (p + sint i + int y * sint step) n"
  shows "\<exists>img'. copy_rows C guard n bits p step h i j img = Some img' \<and>
    alters (stamp (\<lambda>x y. bit_at bits (p + sint i + y * sint step) x) (C \<noteq> 0) (8 * k) y (8 * int n) (int h)) img img'"
  using assms(1,4-6,8-9,11)
proof (induction h arbitrary: y i j img)
  case 0
  then show ?case using stamp_empty by auto
next
  case (Suc h)
  have in0: "inside bits (p + sint i) n" using Suc.prems(7) [of 0] by simp
  have y: "0 \<le> y" "y < LCD_HEIGHT" using Suc.prems(2,3) by auto
  obtain u where u: "fold_upd (\<lambda>Tmp img. if guard (sint j) Tmp then do {
        b \<leftarrow> get_byte bits (p + (sint i + int Tmp)); put_byte img (sint j + int Tmp) (invert C b) } else Some img) [0..<n] img = Some u"
      "alters (stamp (\<lambda>x _. bit_at bits (p + sint i) x) (C \<noteq> 0) (8 * k) y (8 * int n) 1) img u"
    using copy_row_run [where guard = "guard (k + y * LCD_ROW)" and C = C, OF Suc.prems(1) k y guard [OF y] in0] unfolding Suc.prems(4) add.assoc [symmetric] by blast
  have mono: "sint step \<le> int (Suc h) * sint step" using step(1) mult_right_mono [of 1 "int (Suc h)"] by simp
  have i: "sint (i + step) = sint i + sint step"
    using sint_sum [of i step] Suc.prems(5,6) step(1) mono by simp
  have j: "sint (j + to16 LCD_ROW) = k + (y + 1) * LCD_ROW"
  proof -
    have "sint (to16 LCD_ROW) = LCD_ROW" by (rule sint_of_int_range) (simp_all add: lcd_consts)
    moreover have "k + y * LCD_ROW < 2944" "0 \<le> k + y * LCD_ROW" using k y by (simp_all add: lcd_consts)
    ultimately show ?thesis using sint_sum [of j "to16 LCD_ROW"] Suc.prems(4) by (simp add: lcd_consts)
  qed
  have ins: "inside bits (p + sint (i + step) + int z * sint step) n" if "z < h" for z
    using Suc.prems(7) [of "Suc z"] that by (simp add: i algebra_simps)
  obtain v where v: "copy_rows C guard n bits p step h (i + step) (j + to16 LCD_ROW) u = Some v"
      "alters (stamp (\<lambda>x y. bit_at bits (p + sint (i + step) + y * sint step) x) (C \<noteq> 0) (8 * k) (y + 1) (8 * int n) (int h)) u v"
    using Suc.IH [OF alters_lcd [OF u(2)] _ _ j _ _ ins] Suc.prems step(1) y i by (auto simp: algebra_simps)
  have "alters (stamp (\<lambda>x y. bit_at bits (p + sint i + y * sint step) x) (C \<noteq> 0) (8 * k) y (8 * int n) 1) img u"
  proof (rule stamp_cong [OF u(2)])
    fix x z :: int assume "0 \<le> z" "z < 1"
    then have "z = 0" by simp
    then show "bit_at bits (p + sint i + z * sint step) x = bit_at bits (p + sint i) x" by simp
  qed
  then have "alters (stamp (\<lambda>x y. bit_at bits (p + sint i + y * sint step) x) (C \<noteq> 0) (8 * k) y (8 * int n) (1 + int h)) img v"
    by (rule stamp_below [OF _ v(2)]) (simp_all add: i algebra_simps)
  with u(1) v(1) show ?case by (simp add: add.commute)
qed

text \<open>\<open>lcd_index\<close> on the display.\<close>

lemma lcd_index_on:
  assumes "0 \<le> sint X" "sint X < LCD_WIDTH" "0 \<le> sint Y" "sint Y \<le> LCD_HEIGHT"
  shows "sint (lcd_index X Y) = sint X div 8 + sint Y * LCD_ROW"
  unfolding lcd_index_def by (rule sint_of_int_range) (use assms in \<open>auto simp: lcd_consts\<close>)

subsection \<open>Characters\<close>

text \<open>The pictures of the 96 characters stand in 6 lines of 16 in the bits of the font.\<close>

definition glyph :: "UBYTE list \<Rightarrow> FONTINFO \<Rightarrow> DATA8 \<Rightarrow> int \<Rightarrow> int \<Rightarrow> bool" where
  "glyph bits F Ch x y = (let n = sint Ch - 32 in
     bit_at bits ((n div 16 * sint (FontHeight F) + y) * (16 * font_bytes F) + n mod 16 * font_bytes F) x)"

lemma font_facts:
  "sint (FontHorz (FontInfo Font)) = 16" "FontFirst (FontInfo Font) = 0x20" "sint (FontLast (FontInfo Font)) = 127"
  "1 \<le> font_bytes (FontInfo Font)" "font_bytes (FontInfo Font) \<le> 2"
  "sint (FontWidth (FontInfo Font)) \<le> 8 * font_bytes (FontInfo Font)" "0 < sint (FontWidth (FontInfo Font))"
  "0 < sint (FontHeight (FontInfo Font))" "sint (FontHeight (FontInfo Font)) \<le> 16"
  "sint (FontWidth (FontInfo Font)) mod 8 = 0 \<Longrightarrow> sint (FontWidth (FontInfo Font)) = 8 * font_bytes (FontInfo Font)"
  "int (unat (FontHeight (FontInfo Font))) = sint (FontHeight (FontInfo Font))"
  by (cases Font; simp add: font_bytes_def)+

lemma char_index_value:
  assumes "32 \<le> sint Ch" and F_def: "F = FontInfo Font" and n_def: "n = sint Ch - 32"
    and c: "c = n div 16 * sint (FontHeight F) * (16 * font_bytes F) + n mod 16 * font_bytes F"
  shows "sint (char_index F (Ch - 0x20)) = c" "0 \<le> c" "c + 16 * font_bytes F * (sint (FontHeight F) - 1) + font_bytes F \<le> 96 * font_bytes F * sint (FontHeight F)"
    "c + 16 * font_bytes F * sint (FontHeight F) \<le> 32767"
proof -
  let ?B = "font_bytes F" and ?H = "sint (FontHeight F)"
  have n: "0 \<le> n" "n \<le> 95" "sint (Ch - 0x20) = n"
    using assms(1) sint8_range(2) [of Ch] sint_diff [of Ch "0x20"] by (simp_all add: n_def)
  then have m: "0 \<le> n mod 16" "n mod 16 \<le> 15" "0 \<le> n div 16" "n div 16 \<le> 5" by auto
  have B: "?B = 1 \<or> ?B = 2" "0 < ?H" "?H \<le> 16" using font_facts [of Font] by (auto simp: F_def)
  have line: "0 \<le> n div 16 * ?H" "n div 16 * ?H \<le> 5 * ?H" using m B by (auto intro: mult_right_mono)
  show c0: "0 \<le> c" using m B line by (auto simp: c)
  show "c + 16 * ?B * (?H - 1) + ?B \<le> 96 * ?B * ?H"
    using B(1) by (rule disjE) (use c m line in \<open>simp_all add: algebra_simps\<close>)
  show max: "c + 16 * ?B * ?H \<le> 32767"
    using B(1) by (rule disjE) (use c m line B(3) in \<open>simp_all add: algebra_simps\<close>)
  have "char_index F (Ch - 0x20) = to16 (cmod n 16 * ?B + cdiv n 16 * ?B * ?H * 16)"
    using font_facts(1) [of Font] by (simp add: char_index_def n(3) F_def [symmetric])
  also have "cmod n 16 * ?B + cdiv n 16 * ?B * ?H * 16 = c"
    using n(1) by (cases "n = 0") (simp_all add: c cmod_abs cdiv_def)
  finally have "char_index F (Ch - 0x20) = to16 c" .
  moreover have "0 \<le> 16 * ?B * ?H" using B by auto
  ultimately show "sint (char_index F (Ch - 0x20)) = c"
    using c0 max by (simp only:) (rule sint_of_int_range; simp)
qed

text \<open>C26: a character from the space on that fits the display is drawn with its picture in the
  font, at every position: the copy of whole bytes, for positions that are a multiple of 8, and
  the drawing of single pixels show the same.\<close>

theorem lcd_char:
  assumes "is_lcd img" and Ch: "32 \<le> sint Ch" and F: "F = FontInfo Font"
    and bits: "96 * font_bytes F * sint (FontHeight F) \<le> int (length (pFontBits Font))"
    and X: "0 \<le> sint X" "sint X + sint (FontWidth F) \<le> LCD_WIDTH"
    and Y: "0 \<le> sint Y" "sint Y + sint (FontHeight F) \<le> LCD_HEIGHT"
  shows "\<exists>img'. dLcdDrawChar pFontBits C X Y Font Ch img = Some img' \<and>
    alters (stamp (glyph (pFontBits Font) F Ch) (C \<noteq> 0) (sint X) (sint Y) (sint (FontWidth F)) (sint (FontHeight F))) img img'"
proof -
  let ?B = "font_bytes F" and ?H = "sint (FontHeight F)" and ?W = "sint (FontWidth F)" and ?bits = "pFontBits Font"
  note f = font_facts [of Font, folded F]
  define c where "c = sint (char_index F (Ch - 0x20))"
  note idx = char_index_value [OF Ch F refl refl]
  have c: "0 \<le> c" "c + 16 * ?B * (?H - 1) + ?B \<le> int (length ?bits)" "c + 16 * ?B * ?H \<le> 32767"
    using idx bits unfolding c_def by simp_all
  have B: "nat ?B = nat ?B" "int (nat ?B) = ?B" using f(4) by simp_all
  have row: "inside ?bits (c + y * (16 * ?B)) (nat ?B)" if "0 \<le> y" "y < ?H" for y
  proof -
    have "y * (16 * ?B) \<le> (?H - 1) * (16 * ?B)" "0 \<le> y * (16 * ?B)" using that f(4) by (auto intro: mult_right_mono)
    then show ?thesis using c B(2) by (simp add: inside_def algebra_simps)
  qed
  have glyph: "glyph ?bits F Ch x y = bit_at ?bits (c + y * (16 * ?B)) x" for x y
    unfolding glyph_def c_def idx(1) Let_def by (simp add: algebra_simps)
  have H: "int (unat (FontHeight F)) = ?H" by (rule f(11))
  have range: "sint Ch \<ge> sint (FontFirst F) \<and> sint Ch \<le> sint (FontLast F)"
    using Ch f(2,3) sint8_range(2) [of Ch] by simp
  show ?thesis
  proof (cases "?W mod 8 = 0 \<and> sint X mod 8 = 0")
    case True
    have W: "?W = 8 * ?B" "8 * (sint X div 8) = sint X" "max 1 (nat (?W div 8)) = nat ?B" "?W * sint (FontHorz F) div 8 = 16 * ?B"
      using True f(1,4,10) by auto
    have step: "sint (to16 (16 * ?B)) = 16 * ?B" by (rule sint_of_int_range) (use f(4,5) in simp_all)
    have j: "sint (lcd_index X Y) = sint X div 8 + sint Y * LCD_ROW"
      by (rule lcd_index_on) (use X Y f(7,8) in auto)
    have ins: "inside ?bits (0 + sint (char_index F (Ch - 0x20)) + int y * sint (to16 (16 * ?B))) (nat ?B)"
      if "y < unat (FontHeight F)" for y
      using row [of "int y"] that H unfolding step c_def by simp
    have guard: "0 \<le> sint X div 8 + y * LCD_ROW \<and> sint X div 8 + y * LCD_ROW < int LCD_BUFFER_SIZE"
      if "0 \<le> y" "y < LCD_HEIGHT" for y
      using byte_index [of "sint X" y] X that f(7) by (simp add: lcd_consts)
    have k: "0 \<le> sint X div 8" "8 * (sint X div 8 + int (nat ?B)) \<le> LCD_WIDTH"
      "sint Y + int (unat (FontHeight F)) \<le> LCD_HEIGHT" "0 \<le> sint (to16 (16 * ?B))"
      "0 \<le> sint (char_index F (Ch - 0x20))"
      "sint (char_index F (Ch - 0x20)) + int (unat (FontHeight F)) * sint (to16 (16 * ?B)) \<le> 32767"
      using X Y W B(2) H f(4) c unfolding step c_def by (simp_all add: algebra_simps)
    have "\<exists>v. copy_rows C (\<lambda>j _. 0 \<le> j \<and> j < int LCD_BUFFER_SIZE) (nat ?B) ?bits 0 (to16 (16 * ?B))
          (unat (FontHeight F)) (char_index F (Ch - 0x20)) (lcd_index X Y) img = Some v \<and>
        alters (stamp (\<lambda>x y. bit_at ?bits (0 + sint (char_index F (Ch - 0x20)) + y * sint (to16 (16 * ?B))) x) (C \<noteq> 0)
          (8 * (sint X div 8)) (sint Y) (8 * int (nat ?B)) (int (unat (FontHeight F)))) img v"
      by (rule copy_rows_run [OF assms(1) k(1,2) Y(1) k(3) j k(4-6)]) (use guard ins in \<open>blast, blast\<close>)
    then obtain v where v: "copy_rows C (\<lambda>j _. 0 \<le> j \<and> j < int LCD_BUFFER_SIZE) (nat ?B) ?bits 0 (to16 (16 * ?B))
          (unat (FontHeight F)) (char_index F (Ch - 0x20)) (lcd_index X Y) img = Some v"
        "alters (stamp (\<lambda>x y. bit_at ?bits (0 + c + y * (16 * ?B)) x) (C \<noteq> 0) (8 * (sint X div 8)) (sint Y) (8 * ?B) ?H) img v"
      unfolding H step c_def B(2) by blast
    have "dLcdDrawChar pFontBits C X Y Font Ch img = Some v"
      using True range v(1) f(2) unfolding W(3,4) [symmetric] by (simp add: dLcdDrawChar_def F [symmetric] Let_def)
    with v(2) show ?thesis unfolding W(2) W(1) [symmetric] by (intro exI [of _ v]) (simp add: glyph [abs_def])
  next
    case False
    have M: "sint (X + FontWidth F) = sint X + ?W"
      using sint_sum [of X "FontWidth F"] X f(7) by (simp add: lcd_consts)
    have start: "sint (char_index F (Ch - 0x20) + of_nat y * to16 (?B * sint (FontHorz F))) = c + int y * (16 * ?B)" if "int y < ?H" for y
    proof -
      have "char_index F (Ch - 0x20) + of_nat y * to16 (?B * sint (FontHorz F)) = to16 (c + int y * (16 * ?B))"
        by (simp add: c_def f(1) mult.commute)
      moreover have "int y * (16 * ?B) \<le> ?H * (16 * ?B)" "0 \<le> int y * (16 * ?B)" using that f(4) by (auto intro: mult_right_mono)
      then have "0 \<le> c + int y * (16 * ?B)" "c + int y * (16 * ?B) \<le> 32767" using c by (simp_all add: algebra_simps)
      ultimately show ?thesis by (simp only:) (rule sint_of_int_range; simp)
    qed
    let ?start = "\<lambda>y. sint (char_index F (Ch - 0x20) + of_nat y * to16 (?B * sint (FontHorz F)))"
    have ins: "inside ?bits (?start y) (nat ?B)" if "y \<in> set [0..<unat (FontHeight F)]" for y
      using that start [of y] row [of "int y"] H by simp
    obtain v where v: "draw_rows C X (X + FontWidth F) ?bits (nat ?B) ?start [0..<unat (FontHeight F)] Y img = Some v"
        "alters (stamp (\<lambda>x y. bit_at ?bits (?start ([0..<unat (FontHeight F)] ! nat y)) x) (C \<noteq> 0) (sint X) (sint Y) ?W ?H) img v"
      using draw_rows_run [OF assms(1), of X "X + FontWidth F" "nat ?B" Y "[0..<unat (FontHeight F)]" ?bits ?start C]
        ins X Y f(5,6,7) M B(2) H by (auto simp: lcd_consts)
    have "alters (stamp (glyph ?bits F Ch) (C \<noteq> 0) (sint X) (sint Y) ?W ?H) img v"
    proof (rule stamp_cong [OF v(2)])
      fix x y :: int assume "0 \<le> y" "y < ?H"
      then have "[0..<unat (FontHeight F)] ! nat y = nat y" using H by (simp add: nat_less_iff)
      then show "glyph ?bits F Ch x y = bit_at ?bits (?start ([0..<unat (FontHeight F)] ! nat y)) x"
        using start [of "nat y"] \<open>0 \<le> y\<close> \<open>y < ?H\<close> by (simp add: glyph)
    qed
    moreover have "dLcdDrawChar pFontBits C X Y Font Ch img = Some v"
      using False range v(1) f(2) by (auto simp: dLcdDrawChar_def F [symmetric] Let_def)
    ultimately show ?thesis by blast
  qed
qed

theorem lcd_char_witness:
  "\<exists>img'. dLcdDrawChar (\<lambda>_. replicate 3072 0x81) 1 8 8 LARGE_FONT 65 blank = Some img' \<and>
    alters (stamp (glyph (replicate 3072 0x81) (FontInfo LARGE_FONT) 65) True 8 8 16 16) blank img'"
proof -
  have "font_bytes (FontInfo LARGE_FONT) = 2" by (simp add: font_bytes_def)
  then show ?thesis
    using lcd_char [OF blank_lcd _ refl, of 65 LARGE_FONT "\<lambda>_. replicate 3072 0x81" 8 8 1] by (simp add: lcd_consts)
qed

end
