(* ===== verification/VM_Pictures.thy ===== *)
theory VM_Pictures
  imports VM_Bitmaps
begin

text \<open>
  Bitmaps, what the drawing routines do not check, and the screen: the conversion of an image
  for the frame buffer shows every pixel of it.
\<close>

subsection \<open>Bitmaps\<close>

lemma uint8_range: "0 \<le> uint w" "uint w < 256" for w :: UBYTE
  using uint_lt2p [of w] by simp_all

lemma unat8: "int (unat w) = uint w" "y < unat w \<longleftrightarrow> int y < uint w" for w :: UBYTE
proof -
  show e: "int (unat w) = uint w" by simp
  show "y < unat w \<longleftrightarrow> int y < uint w" unfolding e [symmetric] by (rule of_nat_less_iff [symmetric])
qed

lemma sint_ucast8: "sint (ucast w :: DATA16) = uint w" for w :: UBYTE
proof -
  have "- 32768 \<le> uint w" by (rule order_trans [OF _ uint_ge_0]) simp
  with uint8_range(2) [of w] have "sint (word_of_int (uint w) :: DATA16) = uint w" by (intro sint_of_int_range) simp_all
  then show ?thesis by simp
qed

lemma bitmap_rows:
  fixes w h :: UBYTE
  assumes "is_lcd img" and C: "uint h * ((uint w + 7) div 8) \<le> int (length bits)"
    and XY: "sint X + uint w + 7 \<le> 32767" "sint Y + uint h \<le> 32767"
  shows "\<exists>img'. draw_rows C X (X + ucast w) bits (nat ((uint w + 7) div 8))
      (\<lambda>Y. sint (to16 (int Y * ((uint w + 7) div 8)))) [0..<unat h] Y img = Some img' \<and>
    alters (stamp (\<lambda>x y. bit_at bits (y * ((uint w + 7) div 8)) x) (C \<noteq> 0) (sint X) (sint Y) (uint w) (uint h)) img img'"
proof -
  let ?B = "(uint w + 7) div 8" and ?start = "\<lambda>y. sint (to16 (int y * ((uint w + 7) div 8)))"
  have w: "0 \<le> uint w" "uint w < 256" "0 \<le> uint h" "uint h < 256"
    by (rule uint8_range(1), rule uint8_range(2), rule uint8_range(1), rule uint8_range(2))
  have "0 \<le> (u + 7) div 8 \<and> (u + 7) div 8 \<le> 32 \<and> u \<le> 8 * ((u + 7) div 8) \<and> 8 * ((u + 7) div 8) \<le> u + 7" if "0 \<le> u" "u < 256" for u :: int
    using that by auto
  from this [OF uint8_range [of w]] have B: "0 \<le> ?B" "?B \<le> 32" "uint w \<le> 8 * ?B" "8 * ?B \<le> uint w + 7" "int (nat ?B) = ?B" by simp_all
  have M: "sint (X + ucast w) = sint X + uint w"
    using sint_sum [of X "ucast w"] XY w sint16_range(1) [of X] by (simp add: sint_ucast8)
  have row: "int y * ?B \<le> (uint h - 1) * ?B" "0 \<le> int y * ?B" "?start y = int y * ?B" if "y < unat h" for y
  proof -
    show le: "int y * ?B \<le> (uint h - 1) * ?B" using that B(1) unfolding unat8 by (intro mult_right_mono) simp_all
    show ge: "0 \<le> int y * ?B" using B(1) by simp
    have "(uint h - 1) * ?B \<le> 255 * 32" by (rule mult_mono) (use w(4) B(1,2) in linarith)+
    then show "?start y = int y * ?B" using le ge by (intro sint_of_int_range) auto
  qed
  have ins: "inside bits (?start y) (nat ?B)" if "y \<in> set [0..<unat h]" for y
  proof -
    from that have "y < unat h" by simp
    note r = row [OF this]
    have "(uint h - 1) * ?B + ?B \<le> int (length bits)" using C by (simp add: algebra_simps)
    with r show ?thesis unfolding inside_def r(3) B(5) by linarith
  qed
  have bounds: "sint X \<le> sint (X + ucast w)" "sint X + 8 * int (nat ?B) \<le> 32767"
    "sint (X + ucast w) - sint X \<le> 8 * int (nat ?B)" "sint Y + int (length [0..<unat h]) \<le> 32767"
    unfolding M B(5) length_upt diff_zero unat8 using XY w B(3,4) by linarith+
  have h: "int (length [0..<unat h]) = uint h" "sint (X + ucast w) - sint X = uint w"
    unfolding length_upt diff_zero unat8 M by linarith+
  obtain v where v: "draw_rows C X (X + ucast w) bits (nat ?B) ?start [0..<unat h] Y img = Some v"
      "alters (stamp (\<lambda>x y. bit_at bits (?start ([0..<unat h] ! nat y)) x) (C \<noteq> 0) (sint X) (sint Y) (uint w) (uint h)) img v"
    using draw_rows_run [where C = C and start = ?start, OF assms(1) bounds ins] unfolding h by blast
  have "alters (stamp (\<lambda>x y. bit_at bits (y * ?B) x) (C \<noteq> 0) (sint X) (sint Y) (uint w) (uint h)) img v"
  proof (rule stamp_cong [OF v(2)])
    fix x y :: int assume y: "0 \<le> y" "y < uint h"
    then have "nat y < unat h" unfolding unat8 by simp
    then show "bit_at bits (y * ?B) x = bit_at bits (?start ([0..<unat h] ! nat y)) x" using row(3) [of "nat y"] y by simp
  qed
  with v(1) show ?thesis by blast
qed

lemma bitmap_bytes:
  fixes w h :: UBYTE
  assumes "is_lcd img" and bits: "uint h * (uint w div 8) \<le> int (length bits)"
    and al: "sint X mod 8 = 0" "uint w mod 8 = 0"
    and X: "0 \<le> sint X" "sint X + uint w \<le> LCD_WIDTH" and Y: "0 \<le> sint Y" "sint Y + uint h \<le> LCD_HEIGHT"
  shows "\<exists>img'. copy_rows C (\<lambda>j Tmp. j + int Tmp < int LCD_BUFFER_SIZE \<and> sint (X + 8 * of_nat Tmp) < LCD_WIDTH \<and>
      sint (X + 8 * of_nat Tmp) \<ge> 0) (nat (uint w div 8)) bits 0 (to16 (uint w div 8)) (unat h) 0 (lcd_index X Y) img = Some img' \<and>
    alters (stamp (\<lambda>x y. bit_at bits (y * (uint w div 8)) x) (C \<noteq> 0) (sint X) (sint Y) (uint w) (uint h)) img img'"
proof -
  let ?B = "uint w div 8"
  have w: "0 \<le> uint w" "0 \<le> uint h" "uint w = 8 * ?B" "8 * (sint X div 8) = sint X" "0 \<le> ?B"
    using al uint8_range(1) [of w] by (auto simp: pos_imp_zdiv_nonneg_iff)
  have B: "int (nat ?B) = ?B" "int (unat h) = uint h" using w(5) unat8(1) by simp_all
  have step: "sint (to16 ?B) = ?B" by (rule sint_of_int_range) (use w X in \<open>auto simp: lcd_consts\<close>)
  show ?thesis
  proof (cases "uint w = 0")
    case True
    have "copy_rows C g 0 bits 0 0 n i j img = Some img" for g n i j
      by (induction n arbitrary: i j) simp_all
    with True show ?thesis using stamp_empty [OF assms(1)] by simp
  next
    case False
    have j: "sint (lcd_index X Y) = sint X div 8 + sint Y * LCD_ROW"
      by (rule lcd_index_on) (use X Y w(1,2) False in linarith)+
    have hB: "uint h * ?B \<le> 128 * 22" using X Y w by (intro mult_mono) (auto simp: lcd_consts)
    have k: "0 \<le> sint X div 8" "8 * (sint X div 8 + int (nat ?B)) \<le> LCD_WIDTH" "sint Y + int (unat h) \<le> LCD_HEIGHT"
      "0 \<le> sint (to16 ?B)" "0 \<le> sint (0 :: DATA16)" "sint (0 :: DATA16) + int (unat h) * sint (to16 ?B) \<le> 32767"
      unfolding step B using X Y w hB by simp_all
    have guard: "sint X div 8 + y * LCD_ROW + int t < int LCD_BUFFER_SIZE \<and> sint (X + 8 * of_nat t) < LCD_WIDTH \<and> sint (X + 8 * of_nat t) \<ge> 0"
      if "0 \<le> y" "y < LCD_HEIGHT" "t < nat ?B" for y t
    proof -
      have t: "sint X + 8 * int t < LCD_WIDTH" "sint X div 8 + int t \<le> 22" using that(3) X(2) w by (auto simp: lcd_consts)
      have "(8 * of_nat t :: DATA16) = to16 (8 * int t)" by simp
      then have "sint (8 * of_nat t :: DATA16) = 8 * int t"
        using t(1) X(1) by (simp only:) (rule sint_of_int_range; simp add: lcd_consts)
      then have "sint (X + 8 * of_nat t) = sint X + 8 * int t"
        using sint_sum [of X "8 * of_nat t"] t(1) X(1) by (simp add: lcd_consts)
      with t X(1) that show ?thesis by (simp add: lcd_consts)
    qed
    have ins: "inside bits (0 + sint (0 :: DATA16) + int y * sint (to16 ?B)) (nat ?B)" if "y < unat h" for y
    proof -
      have "int y * ?B \<le> (uint h - 1) * ?B" using that w(5) unfolding unat8 by (intro mult_right_mono) simp_all
      then show ?thesis unfolding step using bits w(5) by (simp add: inside_def algebra_simps)
    qed
    have "\<exists>v. copy_rows C (\<lambda>j Tmp. j + int Tmp < int LCD_BUFFER_SIZE \<and> sint (X + 8 * of_nat Tmp) < LCD_WIDTH \<and>
        sint (X + 8 * of_nat Tmp) \<ge> 0) (nat ?B) bits 0 (to16 ?B) (unat h) 0 (lcd_index X Y) img = Some v \<and>
      alters (stamp (\<lambda>x y. bit_at bits (0 + sint (0 :: DATA16) + y * sint (to16 ?B)) x) (C \<noteq> 0) (8 * (sint X div 8)) (sint Y)
        (8 * int (nat ?B)) (int (unat h))) img v"
      by (rule copy_rows_run [OF assms(1) k(1,2) Y(1) k(3) j k(4-6)]) (use guard ins in \<open>blast, blast\<close>)
    then show ?thesis unfolding step B w(4) w(3) [symmetric] by simp
  qed
qed

text \<open>C27: a bitmap that fits the display is drawn at every position, by the copy of whole
  bytes or bit by bit; where it is drawn bit by bit (its position or its width is not a multiple
  of 8), it may lie outside the display and is cut off at the edges.\<close>

theorem lcd_bitmap:
  assumes "is_lcd img" and bits: "uint h * ((uint w + 7) div 8) \<le> int (length bits)"
    and place: "0 \<le> sint X \<and> sint X + uint w \<le> LCD_WIDTH \<and> 0 \<le> sint Y \<and> sint Y + uint h \<le> LCD_HEIGHT \<or>
      (sint X mod 8 \<noteq> 0 \<or> uint w mod 8 \<noteq> 0) \<and> sint X + uint w + 7 \<le> 32767 \<and> sint Y + uint h \<le> 32767"
  shows "\<exists>img'. dLcdDrawBitmap C X Y (Some (w # h # bits)) img = Some img' \<and>
    alters (stamp (\<lambda>x y. bit_at bits (y * ((uint w + 7) div 8)) x) (C \<noteq> 0) (sint X) (sint Y) (uint w) (uint h)) img img'"
proof (cases "sint X mod 8 \<noteq> 0 \<or> uint w mod 8 \<noteq> 0")
  case True
  have XY: "sint X + uint w + 7 \<le> 32767" "sint Y + uint h \<le> 32767" using place by (auto simp: lcd_consts)
  have "int y * ((uint w + 7) div 8 * 8) div 8 = int y * ((uint w + 7) div 8)" for y
    by (simp add: mult.assoc [symmetric])
  with True bitmap_rows [OF assms(1) bits XY, of C] show ?thesis
    by (simp add: dLcdDrawBitmap_def get_byte_def Let_def)
next
  case False
  then have e: "(uint w + 7) div 8 = uint w div 8" by presburger
  from False bitmap_bytes [OF assms(1) bits [unfolded e]] place show ?thesis
    unfolding e by (simp add: dLcdDrawBitmap_def get_byte_def Let_def)
qed

subsection \<open>Writes and reads outside\<close>

lemma fold_upd_fails: "0 < n \<Longrightarrow> f 0 s = None \<Longrightarrow> fold_upd f [0..<n] s = None"
  by (simp add: upt_rec)

lemma copy_rows_fails:
  assumes "0 < n" "0 < h" "guard (sint j) 0"
    and "get_byte bits (p + sint i) = None \<or> sint j < 0 \<or> int (length img) \<le> sint j"
  shows "copy_rows C guard n bits p step h i j img = None"
proof -
  obtain h' where h: "h = Suc h'" using assms(2) by (cases h) auto
  have "fold_upd (\<lambda>Tmp img. if guard (sint j) Tmp then do {
      b \<leftarrow> get_byte bits (p + (sint i + int Tmp)); put_byte img (sint j + int Tmp) (invert C b) } else Some img) [0..<n] img = None"
    by (rule fold_upd_fails [OF assms(1)]) (use assms(3,4) in \<open>auto simp: put_byte_def bind_conv\<close>)
  then show ?thesis unfolding h by simp
qed

lemma cdiv_positive: "8 \<le> x \<Longrightarrow> 0 < cdiv x 8"
  by (simp add: cdiv_def pos_imp_zdiv_pos_iff)

lemma icon_height: "0 < unat (dLcdGetIconHeight T)"
  by (cases T) simp_all

lemma lcd_index_outside:
  assumes "- 1424 \<le> sint Y" "sint Y \<le> 1400" "0 \<le> sint X" "sint X < LCD_WIDTH"
  shows "sint (lcd_index X Y) = sint X div 8 + sint Y * LCD_ROW"
  unfolding lcd_index_def by (rule sint_of_int_range) (use assms in \<open>auto simp: lcd_consts\<close>)

text \<open>C30: what the copy of whole bytes does not check. A bitmap that starts above the
  display is written before the image, if its position and width are multiples of 8; a picture
  that starts below the display is written behind it; and the icon whose number is the number
  of icons is accepted and read behind the bits of the icons.\<close>

theorem lcd_unchecked:
  assumes "is_lcd img" and X: "0 \<le> sint X" "sint X < LCD_WIDTH"
  shows "(sint X mod 8 = 0 \<and> uint w mod 8 = 0 \<and> 0 < uint w \<and> 0 < uint h \<and> - 1424 \<le> sint Y \<and> sint Y < 0 \<longrightarrow>
      dLcdDrawBitmap C X Y (Some (w # h # bits)) img = None) \<and>
    (8 \<le> sint W \<and> H \<noteq> 0 \<and> LCD_HEIGHT \<le> sint Y \<and> sint Y \<le> 1400 \<longrightarrow>
      dLcdDrawPicture C X Y W H bits p img = None) \<and>
    (8 \<le> sint (dLcdGetIconWidth icons T) \<and> 0 \<le> sint No \<and> sint No = sint (dLcdGetNoOfIcons icons T) \<and>
      cdiv (sint No * sint (dLcdGetIconWidth icons T) * sint (dLcdGetIconHeight T)) 8 = int (length (pIconBits (icons T))) \<and>
      length (pIconBits (icons T)) \<le> 32767 \<longrightarrow> dLcdDrawIcon icons C X Y T No img = None)"
proof (intro conjI impI)
  assume a: "sint X mod 8 = 0 \<and> uint w mod 8 = 0 \<and> 0 < uint w \<and> 0 < uint h \<and> - 1424 \<le> sint Y \<and> sint Y < 0"
  then have j: "sint (lcd_index X Y) = sint X div 8 + sint Y * LCD_ROW" "sint (lcd_index X Y) < 0"
    using lcd_index_outside [OF _ _ X, of Y] X by (auto simp: lcd_consts)
  have n: "0 < nat (uint w div 8)" "0 < unat h" using a unat8(2) [of 0 h] by auto
  have "copy_rows C (\<lambda>j Tmp. j + int Tmp < int LCD_BUFFER_SIZE \<and> sint (X + 8 * of_nat Tmp) < LCD_WIDTH \<and>
      sint (X + 8 * of_nat Tmp) \<ge> 0) (nat (uint w div 8)) bits 0 (to16 (uint w div 8)) (unat h) 0 (lcd_index X Y) img = None"
    by (rule copy_rows_fails [OF n]) (use j X in \<open>auto simp: lcd_consts\<close>)
  with a show "dLcdDrawBitmap C X Y (Some (w # h # bits)) img = None"
    by (simp add: dLcdDrawBitmap_def get_byte_def Let_def)
next
  assume a: "8 \<le> sint W \<and> H \<noteq> 0 \<and> LCD_HEIGHT \<le> sint Y \<and> sint Y \<le> 1400"
  then have j: "sint (lcd_index X Y) = sint X div 8 + sint Y * LCD_ROW" "int (length img) \<le> sint (lcd_index X Y)"
    using lcd_index_outside [OF _ _ X, of Y] X assms(1) by (auto simp: lcd_consts is_lcd_def)
  have n: "0 < nat (cdiv (sint W) 8)" "0 < unat H" using a cdiv_positive by (auto simp: unat_gt_0)
  show "dLcdDrawPicture C X Y W H bits p img = None"
    unfolding dLcdDrawPicture_def by (rule copy_rows_fails [OF n]) (use j in auto)
next
  assume a: "8 \<le> sint (dLcdGetIconWidth icons T) \<and> 0 \<le> sint No \<and> sint No = sint (dLcdGetNoOfIcons icons T) \<and>
      cdiv (sint No * sint (dLcdGetIconWidth icons T) * sint (dLcdGetIconHeight T)) 8 = int (length (pIconBits (icons T))) \<and>
      length (pIconBits (icons T)) \<le> 32767"
  let ?n = "int (length (pIconBits (icons T)))"
  have p: "sint (to16 ?n) = ?n" by (rule sint_of_int_range) (use a in simp_all)
  have n: "0 < nat (cdiv (sint (dLcdGetIconWidth icons T)) 8)" "0 < unat (dLcdGetIconHeight T)"
    using a cdiv_positive by (auto simp: icon_height)
  have "dLcdDrawPicture C X Y (dLcdGetIconWidth icons T) (dLcdGetIconHeight T) (pIconBits (icons T)) ?n img = None"
    unfolding dLcdDrawPicture_def by (rule copy_rows_fails [OF n]) (simp_all add: get_byte_def)
  moreover have "0 \<le> sint No \<and> sint No \<le> sint (dLcdGetNoOfIcons icons T)" using a by simp
  moreover have "cdiv (sint No * sint (dLcdGetIconWidth icons T) * sint (dLcdGetIconHeight T)) 8 = ?n" using a by blast
  ultimately show "dLcdDrawIcon icons C X Y T No img = None"
    by (simp only: dLcdDrawIcon_def Let_def p if_True simp_thms)
qed

subsection \<open>The screen\<close>

lemma length_triples: "length (triples n P) = n"
  by (induction n arbitrary: P) simp_all

lemma triples_nth: "i < n \<Longrightarrow> triples n P ! i = PixelTab ! unat (drop_bit (3 * i) P AND 7)"
proof (induction n arbitrary: i P)
  case (Suc n)
  then show ?case by (cases i) (simp_all add: drop_bit_drop_bit add.commute)
qed simp

lemma length_blocks: "(\<And>y. y < n \<Longrightarrow> length (f y) = m) \<Longrightarrow> length (concat (map f [0..<n])) = n * m"
  by (induction n) simp_all

lemma nth_blocks:
  assumes "\<And>y. y < n \<Longrightarrow> length (f y) = m" and "y < n" "k < m"
  shows "concat (map f [0..<n]) ! (y * m + k) = f y ! k"
  using assms
proof (induction n arbitrary: y)
  case (Suc n)
  have len: "length (concat (map f [0..<n])) = n * m"
    by (rule length_blocks) (simp add: Suc.prems(1))
  show ?case
  proof (cases "y = n")
    case False
    then have "y < n" using Suc.prems(2) by simp
    then have "y * m + k < n * m" using Suc.prems(3) mult_le_mono1 [of "Suc y" n m] by simp
    then show ?thesis using Suc.IH [of y] Suc.prems \<open>y < n\<close> by (simp add: nth_append len)
  qed (use len in \<open>simp add: nth_append\<close>)
qed simp

text \<open>The three pixels of a byte of the frame buffer.\<close>

definition pixel_bit :: "nat \<Rightarrow> UBYTE" where
  "pixel_bit i = (if i \<noteq> 0 then (if i div 2 \<noteq> 0 then 0x1 else 0x8) else 0x80)"

lemma pixel_tab:
  assumes "i < 3"
  shows "PixelTab ! unat (v AND 7) AND pixel_bit i \<noteq> 0 \<longleftrightarrow> bit (v :: ULONG) i"
proof -
  let ?u = "v AND 7"
  have "bit v i = bit ?u i" using assms by (auto simp: bit_simps less_Suc_eq numeral_3_eq_3 numeral_2_eq_2)
  moreover have "unat ?u < 8"
  proof -
    have "?u = take_bit 3 v" by (simp add: take_bit_eq_mask mask_eq_exp_minus_1)
    then show ?thesis by (simp add: unsigned_take_bit_eq take_bit_nat_less_exp [of 3, simplified])
  qed
  then have "unat ?u = 0 \<or> unat ?u = 1 \<or> unat ?u = 2 \<or> unat ?u = 3 \<or> unat ?u = 4 \<or> unat ?u = 5 \<or> unat ?u = 6 \<or> unat ?u = 7"
    by linarith
  moreover have "?u = of_nat (unat ?u)" by simp
  moreover have "i = 0 \<or> i = 1 \<or> i = 2" using assms by auto
  ultimately show ?thesis
    by (elim disjE; simp only:; simp add: PixelTab_def pixel_bit_def)
qed

lemma bit_byte: "bit b n \<Longrightarrow> n < 8" for b :: UBYTE
  using bit_imp_le_length [of b n] by simp

lemma three_bytes_bit:
  assumes "m < 24"
  shows "bit (three_bytes r k) m = bit (r ! (k + m div 8)) (m mod 8)"
proof -
  have e: "bit (three_bytes r k) m \<longleftrightarrow> (m < 8 \<and> bit (r ! k) m) \<or> (8 \<le> m \<and> bit (r ! (k + 1)) (m - 8)) \<or> (16 \<le> m \<and> bit (r ! (k + 2)) (m - 16))"
    using assms by (auto simp: three_bytes_def bit_simps dest: bit_byte)
  consider "m < 8" | "8 \<le> m" "m < 16" | "16 \<le> m" using assms by linarith
  then show ?thesis
  proof cases
    case 1
    then show ?thesis using e by simp
  next
    case 2
    then have "m div 8 = 1" "m mod 8 = m - 8" by (simp_all add: div_nat_eqI mod_if)
    with 2 show ?thesis using e by simp
  next
    case 3
    then have "m div 8 = 2" "m mod 8 = m - 16" using assms by (simp_all add: div_nat_eqI mod_if)
    with 3 show ?thesis using e by (auto dest: bit_byte)
  qed
qed

lemma two_bytes_bit:
  assumes "m < 16"
  shows "bit (ucast (r ! k) OR push_bit 8 (ucast (r ! (k + 1))) :: ULONG) m = bit ((r :: UBYTE list) ! (k + m div 8)) (m mod 8)"
proof (cases "m < 8")
  case False
  then have "m div 8 = 1" "m mod 8 = m - 8" using assms by (simp_all add: div_nat_eqI mod_if)
  with False assms show ?thesis by (auto simp: bit_simps dest: bit_byte)
qed (auto simp: bit_simps dest: bit_byte)

lemma length_convert_row: "length (convert_row r) = 60"
  using length_blocks [of 7 "\<lambda>X. triples 8 (three_bytes r (3 * X))" 8]
  by (simp add: convert_row_def length_triples)

lemma convert_row_bits:
  assumes "k < 60" "i < 3"
  shows "convert_row r ! k AND pixel_bit i \<noteq> 0 \<longleftrightarrow> bit (r ! ((3 * k + i) div 8)) ((3 * k + i) mod 8)"
proof (cases "k < 56")
  case True
  let ?X = "k div 8" and ?j = "k mod 8"
  have k: "k = ?X * 8 + ?j" "?X < 7" "?j < 8" using True by simp_all
  have "concat (map (\<lambda>X. triples 8 (three_bytes r (3 * X))) [0..<7]) ! k = triples 8 (three_bytes r (3 * ?X)) ! ?j"
    by (subst k(1), rule nth_blocks) (simp_all add: length_triples k(2))
  moreover have "length (concat (map (\<lambda>X. triples 8 (three_bytes r (3 * X))) [0..<7])) = 7 * 8"
    by (rule length_blocks) (simp add: length_triples)
  ultimately have row: "convert_row r ! k = PixelTab ! unat (drop_bit (3 * ?j) (three_bytes r (3 * ?X)) AND 7)"
    unfolding convert_row_def using True by (simp add: nth_append triples_nth)
  have "3 * ?j + i < 24" using assms(2) k(3) by simp
  then have "bit (three_bytes r (3 * ?X)) (3 * ?j + i) = bit (r ! (3 * ?X + (3 * ?j + i) div 8)) ((3 * ?j + i) mod 8)"
    by (rule three_bytes_bit)
  moreover have m: "3 * k + i = 8 * (3 * ?X) + (3 * ?j + i)" using k(1) by linarith
  moreover have "(3 * k + i) div 8 = 3 * ?X + (3 * ?j + i) div 8" "(3 * k + i) mod 8 = (3 * ?j + i) mod 8"
    unfolding m by (rule div_mult_self4, simp, rule mod_mult_self4)
  ultimately show ?thesis
    unfolding row pixel_tab [OF assms(2)] by (simp only: bit_drop_bit_eq comp_def)
next
  case False
  let ?P = "ucast (r ! 21) OR push_bit 8 (ucast (r ! 22)) :: ULONG"
  define j where "j = k - 56"
  have j: "k = 56 + j" "j < 4" using False assms(1) by (simp_all add: j_def)
  have "length (concat (map (\<lambda>X. triples 8 (three_bytes r (3 * X))) [0..<7])) = 7 * 8"
    by (rule length_blocks) (simp add: length_triples)
  then have row: "convert_row r ! k = PixelTab ! unat (drop_bit (3 * j) ?P AND 7)"
    unfolding convert_row_def using j by (simp add: nth_append triples_nth)
  have "3 * j + i < 16" using assms(2) j by simp
  from two_bytes_bit [OF this, of r 21] have "bit ?P (3 * j + i) = bit (r ! (21 + (3 * j + i) div 8)) ((3 * j + i) mod 8)" by simp
  moreover have m: "3 * k + i = 8 * 21 + (3 * j + i)" using j(1) by simp
  moreover have "(3 * k + i) div 8 = 21 + (3 * j + i) div 8" "(3 * k + i) mod 8 = (3 * j + i) mod 8"
    unfolding m by (rule div_mult_self4, simp, rule mod_mult_self4)
  ultimately show ?thesis
    unfolding row pixel_tab [OF assms(2)] by (simp only: bit_drop_bit_eq comp_def)
qed

text \<open>What the frame buffer shows is what the image shows.\<close>

lemma fb_shows:
  assumes "is_lcd img" "x < 178" "y < 128"
  shows "fb_color (convert_image img) x y = (if shown img (int x) (int y) then BLACK else WHITE)"
proof -
  let ?r = "take 23 (drop (23 * y) img)"
  have "convert_image img ! (x div 3 + y * 60) = convert_row ?r ! (x div 3)"
    using nth_blocks [of 128 "\<lambda>Y. convert_row (take 23 (drop (23 * Y) img))" 60 y "x div 3"] assms(2,3)
    by (simp add: convert_image_def length_convert_row LCD_HEIGHT_def add.commute)
  moreover have "convert_row ?r ! (x div 3) AND pixel_bit (x mod 3) \<noteq> 0 \<longleftrightarrow> bit (?r ! (x div 8)) (x mod 8)"
    using convert_row_bits [of "x div 3" "x mod 3" ?r] assms(2) by simp
  moreover have "?r ! (x div 8) = img ! (x div 8 + y * 23)"
  proof -
    have "x div 8 < 23" "23 * y + 23 \<le> length img" using assms by (simp_all add: is_lcd_def lcd_consts)
    then show ?thesis by (simp add: add.commute mult.commute)
  qed
  moreover have "nat (int x div 8 + int y * 23) = x div 8 + y * 23" "nat (int x mod 8) = x mod 8" "LCD_ROW = 23"
    by (simp_all add: nat_add_distrib nat_div_distrib nat_mod_distrib lcd_consts)
  then have "shown img (int x) (int y) = bit (img ! (x div 8 + y * 23)) (x mod 8)" by (simp only: shown_def)
  moreover have "fb_color (convert_image img) x y =
      (if convert_image img ! (x div 3 + y * 60) AND pixel_bit (x mod 3) \<noteq> 0 then BLACK else WHITE)"
    by (simp only: fb_color_def pixel_bit_def Let_def)
  ultimately show ?thesis by simp
qed

text \<open>C28: when an update is allowed and the image has changed, \<open>dLcdUpdate\<close> draws every pixel
  of the screen once, row by row, black exactly where the image shows a bit, and remembers the
  image; an image that is the one shown draws nothing.\<close>

theorem lcd_screen:
  assumes "is_lcd img" and "AllowUpdate d \<noteq> 0"
  shows "Drawn (dLcdUpdate img d) = Drawn d @ (if img = VmLcdBuffer d then [] else
      concat (map (\<lambda>y. map (\<lambda>x. (x, y, if shown img (int x) (int y) then BLACK else WHITE)) [0..<178]) [0..<128])) \<and>
    VmLcdBuffer (dLcdUpdate img d) = img \<and> AllowUpdate (dLcdUpdate img d) = 0 \<and> DisplayUpdate (dLcdUpdate img d) = 0"
proof -
  have "update_to_fb (convert_image img) =
      concat (map (\<lambda>y. map (\<lambda>x. (x, y, if shown img (int x) (int y) then BLACK else WHITE)) [0..<178]) [0..<128])"
    unfolding update_to_fb_def LCD_WIDTH_def LCD_HEIGHT_def
    by (intro arg_cong [where f = concat] map_cong refl) (simp_all add: fb_shows [OF assms(1)])
  then show ?thesis using assms(2) by (simp add: dLcdUpdate_def dLcdAutoUpdate_def dLcdExec_def)
qed

subsection \<open>Examples\<close>

theorem lcd_bitmap_witness:
  "\<exists>img'. dLcdDrawBitmap 1 170 (- 1) (Some [9, 2, 0x81, 1, 0x7F, 0]) blank = Some img' \<and>
    alters (stamp (\<lambda>x y. bit_at [0x81, 1, 0x7F, 0] (y * 2) x) True 170 (- 1) 9 2) blank img'"
  using lcd_bitmap [OF blank_lcd, of 2 9 "[0x81, 1, 0x7F, 0]" 170 "- 1" 1] by (simp add: lcd_consts)

definition sample_icons :: "ICON \<Rightarrow> PICTURE" where
  "sample_icons _ = \<lparr>pIconBits = replicate 24 0xFF, IconSize = 24, IconWidth = 8\<rparr>"

theorem lcd_unchecked_witness:
  "dLcdDrawBitmap 1 0 (- 1) (Some [8, 1, 0xFF]) blank = None \<and> dLcdDrawPicture 1 0 128 8 1 [0xFF] 0 blank = None \<and>
    dLcdDrawIcon sample_icons 1 0 0 NORMAL_ICON 2 blank = None"
proof -
  have "sint (dLcdGetNoOfIcons sample_icons NORMAL_ICON) = 2" "sint (dLcdGetIconWidth sample_icons NORMAL_ICON) = 8"
      "length (pIconBits (sample_icons NORMAL_ICON)) = 24"
    by (simp_all add: dLcdGetNoOfIcons_def dLcdGetIconWidth_def sample_icons_def cdiv_def)
  then show ?thesis
    using lcd_unchecked [OF blank_lcd, of 0 8 1 "- 1" 1 "[0xFF]" 8 1 0 sample_icons NORMAL_ICON 2]
      lcd_unchecked [OF blank_lcd, of 0 8 1 128 1 "[0xFF]" 8 1 0 sample_icons NORMAL_ICON 2]
      lcd_unchecked [OF blank_lcd, of 0 8 1 0 1 "[0xFF]" 8 1 0 sample_icons NORMAL_ICON 2]
    by (simp add: lcd_consts cdiv_def)
qed

theorem lcd_screen_witness:
  "Drawn (dLcdUpdate blank \<lparr>VmLcdBuffer = [], UiLcdBuffer = [], LcdUpdated = 0, AllowUpdate = 1, DisplayUpdate = 0,
      DisplayTimer = 0, Drawn = []\<rparr>) =
    concat (map (\<lambda>y. map (\<lambda>x. (x, y, if shown blank (int x) (int y) then BLACK else WHITE)) [0..<178]) [0..<128])"
proof -
  have "blank \<noteq> []" using blank_lcd by (auto simp: is_lcd_def lcd_consts)
  then show ?thesis
    using lcd_screen [OF blank_lcd, of "\<lparr>VmLcdBuffer = [], UiLcdBuffer = [], LcdUpdated = 0, AllowUpdate = 1,
      DisplayUpdate = 0, DisplayTimer = 0, Drawn = []\<rparr>"] by (simp del: upt.simps)
qed

end
