(* ===== verification/Spec2Isabelle.thy ===== *)
theory Spec2Isabelle
  imports VM_Sched VM_Pictures
begin

text \<open>
  The byte code virtual machine of lms2012-compat, the firmware of the LEGO MINDSTORMS EV3, and the
  drawing functions of its display.

  \<^bold>\<open>The program.\<close> \<open>src/lms2012/lms2012.c\<close> loads byte code images into program slots
  and interprets them. A program has objects (threads, subcalls and blocks), each with its own
  instruction pointer and local variables; the machine runs one object for a time slice,
  saves its registers and goes on with the next object and the next program. A byte code
  reads its parameters from the instruction stream (\<open>PrimParPointer\<close>), and is a C function of
  \<open>c_math.c\<close>, \<open>c_compare.c\<close>, \<open>c_branch.c\<close>, \<open>c_move.c\<close>, \<open>c_timer.c\<close> or of
  \<open>lms2012.c\<close>. \<open>c_memory.c\<close> keeps a table of memory pools, indexed by program and handle,
  on the C heap; arrays are pools with a descriptor.

  \<^bold>\<open>The model.\<close> One record, \<open>vm\<close> of \<open>VM_State\<close>, holds the fields of \<open>VMInstance\<close> and of
  the modules' instances that the modelled code uses, the byte addressed memory (a partial map:
  unmapped addresses are not allocated), the heap's blocks, and the environment: the clock, the
  random numbers, the addresses \<open>malloc\<close> returns, and the answers of the parts that are not
  modelled. Machine integers are words of their width; a handler is a function
  \<open>vm \<Rightarrow> vm option\<close>. The value \<open>None\<close> stands for what C leaves undefined or what does not
  return: access to unmapped memory, the division of the least integer by -1, a shift by less
  than 0 or more than 31, the conversion of a float that does not fit, an endless loop. The
  theories follow the files of the code:

  \<^item> \<open>VM_Prelude\<close>: lemmas on options, C's division and signed words.
  \<^item> \<open>VM_Bytecodes\<close>: \<open>bytecodes.h.in\<close>, limits of \<open>lms2012.h\<close>. The numbers of byte codes and
    sub codes are generated by the build; they are the fields of the record \<open>bytecodes\<close>.
  \<^item> \<open>VM_State\<close>: the structs of \<open>lms2012.h\<close>, \<open>lmstypes.h\<close>, \<open>c_memory.h\<close>, memory access.
  \<^item> \<open>VM_ErrorLog\<close>: \<open>LogErrorNumber\<close>, \<open>LogErrorGet\<close>, \<open>LogErrorNumberExists\<close>, refined to a
    bounded queue that is a list.
  \<^item> \<open>VM_Memory\<close>: \<open>cMemoryRealloc\<close> to \<open>cMemoryResize\<close> and \<open>cMemoryClose\<close>; the contract
    of the pools is the locale \<open>handle_table\<close>.
  \<^item> \<open>VM_Params\<close>: \<open>PrimParPointer\<close>, \<open>PrimParAdvance\<close> and the accessors of the instruction
    pointer. The abstract syntax \<open>operand\<close> and its encoding \<open>enc\<close> are the macros \<open>LC0\<close> to
    \<open>GV4\<close>, \<open>HND\<close> and \<open>ADR\<close>; decoding inverts the encoding. The locale \<open>cell\<close> states what
    loads and stores of one width promise, and executes byte codes of one result once for all widths.
  \<^item> \<open>VM_Float\<close>: IEEE single precision on bit patterns, which the byte codes use for \<open>DATAF\<close>.
  \<^item> \<open>VM_Math\<close>, \<open>VM_Compare\<close>, \<open>VM_Branch\<close>, \<open>VM_Move\<close>, \<open>VM_Timer\<close>: every byte code of the
    file of that name, with its value on every branch.
  \<^item> \<open>VM_Objects\<close>: \<open>ProgramInit\<close>, \<open>ProgramExit\<close>, \<open>ProgramExec\<close>, \<open>ObjectInit\<close>,
    \<open>ObjectExit\<close>, \<open>ObjectExec\<close>, \<open>ObjectReset\<close>, \<open>ObjectEnQueue\<close>, \<open>ObjectDeQueue\<close>: saving and
    restoring the registers, and round robin choice.
  \<^item> \<open>VM_Program\<close>: \<open>GetAmountOfRamForImage\<close>, \<open>ProgramReset\<close>, \<open>ProgramEnd\<close>.
  \<^item> \<open>VM_Calls\<close>: \<open>CopyParsToLocals\<close>, \<open>CopyLocalsToPars\<close> and the byte codes that start, stop
    and call objects and programs.
  \<^item> \<open>VM_Arrays\<close>: \<open>cMemoryArray\<close> with its sub codes, \<open>cMemoryArrayWrite\<close>,
    \<open>cMemoryArrayRead\<close>, \<open>cMemoryArrayAppend\<close>; an array is abstracted to a list.
  \<^item> \<open>VM_Info\<close>: the byte codes of \<open>lms2012.c\<close> for information about programs and the machine,
    break points, random numbers, the memory of an object, ports and notes.
  \<^item> \<open>VM_Dispatch\<close>: the table of byte codes, \<open>BreakPoint\<close>, \<open>Monitor\<close>, the test mode, one round
    of the scheduler (\<open>mSchedCtrl\<close>) and \<open>ExecuteByteCode\<close>. The modules that are not modelled are two
    parameters: \<open>others\<close> says what a byte code of theirs does to the machine, \<open>devices\<close> what
    \<open>cComUpdate\<close>, \<open>cSoundUpdate\<close>, \<open>dynloadUpdateVM\<close>, \<open>cInputUpdate\<close> and \<open>cUiUpdate\<close> do to it when
    the scheduler calls them (the last may end the user's program, for instance).
  \<^item> \<open>VM_Invariant\<close>: the locales \<open>code_invariant\<close> and \<open>machine_invariant\<close>: a predicate that the
    primitive changes of the state keep is kept by every byte code, by the scheduler and by
    \<open>ExecuteByteCode\<close>. The relation \<open>acts\<close> lists what a module may do to the machine: stores into mapped
    memory, the exported functions of \<open>lms2012.c\<close> and \<open>c_memory.c\<close>, blocks of its own,
    byte code streams; the locale \<open>module_invariant\<close> shows that an invariant survives it. They are
    interpreted for the well-formedness of the memory pools, for
    the types of the error log and the program table, for saved registers and the time slice.
  \<^item> \<open>VM_Sched\<close>: what a round of the scheduler does: it ends, it keeps the invariants, it picks
    the next object and program, it ends a program that fails.
  \<^item> \<open>VM_Lcd\<close>: the display of \<open>src/c_ui/d_lcd.c\<close>, one function per function of the file. An image
    is the list of the bytes of the struct \<open>LCD\<close>; to read or write outside it is \<open>None\<close>. The
    bits of the fonts and icons are generated by the build and are parameters.
  \<^item> \<open>VM_Drawing\<close>: what the drawing functions paint. \<open>shown\<close> is the picture an image shows,
    \<open>alters\<close> and \<open>paints\<close> relate two images by their pictures. The locale \<open>plotter\<close> states what
    drawing and inverting a pixel share; rectangles, lines within half a pixel of the
    exact ones, circles, and the ends of the loops of dotted lines and of the flood fill.
  \<^item> \<open>VM_Bitmaps\<close>, \<open>VM_Pictures\<close>: characters and bitmaps, drawn bit by bit or in whole bytes, where
    the copies leave the image, and the conversion of an image to the screen.

  \<^bold>\<open>Conventions.\<close> 32-bit addition, subtraction and multiplication wrap around, as the
  compiler's code does; 8 and 16 bit operands are promoted and truncated as in C. \<open>DATAF_NAN\<close>
  is \<open>0x7FC00000\<close>. Object headers (\<open>OBJ\<close>) are records in \<open>ObjHeap\<close>, found through the
  pointers of the object list; stores of bytes into them are not seen as changes of the record.
  Where a load and the decoding of a destination are not ordered by C, the order of the
  compiler's usual code is taken. The field \<open>Trace\<close> notes the calls that open, close and update
  modules; opening and closing change only the modules' own data (the close function of a
  dynamically loaded module, third-party code that \<open>dynLoadVMClose\<close> calls if there is one, is left out). The build options are those of the repository's configuration
  (no SD card or USB stick objects, no aliasing of block locals, parameters aligned, no debug
  output). Loops that may not end are \<open>partial_function\<close>s: their termination is proved where
  it holds. No fuel is used.

  \<^bold>\<open>Not modelled.\<close> The user interface except the drawing functions, sensors, motors, sound, communication and dynamic
  loading are drivers of devices and protocols; files of \<open>c_memory.c\<close> are operating system
  calls. \<open>opSTRINGS\<close> formats text with the C library; \<open>mSchedInit\<close>, \<open>main\<close>, \<open>Probe\<close>, \<open>System\<close> and
  \<open>Tst\<close> act on files, the terminal and other processes. The validator is the parameter \<open>Validate\<close> of the state. Output on the terminal is left
  out everywhere.
\<close>

end
